(* ===== verification/Prelude.thy ===== *)
theory Prelude
  imports Main "HOL-Library.Word" "HOL-Library.Monad_Syntax"
begin

text \<open>
  What every component shares: bytes, memory that is read through a pointer, the two kinds of
  failure, C strings and decimal printing.

  A \<open>const char*\<close> of the C++ code is modelled by a pair of a memory \<open>mem\<close> (the storage that may
  be read through the pointer) and a position in it. A read that leaves that storage is undefined
  behaviour of C++; it is the value \<^term>\<open>None\<close>. A C++ exception is the left value of a sum, whose
  string is the text of the \<open>std::runtime_error\<close>. So a function of the code that may both throw and
  read outside its buffer has a result of type \<open>(exc + 'a) option\<close>.
\<close>

type_synonym byte = "8 word"
type_synonym u8 = "8 word"
type_synonym u16 = "16 word"
type_synonym u32 = "32 word"
type_synonym mem = "byte list"
type_synonym exc = string

named_theorems wire_simps \<open>layout of bytes in memory and on the wire\<close>
named_theorems ie_simps \<open>characteristic equations of the information elements\<close>
named_theorems tx_simps \<open>what one call of the transmitter does\<close>

section \<open>Reading memory\<close>

definition rd :: "mem \<Rightarrow> nat \<Rightarrow> nat \<Rightarrow> byte list option" where
  "rd mem p n = (if p + n \<le> length mem then Some (take n (drop p mem)) else None)"

text \<open>\<open>wire_at mem p bs\<close>: the bytes \<open>bs\<close> are what the memory holds from position \<open>p\<close> on.\<close>

definition wire_at :: "mem \<Rightarrow> nat \<Rightarrow> byte list \<Rightarrow> bool" where
  "wire_at mem p bs \<longleftrightarrow> p + length bs \<le> length mem \<and> take (length bs) (drop p mem) = bs"

lemma rd_Some_iff: "(\<exists>bs. rd mem p n = Some bs) \<longleftrightarrow> p + n \<le> length mem"
  by (simp add: rd_def)

lemma rd_NoneD: "rd mem p n = None \<Longrightarrow> length mem < p + n"
  by (simp add: rd_def split: if_splits)

lemma rd_None_iff: "rd mem p n = None \<longleftrightarrow> length mem < p + n"
  by (auto simp: rd_def)

lemma rd_length: "rd mem p n = Some bs \<Longrightarrow> length bs = n"
  by (auto simp: rd_def split: if_splits)

lemma rd_wire [wire_simps]: "wire_at mem p bs \<Longrightarrow> n = length bs \<Longrightarrow> rd mem p n = Some bs"
  by (simp add: wire_at_def rd_def)

lemma rd_within:
  assumes "wire_at mem p bs"
  shows "k + n \<le> length bs \<Longrightarrow> rd mem (p + k) n = Some (take n (drop k bs))"
    and "n \<le> length bs \<Longrightarrow> rd mem p n = Some (take n bs)"
proof -
  from assms have b: "bs = take (length bs) (drop p mem)" and l: "p + length bs \<le> length mem"
    by (simp_all add: wire_at_def)
  show "rd mem (p + k) n = Some (take n (drop k bs))" if "k + n \<le> length bs"
  proof -
    from that have "take n (drop k bs) = take n (drop (p + k) mem)"
      by (subst b) (simp add: drop_take min_absorb1 add.commute)
    with that l show ?thesis by (simp add: rd_def)
  qed
  show "rd mem p n = Some (take n bs)" if "n \<le> length bs"
  proof -
    from that have "take n bs = take n (drop p mem)"
      by (subst b) (simp add: min_absorb1)
    with that l show ?thesis by (simp add: rd_def)
  qed
qed

lemma wire_at_Nil [wire_simps]: "wire_at mem p [] \<longleftrightarrow> p \<le> length mem"
  by (simp add: wire_at_def)

lemma wire_at_append [wire_simps]:
  "wire_at mem p (xs @ ys) \<longleftrightarrow> wire_at mem p xs \<and> wire_at mem (p + length xs) ys"
proof -
  have "take (length xs + length ys) (drop p mem)
      = take (length xs) (drop p mem) @ take (length ys) (drop (p + length xs) mem)"
    by (simp add: take_add add.commute)
  then show ?thesis
    by (auto simp: wire_at_def)
qed

lemma wire_at_Cons:
  "wire_at mem p (x # xs) \<longleftrightarrow> wire_at mem p [x] \<and> wire_at mem (Suc p) xs"
  using wire_at_append [of mem p "[x]" xs] by simp

lemma wire_at_prefix: "wire_at (pre @ bs @ post) (length pre) bs"
  by (simp add: wire_at_def)

lemma wire_at_0 [simp]: "wire_at (bs @ post) 0 bs"
  using wire_at_prefix [of "[]" bs post] by simp

section \<open>C strings and decimal output\<close>

text \<open>\<open>std::string(const char*)\<close> on an array: the bytes before the first NUL; with no NUL in the
  array the constructor reads past its end.\<close>

definition c_str :: "byte list \<Rightarrow> byte list option" where
  "c_str arr = (if 0 \<in> set arr then Some (takeWhile (\<lambda>b. b \<noteq> 0) arr) else None)"

lemma c_str_padded: "0 \<notin> set bs \<Longrightarrow> c_str (bs @ 0 # rest) = Some bs"
  by (subst c_str_def, subst takeWhile_append2) auto

text \<open>A string literal as the bytes the code holds, and back.\<close>

definition bytes_of :: "string \<Rightarrow> byte list" where
  "bytes_of s = map of_char s"

fun show_nat :: "nat \<Rightarrow> string" where
  "show_nat n =
     (if n < 10 then [char_of (48 + n)] else show_nat (n div 10) @ [char_of (48 + n mod 10)])"

declare show_nat.simps [simp del]

definition show_int :: "int \<Rightarrow> string" where
  "show_int i = (if i < 0 then CHR ''-'' # show_nat (nat (- i)) else show_nat (nat i))"

text \<open>Reading a decimal back: used to state that the printed forms are faithful.\<close>

definition digits_value :: "string \<Rightarrow> nat" where
  "digits_value s = foldl (\<lambda>a c. 10 * a + (of_char c - 48)) 0 s"

lemma digits_value_snoc: "digits_value (s @ [c]) = 10 * digits_value s + (of_char c - 48)"
  by (simp add: digits_value_def)

lemma digits_value_show_nat: "digits_value (show_nat n) = n"
proof (induction n rule: show_nat.induct)
  case (1 n)
  show ?case
  proof (cases "n < 10")
    case True
    then show ?thesis
      by (simp add: show_nat.simps [of n] digits_value_def)
  next
    case False
    have "(48 + n mod 10) mod 256 = 48 + n mod 10"
      by simp
    with 1 False show ?thesis
      by (simp add: show_nat.simps [of n] digits_value_snoc)
  qed
qed

lemma show_nat_chars: "c \<in> set (show_nat n) \<Longrightarrow> 48 \<le> (of_char c :: nat) \<and> (of_char c :: nat) \<le> 57"
proof (induction n rule: show_nat.induct)
  case (1 n)
  have "(48 + n mod 10) mod 256 = 48 + n mod 10" by simp
  with 1 show ?case
    by (auto simp: show_nat.simps [of n] split: if_splits)
qed

lemma show_nat_inj: "show_nat m = show_nat n \<Longrightarrow> m = n"
  by (metis digits_value_show_nat)

lemma unat_of_nat_u16: "n < 65536 \<Longrightarrow> unat (of_nat n :: u16) = n"
  by (simp add: unat_of_nat)

section \<open>Lists\<close>

text \<open>\<open>std::find_if\<close> over a vector: the index of the first hit, the length (\<open>end()\<close>) if none.\<close>

definition find_index :: "('a \<Rightarrow> bool) \<Rightarrow> 'a list \<Rightarrow> nat" where
  "find_index P xs = length (takeWhile (\<lambda>x. \<not> P x) xs)"

lemma find_index_le: "find_index P xs \<le> length xs"
  by (simp add: find_index_def length_takeWhile_le)

lemma find_index_less_iff: "find_index P xs < length xs \<longleftrightarrow> (\<exists>x \<in> set xs. P x)"
  by (induction xs) (auto simp: find_index_def)

lemma find_index_end_iff: "find_index P xs = length xs \<longleftrightarrow> (\<forall>x \<in> set xs. \<not> P x)"
  using find_index_le [of P xs] find_index_less_iff [of P xs] by force

lemma find_index_nth: "find_index P xs < length xs \<Longrightarrow> P (xs ! find_index P xs)"
  unfolding find_index_def using nth_length_takeWhile [of "\<lambda>x. \<not> P x" xs] by simp

lemma find_index_first: "i < find_index P xs \<Longrightarrow> \<not> P (xs ! i)"
  unfolding find_index_def by (metis nth_mem set_takeWhileD takeWhile_nth)

lemma find_index_Cons: "find_index P (x # xs) = (if P x then 0 else Suc (find_index P xs))"
  by (simp add: find_index_def)

lemma find_index_Nil [simp]: "find_index P [] = 0"
  by (simp add: find_index_def)

lemma find_index_map:
  "(\<And>x. P (f x) = P x) \<Longrightarrow> find_index P (map f xs) = find_index P xs"
  by (induction xs) (simp_all add: find_index_Cons)

end
