(* ===== verification/Host.thy ===== *)
theory Host
  imports Prelude
begin

unbundle bit_operations_syntax

text \<open>
  The machine the library is compiled for. The code depends on it in three ways: the byte order
  (the \<open>memcpy\<close> of an integer, \<open>htons\<close>, \<open>htonl\<close> and the \<open>isBigEndian\<close> test of Modem.cpp), the
  signedness of \<open>char\<close> (signed with gcc on x86, unsigned on the arm-linux-gnueabihf target of the
  build files) and what uninitialised storage holds (the padding of a bit-field structure).
  Every definition that depends on the machine takes it as its first argument, so a theorem that
  quantifies over it holds on every target.
\<close>

record host =
  big_endian :: bool
  char_signed :: bool
  stale :: u32

section \<open>Objects in memory\<close>

text \<open>The bytes of an \<open>n\<close>-byte integer, least significant first, and the integer they make.\<close>

definition bytes_le :: "nat \<Rightarrow> 'a::len word \<Rightarrow> byte list" where
  "bytes_le n w = map (\<lambda>i. ucast (drop_bit (8 * i) w)) [0..<n]"

fun word_le :: "byte list \<Rightarrow> 'a::len word" where
  "word_le [] = 0"
| "word_le (b # bs) = push_bit 8 (word_le bs) OR ucast b"

text \<open>\<open>memcpy\<close> between an integer object and a buffer.\<close>

definition store :: "host \<Rightarrow> nat \<Rightarrow> 'a::len word \<Rightarrow> byte list" where
  "store h n w = (if big_endian h then rev (bytes_le n w) else bytes_le n w)"

definition load :: "host \<Rightarrow> byte list \<Rightarrow> 'a::len word" where
  "load h bs = word_le (if big_endian h then rev bs else bs)"

text \<open>\<open>htons\<close>, \<open>ntohs\<close> (\<open>n = 2\<close>) and \<open>htonl\<close>, \<open>ntohl\<close> (\<open>n = 4\<close>): the identity on a big-endian
  machine, the reversal of the bytes on a little-endian one.\<close>

definition swap_bytes :: "nat \<Rightarrow> 'a::len word \<Rightarrow> 'a word" where
  "swap_bytes n w = word_le (rev (bytes_le n w))"

definition htons :: "host \<Rightarrow> u16 \<Rightarrow> u16" where
  "htons h w = (if big_endian h then w else swap_bytes 2 w)"

definition ntohs :: "host \<Rightarrow> u16 \<Rightarrow> u16" where
  "ntohs h w = (if big_endian h then w else swap_bytes 2 w)"

definition htonl :: "host \<Rightarrow> u32 \<Rightarrow> u32" where
  "htonl h w = (if big_endian h then w else swap_bytes 4 w)"

definition ntohl :: "host \<Rightarrow> u32 \<Rightarrow> u32" where
  "ntohl h w = (if big_endian h then w else swap_bytes 4 w)"

text \<open>The value of a \<open>char\<close> in an integer expression.\<close>

definition char_int :: "host \<Rightarrow> byte \<Rightarrow> int" where
  "char_int h b = (if char_signed h then sint b else uint b)"

lemma sint_byte: "sint (b :: byte) = uint b - (if 128 \<le> uint b then 256 else 0)"
proof -
  have b: "0 \<le> uint b" "uint b < 256"
    using uint_bounded [of b] by simp_all
  have "odd (k div 128) \<longleftrightarrow> 128 \<le> k" if "0 \<le> k" "k < 256" for k :: int
  proof (cases "128 \<le> k")
    case True
    with that have "k div 128 = 1" by simp
    with True show ?thesis by simp
  next
    case False
    with that have "k div 128 = 0" by simp
    with False show ?thesis by simp
  qed
  with b have "bit (uint b) 7 \<longleftrightarrow> 128 \<le> uint b"
    by (simp add: bit_iff_odd)
  moreover have "take_bit 8 (uint b) = uint b"
    using b by (simp add: take_bit_int_eq_self)
  ultimately show ?thesis
    by (simp add: sint_uint signed_take_bit_eq_take_bit_minus)
qed

lemma char_int_value: "char_int h c = uint c - (if char_signed h \<and> 128 \<le> uint c then 256 else 0)"
  by (simp add: char_int_def sint_byte)

definition x86 :: host where
  "x86 = \<lparr>big_endian = False, char_signed = True, stale = 0\<rparr>"

section \<open>Network byte order\<close>

definition be16 :: "u16 \<Rightarrow> byte list" where
  "be16 w = [ucast (drop_bit 8 w), ucast w]"

definition be32 :: "u32 \<Rightarrow> byte list" where
  "be32 w = [ucast (drop_bit 24 w), ucast (drop_bit 16 w), ucast (drop_bit 8 w), ucast w]"

lemma length_bytes_le [simp]: "length (bytes_le n w) = n"
  by (simp add: bytes_le_def)

lemma length_store [simp]: "length (store h n w) = n"
  by (simp add: store_def)

lemma length_be16 [simp]: "length (be16 w) = 2"
  by (simp add: be16_def)

lemma length_be32 [simp]: "length (be32 w) = 4"
  by (simp add: be32_def)

lemma bytes_le_2: "bytes_le 2 w = [ucast w, ucast (drop_bit 8 w)]"
  by (simp add: bytes_le_def upt_rec)

lemma bytes_le_4:
  "bytes_le 4 w = [ucast w, ucast (drop_bit 8 w), ucast (drop_bit 16 w), ucast (drop_bit 24 w)]"
  by (simp add: bytes_le_def upt_rec)

lemma bit_word_le:
  "bit (word_le bs :: 'a::len word) k \<longleftrightarrow> k < LENGTH('a) \<and> k div 8 < length bs \<and> bit (bs ! (k div 8)) (k mod 8)"
proof (induction bs arbitrary: k)
  case Nil
  then show ?case by simp
next
  case (Cons b bs)
  show ?case
  proof (cases "k < 8")
    case True
    then show ?thesis by (auto simp: bit_simps)
  next
    case False
    then have "k div 8 = Suc ((k - 8) div 8)" and "k mod 8 = (k - 8) mod 8"
      by (simp_all add: le_div_geq le_mod_geq not_less)
    with False Cons.IH [of "k - 8"] show ?thesis
      by (auto simp: bit_simps dest: bit_imp_le_length)
  qed
qed

lemma word_le_bytes_le: "LENGTH('a) \<le> 8 * n \<Longrightarrow> word_le (bytes_le n w) = (w :: 'a::len word)"
  by (rule bit_word_eqI) (auto simp: bit_word_le bytes_le_def bit_simps)

lemma bytes_le_word_le:
  assumes "LENGTH('a) = 8 * length bs"
  shows "bytes_le (length bs) (word_le bs :: 'a::len word) = bs"
proof (rule nth_equalityI)
  fix i
  assume "i < length (bytes_le (length bs) (word_le bs :: 'a word))"
  then have i: "i < length bs" by simp
  show "bytes_le (length bs) (word_le bs :: 'a word) ! i = bs ! i"
  proof (rule bit_word_eqI)
    fix k
    assume "k < LENGTH(8)"
    then have k: "k < 8" by simp
    from k i have "8 * i + k < 8 * length bs" by simp
    with k i assms show "bit (bytes_le (length bs) (word_le bs :: 'a word) ! i) k = bit (bs ! i) k"
      by (simp add: bytes_le_def bit_simps bit_word_le add.commute)
  qed
qed simp

text \<open>
  Storing a value that went through \<open>htons\<close> or \<open>htonl\<close> writes network byte order on every machine,
  and loading such bytes through \<open>ntohs\<close> or \<open>ntohl\<close> reads the value back.
\<close>

lemma bytes_le_swap:
  "LENGTH('a) = 8 * n \<Longrightarrow> bytes_le n (swap_bytes n w) = rev (bytes_le n (w :: 'a::len word))"
  using bytes_le_word_le [of "rev (bytes_le n w)", where 'a = 'a] by (simp add: swap_bytes_def)

lemma store_htons [wire_simps]: "store h 2 (htons h w) = be16 w"
proof (cases "big_endian h")
  case True
  then show ?thesis by (simp add: store_def htons_def be16_def bytes_le_2)
next
  case False
  then show ?thesis
    by (simp add: store_def htons_def bytes_le_swap) (simp add: be16_def bytes_le_2)
qed

lemma store_htonl [wire_simps]: "store h 4 (htonl h w) = be32 w"
proof (cases "big_endian h")
  case True
  then show ?thesis by (simp add: store_def htonl_def be32_def bytes_le_4)
next
  case False
  then show ?thesis
    by (simp add: store_def htonl_def bytes_le_swap) (simp add: be32_def bytes_le_4)
qed

lemma ntohs_load: "length bs = 2 \<Longrightarrow> ntohs h (load h bs) = word_le (rev bs)"
  using bytes_le_word_le [of bs, where 'a = 16]
  by (simp add: ntohs_def load_def swap_bytes_def)

lemma ntohl_load: "length bs = 4 \<Longrightarrow> ntohl h (load h bs) = word_le (rev bs)"
  using bytes_le_word_le [of bs, where 'a = 32]
  by (simp add: ntohl_def load_def swap_bytes_def)

lemma rev_be16: "rev (be16 w) = bytes_le 2 w"
  by (simp add: be16_def bytes_le_2)

lemma rev_be32: "rev (be32 w) = bytes_le 4 w"
  by (simp add: be32_def bytes_le_4)

lemma ntohs_be16 [wire_simps]: "ntohs h (load h (be16 w)) = w"
  by (simp add: ntohs_load rev_be16 word_le_bytes_le)

lemma ntohl_be32 [wire_simps]: "ntohl h (load h (be32 w)) = w"
  by (simp add: ntohl_load rev_be32 word_le_bytes_le)

lemma be16_inj: "be16 v = be16 w \<Longrightarrow> v = w"
  using ntohs_be16 [of undefined v] by (simp add: ntohs_be16)

lemma load_store: "LENGTH('a) \<le> 8 * n \<Longrightarrow> load h (store h n w) = (w :: 'a::len word)"
  by (simp add: load_def store_def word_le_bytes_le)

lemma store_load:
  "LENGTH('a) = 8 * length bs \<Longrightarrow> store h (length bs) (load h bs :: 'a::len word) = bs"
  using bytes_le_word_le [of bs, where 'a = 'a] bytes_le_word_le [of "rev bs", where 'a = 'a]
  by (auto simp: store_def load_def)

end
