(* ===== verification/InformationElement.thy ===== *)
theory InformationElement
  imports Host
begin

text \<open>
  include/iridium/InformationElement.hpp and src/InformationElement.cpp: the identifiers of the
  information elements and their classification, the state every element has (the class
  \<open>InformationElement\<close> together with the template \<open>IEContent\<close>), and the two virtual methods of the
  base class.

  An element is \<open>'c ie\<close>, with \<open>'c\<close> its content (the \<open>Dto\<close> structure of the derived class). The
  methods \<open>unpack\<close> and \<open>packInto\<close> are state transformers: they return the changed element, and
  \<open>unpack\<close> is \<^term>\<open>None\<close> when it reads outside the memory behind its \<open>data\<close> pointer (given as the
  memory and a position in it).

  The contracts that the message layer relies on are the locales \<open>ie_reader\<close> (memory safety and
  progress of \<open>unpack\<close>), \<open>ie_writer\<close> (\<open>packInto\<close> emits a well-framed element) and \<open>ie_codec\<close>
  (\<open>unpack\<close> reads back what \<open>packInto\<close> wrote); every element class is interpreted in its own theory.
\<close>

section \<open>Identifiers\<close>

definition HeaderSize :: u16 where
  "HeaderSize = 3"

definition eMoHeader :: u8 where "eMoHeader = 0x01"
definition eMoPayload :: u8 where "eMoPayload = 0x02"
definition eMoLocationInfo :: u8 where "eMoLocationInfo = 0x03"
definition eMoConfirmation :: u8 where "eMoConfirmation = 0x05"
definition eMtHeader :: u8 where "eMtHeader = 0x41"
definition eMtPayload :: u8 where "eMtPayload = 0x42"
definition eMtConfirmationMsg :: u8 where "eMtConfirmationMsg = 0x44"
definition eMtMsgPriority :: u8 where "eMtMsgPriority = 0x46"

lemmas id_defs = eMoHeader_def eMoPayload_def eMoLocationInfo_def eMoConfirmation_def
  eMtHeader_def eMtPayload_def eMtConfirmationMsg_def eMtMsgPriority_def

definition IsMoElem :: "u8 \<Rightarrow> bool" where
  "IsMoElem ident \<longleftrightarrow> eMoHeader \<le> ident \<and> ident \<le> eMoConfirmation"

definition IsMtElem :: "u8 \<Rightarrow> bool" where
  "IsMtElem ident \<longleftrightarrow>
     eMtHeader \<le> ident \<and> ident \<le> eMtMsgPriority \<and> ident \<noteq> 0x45 \<and> ident \<noteq> 0x45"

definition IsMtConfirm :: "u8 \<Rightarrow> bool" where
  "IsMtConfirm ident \<longleftrightarrow> ident = eMtConfirmationMsg"

lemma not_Mo_and_Mt: "\<not> (IsMoElem i \<and> IsMtElem i)"
  using order_trans [of "0x41" i "0x05"] by (auto simp: IsMoElem_def IsMtElem_def id_defs)

lemma IsMtConfirm_IsMtElem: "IsMtConfirm i \<Longrightarrow> IsMtElem i"
  by (simp add: IsMtConfirm_def IsMtElem_def id_defs)

section \<open>The state of an element and the methods of the base class\<close>

record 'c ie =
  m_id :: u8
  m_length :: u16
  m_content :: 'c

definition new_ie :: "u8 \<Rightarrow> 'c \<Rightarrow> 'c ie" where
  "new_ie ident c = \<lparr>m_id = ident, m_length = 0, m_content = c\<rparr>"

definition InformationElement_unpack :: "'c ie \<Rightarrow> mem \<Rightarrow> nat \<Rightarrow> u16 \<Rightarrow> ('c ie \<times> u16) option" where
  "InformationElement_unpack e mem p sz = Some (e, 0)"

definition InformationElement_packInto :: "host \<Rightarrow> 'c ie \<Rightarrow> byte list \<Rightarrow> byte list" where
  "InformationElement_packInto h e raw = raw @ m_id e # store h 2 (htons h (m_length e))"

text \<open>Sixteen characters of an IMEI structure: fifteen digits and a terminating NUL.\<close>

definition imei_zero :: "byte list" where
  "imei_zero = replicate 16 0"

definition imei_good :: "byte list \<Rightarrow> bool" where
  "imei_good v \<longleftrightarrow> length v = 16 \<and> v ! 15 = 0"

lemma imei_good_split: "imei_good v \<longleftrightarrow> (\<exists>ds. length ds = 15 \<and> v = ds @ [0])"
proof
  assume v: "imei_good v"
  then have "v = take 15 v @ [v ! 15]"
    using take_Suc_conv_app_nth [of 15 v] by (simp add: imei_good_def)
  with v show "\<exists>ds. length ds = 15 \<and> v = ds @ [0]"
    by (intro exI [of _ "take 15 v"]) (simp add: imei_good_def)
qed (auto simp: imei_good_def nth_append)

lemma imei_good_c_str: "imei_good v \<Longrightarrow> c_str v \<noteq> None"
  by (auto simp: imei_good_split c_str_def)

section \<open>What the message layer relies on\<close>

text \<open>
  \<open>unpack\<close> gets the number of bytes that are left of the message. It may read up to three bytes
  more than that (and some element classes do), it returns 0 on an error and otherwise consumes
  at least a header, and it keeps the identity of the element.
\<close>

locale ie_reader =
  fixes ident :: "'o \<Rightarrow> u8"
    and unp :: "host \<Rightarrow> 'o \<Rightarrow> mem \<Rightarrow> nat \<Rightarrow> u16 \<Rightarrow> ('o \<times> u16) option"
  assumes unp_safe: "p + unat sz + 3 \<le> length mem \<Longrightarrow> unp h e mem p sz \<noteq> None"
    and unp_bound: "unp h e mem p sz = Some (e', n) \<Longrightarrow> unat n \<le> unat sz + 3"
    and unp_progress: "unp h e mem p sz = Some (e', n) \<Longrightarrow> n \<noteq> 0 \<Longrightarrow> 3 \<le> unat n"
    and unp_ident: "unp h e mem p sz = Some (e', n) \<Longrightarrow> ident e' = ident e"
begin

lemma unp_obtain:
  assumes "p + unat sz + 3 \<le> length mem"
  obtains e' n where "unp h e mem p sz = Some (e', n)" and "unat n \<le> unat sz + 3"
    and "n \<noteq> 0 \<Longrightarrow> 3 \<le> unat n" and "ident e' = ident e"
proof -
  from unp_safe [OF assms, of h e] obtain e' n where r: "unp h e mem p sz = Some (e', n)"
    by (auto simp: not_None_eq)
  show thesis
    by (rule that [OF r unp_bound [OF r] unp_progress [OF r] unp_ident [OF r]])
qed

lemma unp_stays:
  "p + unat sz + 3 \<le> length mem \<Longrightarrow> unp h e mem p sz = Some (e', n) \<Longrightarrow> p + unat n \<le> length mem"
  using unp_bound [of h e mem p sz e' n] by linarith

end

text \<open>
  \<open>packInto\<close> of an element that packs appends its identifier, its length in network byte order and
  its body, and leaves \<open>sent e\<close>, whose \<open>getLength\<close> is the length of that body.
\<close>

definition framed :: "u8 \<Rightarrow> byte list \<Rightarrow> byte list" where
  "framed ident bd = ident # be16 (of_nat (length bd)) @ bd"

lemma length_framed [simp]: "length (framed i bd) = length bd + 3"
  by (simp add: framed_def)

locale ie_writer =
  fixes ident :: "'o \<Rightarrow> u8"
    and len :: "'o \<Rightarrow> u16"
    and pck :: "host \<Rightarrow> 'o \<Rightarrow> byte list \<Rightarrow> 'o \<times> byte list"
    and packs :: "'o \<Rightarrow> bool"
    and body :: "'o \<Rightarrow> byte list"
    and sent :: "'o \<Rightarrow> 'o"
  assumes pck_framed: "packs e \<Longrightarrow> pck h e raw = (sent e, raw @ framed (ident e) (body e))"
    and body_bounds: "packs e \<Longrightarrow> 1 \<le> length (body e) \<and> length (body e) \<le> 1960"
    and sent_packs: "packs e \<Longrightarrow> packs (sent e) \<and> body (sent e) = body e \<and> sent (sent e) = sent e \<and>
      ident (sent e) = ident e \<and> len (sent e) = of_nat (length (body e))"
begin

lemma pck_length: "packs e \<Longrightarrow> length (snd (pck h e raw)) = length raw + 3 + length (body e)"
  by (simp add: pck_framed)

lemma pck_append: "packs e \<Longrightarrow> snd (pck h e raw) = raw @ snd (pck h e [])"
  by (simp add: pck_framed)

lemma pck_idem:
  "packs e \<Longrightarrow> pck h (fst (pck h e raw)) raw' = (sent e, raw' @ framed (ident e) (body e))"
  by (simp add: pck_framed sent_packs)

lemma body_u16: "packs e \<Longrightarrow> unat (of_nat (length (body e)) :: u16) = length (body e)"
  using body_bounds [of e] by (simp add: unat_of_nat)

lemma body_u16_plus: "packs e \<Longrightarrow> unat (of_nat (length (body e)) + 2 :: u16) = length (body e) + 2"
  using body_bounds [of e] body_u16 [of e] by (simp add: unat_word_ariths)

end

text \<open>
  An element of a class that reads what it writes: \<open>unpack\<close>, run on any object of the same class over
  these bytes, yields exactly \<open>sent e\<close>.
\<close>

locale ie_codec = ie_reader ident unp + ie_writer ident len pck packs body sent
  for ident :: "'o \<Rightarrow> u8" and unp and len and pck and packs and body and sent +
  fixes good :: "'o \<Rightarrow> bool"
    and same :: "'o \<Rightarrow> 'o \<Rightarrow> bool"
  assumes good_packs: "good e \<Longrightarrow> packs e"
    and sent_good: "good e \<Longrightarrow> good (sent e)"
    and unp_sent: "good e \<Longrightarrow> same o' e \<Longrightarrow>
      wire_at mem p (be16 (of_nat (length (body e))) @ body e) \<Longrightarrow>
      length (body e) + 2 \<le> unat sz \<Longrightarrow>
      unp h o' mem p sz = Some (sent e, of_nat (length (body e)) + 2)"
begin

text \<open>The round trip on the bytes one element puts on the wire, whatever follows them.\<close>

lemma round_trip:
  assumes "good e" and "same o' e" and "length (body e) + 2 \<le> unat sz"
  shows "unp h o' (snd (pck h e raw) @ rest) (length raw + 1) sz
    = Some (sent e, of_nat (length (body e)) + 2)"
proof (rule unp_sent [OF assms(1,2) _ assms(3)])
  show "wire_at (snd (pck h e raw) @ rest) (length raw + 1) (be16 (of_nat (length (body e))) @ body e)"
    using wire_at_prefix [of "raw @ [ident e]" "be16 (of_nat (length (body e))) @ body e" rest]
    by (simp add: pck_framed [OF good_packs [OF assms(1)]] framed_def)
qed

end

end
