(* ===== verification/IEMoHeader.thy ===== *)
theory IEMoHeader
  imports InformationElement
begin

text \<open>
  include/iridium/IEMoHeader.hpp and src/IEMoHeader.cpp: the header of a mobile originated message,
  a fixed 28-byte element.
\<close>

record IEMoHeaderDto =
  m_cdrRef :: u32
  m_imei_mo :: "byte list"
  m_sessionStatus :: u8
  m_momsn :: u16
  m_mtmsn :: u16
  m_sessionTime :: u32

definition IEMoHeaderDto_init :: IEMoHeaderDto where
  "IEMoHeaderDto_init = \<lparr>m_cdrRef = 0, m_imei_mo = imei_zero, m_sessionStatus = 0,
     m_momsn = 0, m_mtmsn = 0, m_sessionTime = 0\<rparr>"

definition IEMoHeader_ElementLength :: nat where
  "IEMoHeader_ElementLength = 28"

definition IEMoHeader_new :: "IEMoHeaderDto ie" where
  "IEMoHeader_new = new_ie eMoHeader IEMoHeaderDto_init"

definition IEMoHeader_unpack ::
  "host \<Rightarrow> IEMoHeaderDto ie \<Rightarrow> mem \<Rightarrow> nat \<Rightarrow> u16 \<Rightarrow> (IEMoHeaderDto ie \<times> u16) option" where
  "IEMoHeader_unpack h e mem p sz =
     (if unat sz < IEMoHeader_ElementLength + 2 then Some (e, 0)
      else do {
        bs \<leftarrow> rd mem p 2;
        let e = e\<lparr>m_length := ntohs h (load h bs)\<rparr>;
        if unat (m_length e) \<noteq> IEMoHeader_ElementLength then Some (e, 0)
        else do {
          let offset = (2 :: u16);
          bs \<leftarrow> rd mem (p + unat offset) 4;
          let c = (m_content e)\<lparr>m_cdrRef := ntohl h (load h bs)\<rparr>;
          let offset = offset + 4;
          bs \<leftarrow> rd mem (p + unat offset) 15;
          let c = c\<lparr>m_imei_mo := bs @ [0]\<rparr>;
          let offset = offset + 15;
          bs \<leftarrow> rd mem (p + unat offset) 1;
          let c = c\<lparr>m_sessionStatus := hd bs\<rparr>;
          let offset = offset + 1;
          bs \<leftarrow> rd mem (p + unat offset) 2;
          let c = c\<lparr>m_momsn := ntohs h (load h bs)\<rparr>;
          let offset = offset + 2;
          bs \<leftarrow> rd mem (p + unat offset) 2;
          let c = c\<lparr>m_mtmsn := ntohs h (load h bs)\<rparr>;
          let offset = offset + 2;
          bs \<leftarrow> rd mem (p + unat offset) 4;
          let c = c\<lparr>m_sessionTime := ntohl h (load h bs)\<rparr>;
          let offset = offset + 4;
          Some (e\<lparr>m_content := c\<rparr>, offset)
        }
      })"

definition IEMoHeader_packInto ::
  "host \<Rightarrow> IEMoHeaderDto ie \<Rightarrow> byte list \<Rightarrow> IEMoHeaderDto ie \<times> byte list" where
  "IEMoHeader_packInto h e raw =
     (let e = e\<lparr>m_length := of_nat IEMoHeader_ElementLength\<rparr>;
          c = m_content e;
          raw = InformationElement_packInto h e raw;
          raw = raw @ store h 4 (htonl h (m_cdrRef c));
          raw = raw @ take 15 (m_imei_mo c);
          raw = raw @ [m_sessionStatus c];
          raw = raw @ store h 2 (htons h (m_momsn c));
          raw = raw @ store h 2 (htons h (m_mtmsn c));
          raw = raw @ store h 4 (htonl h (m_sessionTime c))
      in (e, raw))"

section \<open>The element on the wire\<close>

definition MoHeader_good :: "IEMoHeaderDto ie \<Rightarrow> bool" where
  "MoHeader_good e \<longleftrightarrow> imei_good (m_imei_mo (m_content e))"

definition MoHeader_body :: "IEMoHeaderDto ie \<Rightarrow> byte list" where
  "MoHeader_body e = (let c = m_content e in
     be32 (m_cdrRef c) @ take 15 (m_imei_mo c) @ [m_sessionStatus c] @ be16 (m_momsn c) @
     be16 (m_mtmsn c) @ be32 (m_sessionTime c))"

definition MoHeader_sent :: "IEMoHeaderDto ie \<Rightarrow> IEMoHeaderDto ie" where
  "MoHeader_sent e = e\<lparr>m_length := 28\<rparr>"

lemmas MoHeader_defs = MoHeader_good_def MoHeader_body_def MoHeader_sent_def
  IEMoHeader_ElementLength_def

lemma MoHeader_length_body: "MoHeader_good e \<Longrightarrow> length (MoHeader_body e) = 28"
  by (auto simp: MoHeader_defs imei_good_split Let_def)

lemma MoHeader_unpack_bound:
  "IEMoHeader_unpack h e mem p sz = Some (e', n) \<Longrightarrow>
     m_id e' = m_id e \<and> (n = 0 \<or> n = 30 \<and> 30 \<le> unat sz)"
  by (auto simp: IEMoHeader_unpack_def MoHeader_defs bind_eq_Some_conv Let_def split: if_splits)

lemma MoHeader_unpack_safe: "p + unat sz \<le> length mem \<Longrightarrow> IEMoHeader_unpack h e mem p sz \<noteq> None"
  by (auto simp: IEMoHeader_unpack_def MoHeader_defs rd_def Let_def not_less split: if_splits)

lemma MoHeader_unpack_sent:
  assumes "MoHeader_good e" and "m_id o' = m_id e"
    and "wire_at mem p (be16 (of_nat (length (MoHeader_body e))) @ MoHeader_body e)"
    and "length (MoHeader_body e) + 2 \<le> unat sz"
  shows "IEMoHeader_unpack h o' mem p sz = Some (MoHeader_sent e, of_nat (length (MoHeader_body e)) + 2)"
proof -
  obtain ds where ds: "length ds = 15" "m_imei_mo (m_content e) = ds @ [0]"
    using assms(1) by (auto simp: MoHeader_good_def imei_good_split)
  have len: "length (MoHeader_body e) = 28"
    using assms(1) by (rule MoHeader_length_body)
  note at = rd_within [OF assms(3) [unfolded len]]
  show ?thesis
    using assms(2,4) ds unfolding len
    by (simp add: IEMoHeader_unpack_def MoHeader_defs Let_def at wire_simps
        del: add_2_eq_Suc add_2_eq_Suc')
qed

interpretation MoHeader: ie_codec m_id IEMoHeader_unpack m_length IEMoHeader_packInto
  MoHeader_good MoHeader_body MoHeader_sent MoHeader_good "\<lambda>o' e. m_id o' = m_id e"
proof unfold_locales
  fix h e mem p sz and e' :: "IEMoHeaderDto ie" and n
  show "p + unat sz + 3 \<le> length mem \<Longrightarrow> IEMoHeader_unpack h e mem p sz \<noteq> None"
    using MoHeader_unpack_safe [of p sz mem h e] by linarith
  assume "IEMoHeader_unpack h e mem p sz = Some (e', n)"
  from MoHeader_unpack_bound [OF this]
  show "unat n \<le> unat sz + 3" "n \<noteq> 0 \<Longrightarrow> 3 \<le> unat n" "m_id e' = m_id e"
    by auto
next
  fix h raw and e :: "IEMoHeaderDto ie"
  assume g: "MoHeader_good e"
  show "IEMoHeader_packInto h e raw = (MoHeader_sent e, raw @ framed (m_id e) (MoHeader_body e))"
    by (simp add: IEMoHeader_packInto_def InformationElement_packInto_def framed_def
        MoHeader_length_body [OF g] wire_simps) (simp add: MoHeader_defs Let_def)
  show "1 \<le> length (MoHeader_body e) \<and> length (MoHeader_body e) \<le> 1960"
    by (simp add: MoHeader_length_body [OF g])
  show "MoHeader_good (MoHeader_sent e) \<and> MoHeader_body (MoHeader_sent e) = MoHeader_body e \<and>
      MoHeader_sent (MoHeader_sent e) = MoHeader_sent e \<and> m_id (MoHeader_sent e) = m_id e \<and>
      m_length (MoHeader_sent e) = of_nat (length (MoHeader_body e))"
    using g MoHeader_length_body [OF g] by (simp add: MoHeader_defs)
  show "MoHeader_good (MoHeader_sent e)"
    using g by (simp add: MoHeader_defs)
qed (auto intro: MoHeader_unpack_sent)

end
