(* ===== verification/IEMo.thy ===== *)
theory IEMo
  imports IEMoHeader
begin

text \<open>
  The other elements of a mobile originated message: the payload (IEMoPayload), the confirmation
  (IEMoConfirmation) and the location information (IEMoLocationInfo). The payload has a variable
  length of 1 to 1960 bytes. The location information is declared with a length of 11 bytes, but the
  bit-field structure that stands for its first byte occupies four bytes of memory (its members are
  declared \<open>unsigned int\<close>), and both methods copy all of them.
\<close>

section \<open>IEMoPayload\<close>

record IEMoPayloadDto =
  m_payload_mo :: "byte list"

definition IEMoPayload_MaxPayloadLength :: nat where
  "IEMoPayload_MaxPayloadLength = 1960"

definition IEMoPayload_new :: "IEMoPayloadDto ie" where
  "IEMoPayload_new = new_ie eMoPayload \<lparr>m_payload_mo = []\<rparr>"

definition IEMoPayload_unpack ::
  "host \<Rightarrow> IEMoPayloadDto ie \<Rightarrow> mem \<Rightarrow> nat \<Rightarrow> u16 \<Rightarrow> (IEMoPayloadDto ie \<times> u16) option" where
  "IEMoPayload_unpack h e mem p sz =
     (if unat sz < 2 then Some (e, 0)
      else do {
        bs \<leftarrow> rd mem p 2;
        let e = e\<lparr>m_length := ntohs h (load h bs)\<rparr>;
        if unat (m_length e) < 1 \<or> unat (m_length e) > IEMoPayload_MaxPayloadLength then Some (e, 0)
        else if unat sz < unat (m_length e) then Some (e, 0)
        else do {
          let offset = (2 :: u16);
          bs \<leftarrow> rd mem (p + unat offset) (unat (m_length e));
          let e = e\<lparr>m_content := (m_content e)\<lparr>m_payload_mo := bs\<rparr>\<rparr>;
          let offset = offset + m_length e;
          Some (e, offset)
        }
      })"

definition IEMoPayload_packInto ::
  "host \<Rightarrow> IEMoPayloadDto ie \<Rightarrow> byte list \<Rightarrow> IEMoPayloadDto ie \<times> byte list" where
  "IEMoPayload_packInto h e raw =
     (let e = e\<lparr>m_length := of_nat (length (m_payload_mo (m_content e)))\<rparr>;
          e = (if unat (m_length e) > IEMoPayload_MaxPayloadLength
               then e\<lparr>m_length := of_nat IEMoPayload_MaxPayloadLength,
                      m_content := (m_content e)\<lparr>m_payload_mo :=
                        take IEMoPayload_MaxPayloadLength (m_payload_mo (m_content e))\<rparr>\<rparr>
               else e);
          raw = InformationElement_packInto h e raw
      in (e, raw @ m_payload_mo (m_content e)))"

definition MoPayload_good :: "IEMoPayloadDto ie \<Rightarrow> bool" where
  "MoPayload_good e \<longleftrightarrow> 1 \<le> length (m_payload_mo (m_content e)) \<and>
     length (m_payload_mo (m_content e)) \<le> IEMoPayload_MaxPayloadLength"

definition MoPayload_body :: "IEMoPayloadDto ie \<Rightarrow> byte list" where
  "MoPayload_body e = m_payload_mo (m_content e)"

definition MoPayload_sent :: "IEMoPayloadDto ie \<Rightarrow> IEMoPayloadDto ie" where
  "MoPayload_sent e = e\<lparr>m_length := of_nat (length (m_payload_mo (m_content e)))\<rparr>"

lemmas MoPayload_defs = MoPayload_good_def MoPayload_body_def MoPayload_sent_def
  IEMoPayload_MaxPayloadLength_def

lemma MoPayload_unpack_bound:
  "IEMoPayload_unpack h e mem p sz = Some (e', n) \<Longrightarrow>
     m_id e' = m_id e \<and> (n = 0 \<or> 3 \<le> unat n \<and> unat n \<le> unat sz + 2 \<and> unat n \<le> 1962)"
proof -
  have "3 \<le> unat (2 + l) \<and> unat (2 + l) = 2 + unat l" if "1 \<le> unat l" "unat l \<le> 1960" for l :: u16
    using that by (simp add: unat_word_ariths)
  then show "IEMoPayload_unpack h e mem p sz = Some (e', n) \<Longrightarrow> ?thesis"
    by (auto simp: IEMoPayload_unpack_def MoPayload_defs bind_eq_Some_conv Let_def not_less
        split: if_splits)
qed

lemma MoPayload_unpack_safe:
  "p + unat sz + 2 \<le> length mem \<Longrightarrow> IEMoPayload_unpack h e mem p sz \<noteq> None"
  by (auto simp: IEMoPayload_unpack_def MoPayload_defs rd_def Let_def not_less split: if_splits)

lemma MoPayload_unpack_sent:
  assumes "MoPayload_good e" and "m_id o' = m_id e"
    and "wire_at mem p (be16 (of_nat (length (MoPayload_body e))) @ MoPayload_body e)"
    and "length (MoPayload_body e) + 2 \<le> unat sz"
  shows "IEMoPayload_unpack h o' mem p sz
    = Some (MoPayload_sent e, of_nat (length (MoPayload_body e)) + 2)"
proof -
  let ?n = "length (m_payload_mo (m_content e))"
  have n: "unat (of_nat ?n :: u16) = ?n"
    using assms(1) by (simp add: MoPayload_defs unat_of_nat)
  have "m_payload_mo (m_content e) \<noteq> []"
    using assms(1) by (auto simp: MoPayload_defs)
  note at = rd_within [OF assms(3)]
  show ?thesis
    using assms(1,2,4) n \<open>m_payload_mo (m_content e) \<noteq> []\<close>
    by (simp add: IEMoPayload_unpack_def MoPayload_defs Let_def at wire_simps
        del: add_2_eq_Suc add_2_eq_Suc')
qed

interpretation MoPayload: ie_codec m_id IEMoPayload_unpack m_length IEMoPayload_packInto
  MoPayload_good MoPayload_body MoPayload_sent MoPayload_good "\<lambda>o' e. m_id o' = m_id e"
proof unfold_locales
  fix h e mem p sz and e' :: "IEMoPayloadDto ie" and n
  show "p + unat sz + 3 \<le> length mem \<Longrightarrow> IEMoPayload_unpack h e mem p sz \<noteq> None"
    using MoPayload_unpack_safe [of p sz mem h e] by linarith
  assume "IEMoPayload_unpack h e mem p sz = Some (e', n)"
  from MoPayload_unpack_bound [OF this]
  show "unat n \<le> unat sz + 3" "n \<noteq> 0 \<Longrightarrow> 3 \<le> unat n" "m_id e' = m_id e"
    by auto
next
  fix h raw and e :: "IEMoPayloadDto ie"
  assume g: "MoPayload_good e"
  then have n: "unat (of_nat (length (m_payload_mo (m_content e))) :: u16)
      = length (m_payload_mo (m_content e))"
    by (simp add: MoPayload_defs unat_of_nat)
  show "IEMoPayload_packInto h e raw = (MoPayload_sent e, raw @ framed (m_id e) (MoPayload_body e))"
    using g n
    by (simp add: IEMoPayload_packInto_def InformationElement_packInto_def framed_def
        MoPayload_defs Let_def wire_simps)
  show "1 \<le> length (MoPayload_body e) \<and> length (MoPayload_body e) \<le> 1960"
    using g by (simp add: MoPayload_defs)
  show "MoPayload_good (MoPayload_sent e) \<and> MoPayload_body (MoPayload_sent e) = MoPayload_body e \<and>
      MoPayload_sent (MoPayload_sent e) = MoPayload_sent e \<and> m_id (MoPayload_sent e) = m_id e \<and>
      m_length (MoPayload_sent e) = of_nat (length (MoPayload_body e))"
    using g by (simp add: MoPayload_defs)
  show "MoPayload_good (MoPayload_sent e)"
    using g by (simp add: MoPayload_defs)
qed (auto intro: MoPayload_unpack_sent)

section \<open>IEMoConfirmation\<close>

record IEMoConfirmationDto =
  m_status :: u8

definition IEMoConfirmation_ElementLength :: nat where
  "IEMoConfirmation_ElementLength = 1"

definition IEMoConfirmation_new :: "IEMoConfirmationDto ie" where
  "IEMoConfirmation_new = new_ie eMoConfirmation \<lparr>m_status = 0\<rparr>"

definition IEMoConfirmation_unpack ::
  "host \<Rightarrow> IEMoConfirmationDto ie \<Rightarrow> mem \<Rightarrow> nat \<Rightarrow> u16 \<Rightarrow> (IEMoConfirmationDto ie \<times> u16) option" where
  "IEMoConfirmation_unpack h e mem p sz =
     (if unat sz < IEMoConfirmation_ElementLength + 2 then Some (e, 0)
      else do {
        bs \<leftarrow> rd mem p 2;
        let e = e\<lparr>m_length := ntohs h (load h bs)\<rparr>;
        if unat (m_length e) \<noteq> IEMoConfirmation_ElementLength then Some (e, 0)
        else do {
          let offset = (2 :: u16);
          bs \<leftarrow> rd mem (p + unat offset) 1;
          let e = e\<lparr>m_content := (m_content e)\<lparr>m_status := hd bs\<rparr>\<rparr>;
          let offset = offset + 1;
          Some (e, offset)
        }
      })"

definition IEMoConfirmation_packInto ::
  "host \<Rightarrow> IEMoConfirmationDto ie \<Rightarrow> byte list \<Rightarrow> IEMoConfirmationDto ie \<times> byte list" where
  "IEMoConfirmation_packInto h e raw =
     (let e = e\<lparr>m_length := of_nat IEMoConfirmation_ElementLength\<rparr>;
          raw = InformationElement_packInto h e raw
      in (e, raw @ [m_status (m_content e)]))"

definition MoConfirmation_body :: "IEMoConfirmationDto ie \<Rightarrow> byte list" where
  "MoConfirmation_body e = [m_status (m_content e)]"

definition MoConfirmation_sent :: "IEMoConfirmationDto ie \<Rightarrow> IEMoConfirmationDto ie" where
  "MoConfirmation_sent e = e\<lparr>m_length := 1\<rparr>"

lemmas MoConfirmation_defs = MoConfirmation_body_def MoConfirmation_sent_def
  IEMoConfirmation_ElementLength_def

lemma MoConfirmation_unpack_bound:
  "IEMoConfirmation_unpack h e mem p sz = Some (e', n) \<Longrightarrow>
     m_id e' = m_id e \<and> (n = 0 \<or> n = 3 \<and> 3 \<le> unat sz)"
  by (auto simp: IEMoConfirmation_unpack_def MoConfirmation_defs bind_eq_Some_conv Let_def
      split: if_splits)

lemma MoConfirmation_unpack_safe:
  "p + unat sz \<le> length mem \<Longrightarrow> IEMoConfirmation_unpack h e mem p sz \<noteq> None"
  by (auto simp: IEMoConfirmation_unpack_def MoConfirmation_defs rd_def Let_def not_less
      split: if_splits)

lemma MoConfirmation_unpack_sent:
  assumes "m_id o' = m_id e"
    and "wire_at mem p (be16 (of_nat (length (MoConfirmation_body e))) @ MoConfirmation_body e)"
    and "length (MoConfirmation_body e) + 2 \<le> unat sz"
  shows "IEMoConfirmation_unpack h o' mem p sz
    = Some (MoConfirmation_sent e, of_nat (length (MoConfirmation_body e)) + 2)"
proof -
  note at = rd_within [OF assms(2)]
  show ?thesis
    using assms(1,3)
    by (simp add: IEMoConfirmation_unpack_def MoConfirmation_defs Let_def at wire_simps
        del: add_2_eq_Suc add_2_eq_Suc')
qed

interpretation MoConfirmation: ie_codec m_id IEMoConfirmation_unpack m_length IEMoConfirmation_packInto
  "\<lambda>_. True" MoConfirmation_body MoConfirmation_sent "\<lambda>_. True" "\<lambda>o' e. m_id o' = m_id e"
proof unfold_locales
  fix h e mem p sz and e' :: "IEMoConfirmationDto ie" and n
  show "p + unat sz + 3 \<le> length mem \<Longrightarrow> IEMoConfirmation_unpack h e mem p sz \<noteq> None"
    using MoConfirmation_unpack_safe [of p sz mem h e] by linarith
  assume "IEMoConfirmation_unpack h e mem p sz = Some (e', n)"
  from MoConfirmation_unpack_bound [OF this]
  show "unat n \<le> unat sz + 3" "n \<noteq> 0 \<Longrightarrow> 3 \<le> unat n" "m_id e' = m_id e"
    by auto
next
  fix h raw and e :: "IEMoConfirmationDto ie"
  show "IEMoConfirmation_packInto h e raw
      = (MoConfirmation_sent e, raw @ framed (m_id e) (MoConfirmation_body e))"
    by (simp add: IEMoConfirmation_packInto_def InformationElement_packInto_def framed_def
        MoConfirmation_defs Let_def wire_simps)
qed (simp_all add: MoConfirmation_unpack_sent, simp_all add: MoConfirmation_defs)

section \<open>IEMoLocationInfo\<close>

text \<open>
  \<open>m_flags\<close> is the storage of the bit-field structure, four bytes in the byte order of the machine.
  The eight bits of the members are its low byte on a little-endian machine and its high byte on a
  big-endian one; the constructor clears them and leaves the padding as it was.
\<close>

record IEMoLocationInfoDto =
  m_flags :: u32
  m_latitude :: u8
  m_latitudeMinutes :: u16
  m_longitude :: u8
  m_longitudeMinutes :: u16
  m_cepRadius :: u32

definition IEMoLocationInfoDto_init :: "host \<Rightarrow> IEMoLocationInfoDto" where
  "IEMoLocationInfoDto_init h =
     \<lparr>m_flags = stale h AND NOT (if big_endian h then 0xFF000000 else 0xFF),
      m_latitude = 0, m_latitudeMinutes = 0, m_longitude = 0, m_longitudeMinutes = 0,
      m_cepRadius = 0\<rparr>"

definition IEMoLocationInfo_ElementLength :: nat where
  "IEMoLocationInfo_ElementLength = 11"

definition IEMoLocationInfo_new :: "host \<Rightarrow> IEMoLocationInfoDto ie" where
  "IEMoLocationInfo_new h = new_ie eMoLocationInfo (IEMoLocationInfoDto_init h)"

definition IEMoLocationInfo_unpack ::
  "host \<Rightarrow> IEMoLocationInfoDto ie \<Rightarrow> mem \<Rightarrow> nat \<Rightarrow> u16 \<Rightarrow> (IEMoLocationInfoDto ie \<times> u16) option" where
  "IEMoLocationInfo_unpack h e mem p sz =
     (if unat sz < IEMoLocationInfo_ElementLength + 2 then Some (e, 0)
      else do {
        bs \<leftarrow> rd mem p 2;
        let e = e\<lparr>m_length := ntohs h (load h bs)\<rparr>;
        if unat (m_length e) \<noteq> IEMoLocationInfo_ElementLength then Some (e, 0)
        else do {
          let offset = (2 :: u16);
          bs \<leftarrow> rd mem (p + unat offset) 4;
          let c = (m_content e)\<lparr>m_flags := load h bs\<rparr>;
          let offset = offset + 4;
          bs \<leftarrow> rd mem (p + unat offset) 1;
          let c = c\<lparr>m_latitude := hd bs\<rparr>;
          let offset = offset + 1;
          bs \<leftarrow> rd mem (p + unat offset) 2;
          let c = c\<lparr>m_latitudeMinutes := ntohs h (load h bs)\<rparr>;
          let offset = offset + 2;
          bs \<leftarrow> rd mem (p + unat offset) 1;
          let c = c\<lparr>m_longitude := hd bs\<rparr>;
          let offset = offset + 1;
          bs \<leftarrow> rd mem (p + unat offset) 2;
          let c = c\<lparr>m_longitudeMinutes := ntohs h (load h bs)\<rparr>;
          let offset = offset + 2;
          bs \<leftarrow> rd mem (p + unat offset) 4;
          let c = c\<lparr>m_cepRadius := ntohl h (load h bs)\<rparr>;
          let offset = offset + 4;
          Some (e\<lparr>m_content := c\<rparr>, offset)
        }
      })"

definition IEMoLocationInfo_packInto ::
  "host \<Rightarrow> IEMoLocationInfoDto ie \<Rightarrow> byte list \<Rightarrow> IEMoLocationInfoDto ie \<times> byte list" where
  "IEMoLocationInfo_packInto h e raw =
     (let e = e\<lparr>m_length := of_nat IEMoLocationInfo_ElementLength\<rparr>;
          c = m_content e;
          raw = InformationElement_packInto h e raw;
          raw = raw @ store h 4 (m_flags c);
          raw = raw @ [m_latitude c];
          raw = raw @ store h 2 (htons h (m_latitudeMinutes c));
          raw = raw @ [m_longitude c];
          raw = raw @ store h 2 (htons h (m_longitudeMinutes c));
          buf32 = (ucast (htons h (ucast (m_cepRadius c))) :: u32);
          raw = raw @ store h 4 buf32
      in (e, raw))"

lemma MoLocation_unpack_bound:
  "IEMoLocationInfo_unpack h e mem p sz = Some (e', n) \<Longrightarrow>
     m_id e' = m_id e \<and> (n = 0 \<or> n = 16 \<and> 13 \<le> unat sz \<and> p + 16 \<le> length mem)"
  by (auto simp: IEMoLocationInfo_unpack_def IEMoLocationInfo_ElementLength_def bind_eq_Some_conv
      Let_def rd_def split: if_splits)

lemma MoLocation_unpack_safe:
  "p + unat sz + 3 \<le> length mem \<Longrightarrow> IEMoLocationInfo_unpack h e mem p sz \<noteq> None"
  by (auto simp: IEMoLocationInfo_unpack_def IEMoLocationInfo_ElementLength_def rd_def Let_def
      not_less split: if_splits)

text \<open>What the reader does with the length of 11 that the protocol prescribes.\<close>

lemma MoLocation_unpack_11:
  assumes "wire_at mem p (be16 11)" and "13 \<le> unat sz"
  shows "if p + 16 \<le> length mem
    then \<exists>e'. IEMoLocationInfo_unpack h e mem p sz = Some (e', 16)
    else IEMoLocationInfo_unpack h e mem p sz = None"
proof -
  have "take 2 (drop p mem) = be16 11" and "p + 2 \<le> length mem"
    using assms(1) by (simp_all add: wire_at_def)
  with assms(2) show ?thesis
    by (auto simp: IEMoLocationInfo_unpack_def IEMoLocationInfo_ElementLength_def Let_def rd_def
        ntohs_be16)
qed

interpretation MoLocation: ie_reader m_id IEMoLocationInfo_unpack
proof unfold_locales
  fix h e mem p sz and e' :: "IEMoLocationInfoDto ie" and n
  show "p + unat sz + 3 \<le> length mem \<Longrightarrow> IEMoLocationInfo_unpack h e mem p sz \<noteq> None"
    by (rule MoLocation_unpack_safe)
  assume "IEMoLocationInfo_unpack h e mem p sz = Some (e', n)"
  from MoLocation_unpack_bound [OF this]
  show "unat n \<le> unat sz + 3" "n \<noteq> 0 \<Longrightarrow> 3 \<le> unat n" "m_id e' = m_id e"
    by auto
qed

end
