(* ===== verification/IEMt.thy ===== *)
theory IEMt
  imports InformationElement
begin

text \<open>
  The elements of a mobile terminated message: the header (IEMtHeader, with its disposition flags),
  the payload (IEMtPayload, 1 to 1890 bytes), the priority (IEMtPriority) and the confirmation that
  the gateway answers with (IEMtConfirmationMsg).
\<close>

section \<open>IEMtHeader\<close>

text \<open>
  \<open>MtMessageFlags\<close> is a structure of bit-fields in one 16-bit unit. Its members start at the least
  significant bit on a little-endian machine and at the most significant bit on a big-endian one.
  \<open>packInto\<close> sends \<open>get()\<close>, a number built from the members; \<open>unpack\<close> copies the two bytes of the
  wire over the structure.
\<close>

record MtMessageFlags =
  flushMtQueue :: bool
  sendRingAlert :: bool
  unused :: bool
  updateSsdLocation :: bool
  highPriority :: bool
  assignMtmsh :: bool
  reserved :: "10 word"

definition MtMessageFlags_init :: MtMessageFlags where
  "MtMessageFlags_init = \<lparr>flushMtQueue = False, sendRingAlert = False, unused = False,
     updateSsdLocation = False, highPriority = False, assignMtmsh = False, reserved = 0\<rparr>"

definition MtMessageFlags_get :: "MtMessageFlags \<Rightarrow> u16" where
  "MtMessageFlags_get f = of_bool (flushMtQueue f) + push_bit 1 (of_bool (sendRingAlert f)) +
     push_bit 3 (of_bool (updateSsdLocation f)) + push_bit 4 (of_bool (highPriority f)) +
     push_bit 5 (of_bool (assignMtmsh f))"

definition MtMessageFlags_of_storage :: "host \<Rightarrow> u16 \<Rightarrow> MtMessageFlags" where
  "MtMessageFlags_of_storage h w =
     (if big_endian h
      then \<lparr>flushMtQueue = bit w 15, sendRingAlert = bit w 14, unused = bit w 13,
            updateSsdLocation = bit w 12, highPriority = bit w 11, assignMtmsh = bit w 10,
            reserved = ucast w\<rparr>
      else \<lparr>flushMtQueue = bit w 0, sendRingAlert = bit w 1, unused = bit w 2,
            updateSsdLocation = bit w 3, highPriority = bit w 4, assignMtmsh = bit w 5,
            reserved = ucast (drop_bit 6 w)\<rparr>)"

record IEMtHeaderDto =
  m_uniqueClientMsgId :: u32
  m_imei_mt :: "byte list"
  m_dispositionFlags :: MtMessageFlags

definition IEMtHeader_ElementLength :: nat where
  "IEMtHeader_ElementLength = 21"

definition IEMtHeader_new :: "IEMtHeaderDto ie" where
  "IEMtHeader_new = new_ie eMtHeader
     \<lparr>m_uniqueClientMsgId = 0, m_imei_mt = imei_zero, m_dispositionFlags = MtMessageFlags_init\<rparr>"

definition IEMtHeader_unpack ::
  "host \<Rightarrow> IEMtHeaderDto ie \<Rightarrow> mem \<Rightarrow> nat \<Rightarrow> u16 \<Rightarrow> (IEMtHeaderDto ie \<times> u16) option" where
  "IEMtHeader_unpack h e mem p sz =
     (if unat sz < IEMtHeader_ElementLength + 2 then Some (e, 0)
      else do {
        bs \<leftarrow> rd mem p 2;
        let e = e\<lparr>m_length := ntohs h (load h bs)\<rparr>;
        if unat (m_length e) \<noteq> IEMtHeader_ElementLength then Some (e, 0)
        else do {
          let offset = (2 :: u16);
          bs \<leftarrow> rd mem (p + unat offset) 4;
          let c = (m_content e)\<lparr>m_uniqueClientMsgId := ntohl h (load h bs)\<rparr>;
          let offset = offset + 4;
          bs \<leftarrow> rd mem (p + unat offset) 15;
          let c = c\<lparr>m_imei_mt := bs @ [0]\<rparr>;
          let offset = offset + 15;
          bs \<leftarrow> rd mem (p + unat offset) 2;
          let c = c\<lparr>m_dispositionFlags := MtMessageFlags_of_storage h (load h bs)\<rparr>;
          let offset = offset + 2;
          Some (e\<lparr>m_content := c\<rparr>, offset)
        }
      })"

definition IEMtHeader_packInto ::
  "host \<Rightarrow> IEMtHeaderDto ie \<Rightarrow> byte list \<Rightarrow> IEMtHeaderDto ie \<times> byte list" where
  "IEMtHeader_packInto h e raw =
     (let e = e\<lparr>m_length := of_nat IEMtHeader_ElementLength\<rparr>;
          c = m_content e;
          raw = InformationElement_packInto h e raw;
          raw = raw @ store h 4 (htonl h (m_uniqueClientMsgId c));
          raw = raw @ take 15 (m_imei_mt c);
          raw = raw @ store h 2 (htons h (MtMessageFlags_get (m_dispositionFlags c)))
      in (e, raw))"

definition MtHeader_body :: "IEMtHeaderDto ie \<Rightarrow> byte list" where
  "MtHeader_body e = (let c = m_content e in
     be32 (m_uniqueClientMsgId c) @ take 15 (m_imei_mt c) @
     be16 (MtMessageFlags_get (m_dispositionFlags c)))"

definition MtHeader_sent :: "IEMtHeaderDto ie \<Rightarrow> IEMtHeaderDto ie" where
  "MtHeader_sent e = e\<lparr>m_length := 21\<rparr>"

text \<open>The headers that are sent correctly; those that also read back have no flag set.\<close>

definition MtHeader_packs :: "IEMtHeaderDto ie \<Rightarrow> bool" where
  "MtHeader_packs e \<longleftrightarrow> imei_good (m_imei_mt (m_content e))"

definition MtHeader_good :: "IEMtHeaderDto ie \<Rightarrow> bool" where
  "MtHeader_good e \<longleftrightarrow> MtHeader_packs e \<and> m_dispositionFlags (m_content e) = MtMessageFlags_init"

lemmas MtHeader_defs = MtHeader_good_def MtHeader_packs_def MtHeader_body_def MtHeader_sent_def
  IEMtHeader_ElementLength_def

lemma MtHeader_length_body: "MtHeader_packs e \<Longrightarrow> length (MtHeader_body e) = 21"
  by (auto simp: MtHeader_defs imei_good_split Let_def)

lemma MtHeader_pack:
  "MtHeader_packs e \<Longrightarrow>
     IEMtHeader_packInto h e raw = (MtHeader_sent e, raw @ framed (m_id e) (MtHeader_body e))"
  by (simp add: IEMtHeader_packInto_def InformationElement_packInto_def framed_def
      MtHeader_length_body wire_simps) (simp add: MtHeader_defs Let_def)

lemma MtHeader_unpack_bound:
  "IEMtHeader_unpack h e mem p sz = Some (e', n) \<Longrightarrow>
     m_id e' = m_id e \<and> (n = 0 \<or> n = 23 \<and> 23 \<le> unat sz)"
  by (auto simp: IEMtHeader_unpack_def MtHeader_defs bind_eq_Some_conv Let_def split: if_splits)

lemma MtHeader_unpack_safe: "p + unat sz \<le> length mem \<Longrightarrow> IEMtHeader_unpack h e mem p sz \<noteq> None"
  by (auto simp: IEMtHeader_unpack_def MtHeader_defs rd_def Let_def not_less split: if_splits)

text \<open>What \<open>unpack\<close> makes of the bytes \<open>packInto\<close> sent: the flags are read from the raw storage.\<close>

lemma MtHeader_unpack_wire:
  assumes "MtHeader_packs e" and "m_id o' = m_id e"
    and "wire_at mem p (be16 (of_nat (length (MtHeader_body e))) @ MtHeader_body e)"
    and "length (MtHeader_body e) + 2 \<le> unat sz"
  shows "IEMtHeader_unpack h o' mem p sz =
    Some (e\<lparr>m_length := 21, m_content := (m_content e)\<lparr>m_dispositionFlags :=
      MtMessageFlags_of_storage h (load h (be16 (MtMessageFlags_get (m_dispositionFlags (m_content e)))))\<rparr>\<rparr>,
      23)"
proof -
  obtain ds where ds: "length ds = 15" "m_imei_mt (m_content e) = ds @ [0]"
    using assms(1) by (auto simp: MtHeader_packs_def imei_good_split)
  have len: "length (MtHeader_body e) = 21"
    using assms(1) by (rule MtHeader_length_body)
  note at = rd_within [OF assms(3) [unfolded len]]
  show ?thesis
    using assms(2,4) ds unfolding len
    by (simp add: IEMtHeader_unpack_def MtHeader_defs Let_def at wire_simps
        del: add_2_eq_Suc add_2_eq_Suc')
qed

lemma get_init: "MtMessageFlags_get MtMessageFlags_init = 0"
  by (simp add: MtMessageFlags_get_def MtMessageFlags_init_def)

lemma of_storage_zero: "MtMessageFlags_of_storage h (load h (be16 0)) = MtMessageFlags_init"
  by (simp add: MtMessageFlags_of_storage_def MtMessageFlags_init_def load_def be16_def)

lemma MtMessageFlags_get_small: "unat (MtMessageFlags_get f) < 64"
  by (cases "flushMtQueue f"; cases "sendRingAlert f"; cases "updateSsdLocation f";
      cases "highPriority f"; cases "assignMtmsh f") (simp_all add: MtMessageFlags_get_def)

interpretation MtHeader: ie_codec m_id IEMtHeader_unpack m_length IEMtHeader_packInto
  MtHeader_packs MtHeader_body MtHeader_sent MtHeader_good "\<lambda>o' e. m_id o' = m_id e"
proof unfold_locales
  fix h e mem p sz and e' :: "IEMtHeaderDto ie" and n
  show "p + unat sz + 3 \<le> length mem \<Longrightarrow> IEMtHeader_unpack h e mem p sz \<noteq> None"
    using MtHeader_unpack_safe [of p sz mem h e] by linarith
  assume "IEMtHeader_unpack h e mem p sz = Some (e', n)"
  from MtHeader_unpack_bound [OF this]
  show "unat n \<le> unat sz + 3" "n \<noteq> 0 \<Longrightarrow> 3 \<le> unat n" "m_id e' = m_id e"
    by auto
next
  fix h raw and e :: "IEMtHeaderDto ie"
  assume pk: "MtHeader_packs e"
  show "IEMtHeader_packInto h e raw = (MtHeader_sent e, raw @ framed (m_id e) (MtHeader_body e))"
    by (rule MtHeader_pack [OF pk])
  show "1 \<le> length (MtHeader_body e) \<and> length (MtHeader_body e) \<le> 1960"
    by (simp add: MtHeader_length_body [OF pk])
  show "MtHeader_packs (MtHeader_sent e) \<and> MtHeader_body (MtHeader_sent e) = MtHeader_body e \<and>
      MtHeader_sent (MtHeader_sent e) = MtHeader_sent e \<and> m_id (MtHeader_sent e) = m_id e \<and>
      m_length (MtHeader_sent e) = of_nat (length (MtHeader_body e))"
    using pk MtHeader_length_body [OF pk] by (simp add: MtHeader_defs)
next
  fix e o' :: "IEMtHeaderDto ie" and h mem p and sz :: u16
  assume g: "MtHeader_good e" and "m_id o' = m_id e"
    and "wire_at mem p (be16 (of_nat (length (MtHeader_body e))) @ MtHeader_body e)"
    and "length (MtHeader_body e) + 2 \<le> unat sz"
  with MtHeader_unpack_wire [of e o' mem p sz h] g
  show "IEMtHeader_unpack h o' mem p sz
      = Some (MtHeader_sent e, of_nat (length (MtHeader_body e)) + 2)"
    by (simp add: MtHeader_good_def MtHeader_length_body get_init of_storage_zero MtHeader_sent_def)
qed (simp_all add: MtHeader_defs)

section \<open>IEMtPayload\<close>

record IEMtPayloadDto =
  m_payload_mt :: "byte list"

definition IEMtPayload_MaxPayloadLength :: nat where
  "IEMtPayload_MaxPayloadLength = 1890"

definition IEMtPayload_new :: "IEMtPayloadDto ie" where
  "IEMtPayload_new = new_ie eMtPayload \<lparr>m_payload_mt = []\<rparr>"

definition IEMtPayload_unpack ::
  "host \<Rightarrow> IEMtPayloadDto ie \<Rightarrow> mem \<Rightarrow> nat \<Rightarrow> u16 \<Rightarrow> (IEMtPayloadDto ie \<times> u16) option" where
  "IEMtPayload_unpack h e mem p sz =
     (if unat sz < 2 then Some (e, 0)
      else do {
        bs \<leftarrow> rd mem p 2;
        let e = e\<lparr>m_length := ntohs h (load h bs)\<rparr>;
        if unat (m_length e) < 1 \<or> unat (m_length e) > IEMtPayload_MaxPayloadLength then Some (e, 0)
        else if unat sz < unat (m_length e) then Some (e, 0)
        else do {
          bs \<leftarrow> rd mem (p + 2) (unat (m_length e));
          let e = e\<lparr>m_content := (m_content e)\<lparr>m_payload_mt := bs\<rparr>\<rparr>;
          Some (e, 2 + m_length e)
        }
      })"

definition IEMtPayload_packInto ::
  "host \<Rightarrow> IEMtPayloadDto ie \<Rightarrow> byte list \<Rightarrow> IEMtPayloadDto ie \<times> byte list" where
  "IEMtPayload_packInto h e raw =
     (let e = e\<lparr>m_length := of_nat (length (m_payload_mt (m_content e)))\<rparr>;
          e = (if unat (m_length e) > IEMtPayload_MaxPayloadLength
               then e\<lparr>m_length := of_nat IEMtPayload_MaxPayloadLength,
                      m_content := (m_content e)\<lparr>m_payload_mt :=
                        take IEMtPayload_MaxPayloadLength (m_payload_mt (m_content e))\<rparr>\<rparr>
               else e);
          raw = InformationElement_packInto h e raw
      in (e, raw @ m_payload_mt (m_content e)))"

definition MtPayload_good :: "IEMtPayloadDto ie \<Rightarrow> bool" where
  "MtPayload_good e \<longleftrightarrow> 1 \<le> length (m_payload_mt (m_content e)) \<and>
     length (m_payload_mt (m_content e)) \<le> IEMtPayload_MaxPayloadLength"

definition MtPayload_body :: "IEMtPayloadDto ie \<Rightarrow> byte list" where
  "MtPayload_body e = m_payload_mt (m_content e)"

definition MtPayload_sent :: "IEMtPayloadDto ie \<Rightarrow> IEMtPayloadDto ie" where
  "MtPayload_sent e = e\<lparr>m_length := of_nat (length (m_payload_mt (m_content e)))\<rparr>"

lemmas MtPayload_defs = MtPayload_good_def MtPayload_body_def MtPayload_sent_def
  IEMtPayload_MaxPayloadLength_def

lemma MtPayload_unpack_bound:
  "IEMtPayload_unpack h e mem p sz = Some (e', n) \<Longrightarrow>
     m_id e' = m_id e \<and> (n = 0 \<or> 3 \<le> unat n \<and> unat n \<le> unat sz + 2)"
proof -
  have "3 \<le> unat (2 + l) \<and> unat (2 + l) = 2 + unat l" if "1 \<le> unat l" "unat l \<le> 1890" for l :: u16
    using that by (simp add: unat_word_ariths)
  then show "IEMtPayload_unpack h e mem p sz = Some (e', n) \<Longrightarrow> ?thesis"
    by (auto simp: IEMtPayload_unpack_def MtPayload_defs bind_eq_Some_conv Let_def not_less
        split: if_splits)
qed

lemma MtPayload_unpack_safe:
  "p + unat sz + 2 \<le> length mem \<Longrightarrow> IEMtPayload_unpack h e mem p sz \<noteq> None"
  by (auto simp: IEMtPayload_unpack_def MtPayload_defs rd_def Let_def not_less split: if_splits)

lemma MtPayload_unpack_sent:
  assumes "MtPayload_good e" and "m_id o' = m_id e"
    and "wire_at mem p (be16 (of_nat (length (MtPayload_body e))) @ MtPayload_body e)"
    and "length (MtPayload_body e) + 2 \<le> unat sz"
  shows "IEMtPayload_unpack h o' mem p sz
    = Some (MtPayload_sent e, of_nat (length (MtPayload_body e)) + 2)"
proof -
  let ?n = "length (m_payload_mt (m_content e))"
  have n: "unat (of_nat ?n :: u16) = ?n"
    using assms(1) by (simp add: MtPayload_defs unat_of_nat)
  have "m_payload_mt (m_content e) \<noteq> []"
    using assms(1) by (auto simp: MtPayload_defs)
  note at = rd_within [OF assms(3)]
  show ?thesis
    using assms(1,2,4) n \<open>m_payload_mt (m_content e) \<noteq> []\<close>
    by (simp add: IEMtPayload_unpack_def MtPayload_defs Let_def at wire_simps
        del: add_2_eq_Suc add_2_eq_Suc')
qed

interpretation MtPayload: ie_codec m_id IEMtPayload_unpack m_length IEMtPayload_packInto
  MtPayload_good MtPayload_body MtPayload_sent MtPayload_good "\<lambda>o' e. m_id o' = m_id e"
proof unfold_locales
  fix h e mem p sz and e' :: "IEMtPayloadDto ie" and n
  show "p + unat sz + 3 \<le> length mem \<Longrightarrow> IEMtPayload_unpack h e mem p sz \<noteq> None"
    using MtPayload_unpack_safe [of p sz mem h e] by linarith
  assume "IEMtPayload_unpack h e mem p sz = Some (e', n)"
  from MtPayload_unpack_bound [OF this]
  show "unat n \<le> unat sz + 3" "n \<noteq> 0 \<Longrightarrow> 3 \<le> unat n" "m_id e' = m_id e"
    by auto
next
  fix h raw and e :: "IEMtPayloadDto ie"
  assume g: "MtPayload_good e"
  then have n: "unat (of_nat (length (m_payload_mt (m_content e))) :: u16)
      = length (m_payload_mt (m_content e))"
    by (simp add: MtPayload_defs unat_of_nat)
  show "IEMtPayload_packInto h e raw = (MtPayload_sent e, raw @ framed (m_id e) (MtPayload_body e))"
    using g n
    by (simp add: IEMtPayload_packInto_def InformationElement_packInto_def framed_def
        MtPayload_defs Let_def wire_simps)
  show "1 \<le> length (MtPayload_body e) \<and> length (MtPayload_body e) \<le> 1960"
    using g by (simp add: MtPayload_defs)
  show "MtPayload_good (MtPayload_sent e) \<and> MtPayload_body (MtPayload_sent e) = MtPayload_body e \<and>
      MtPayload_sent (MtPayload_sent e) = MtPayload_sent e \<and> m_id (MtPayload_sent e) = m_id e \<and>
      m_length (MtPayload_sent e) = of_nat (length (MtPayload_body e))"
    using g by (simp add: MtPayload_defs)
  show "MtPayload_good (MtPayload_sent e)"
    using g by (simp add: MtPayload_defs)
qed (auto intro: MtPayload_unpack_sent)

section \<open>IEMtPriority\<close>

record IEMtPriorityDto =
  m_priority :: u16

definition IEMtPriority_ElementLength :: nat where
  "IEMtPriority_ElementLength = 2"

definition MaxPriority :: u16 where
  "MaxPriority = 1"

definition MinPriority :: u16 where
  "MinPriority = 5"

definition IEMtPriority_new :: "IEMtPriorityDto ie" where
  "IEMtPriority_new = new_ie eMtMsgPriority \<lparr>m_priority = 5\<rparr>"

definition IEMtPriority_unpack ::
  "host \<Rightarrow> IEMtPriorityDto ie \<Rightarrow> mem \<Rightarrow> nat \<Rightarrow> u16 \<Rightarrow> (IEMtPriorityDto ie \<times> u16) option" where
  "IEMtPriority_unpack h e mem p sz =
     (if unat sz < IEMtPriority_ElementLength + 2 then Some (e, 0)
      else do {
        bs \<leftarrow> rd mem p 2;
        let e = e\<lparr>m_length := ntohs h (load h bs)\<rparr>;
        if unat (m_length e) \<noteq> IEMtPriority_ElementLength then Some (e, 0)
        else do {
          bs \<leftarrow> rd mem (p + 2) 2;
          let e = e\<lparr>m_content := (m_content e)\<lparr>m_priority := ntohs h (load h bs)\<rparr>\<rparr>;
          Some (e, 2 + m_length e)
        }
      })"

definition IEMtPriority_packInto ::
  "host \<Rightarrow> IEMtPriorityDto ie \<Rightarrow> byte list \<Rightarrow> IEMtPriorityDto ie \<times> byte list" where
  "IEMtPriority_packInto h e raw =
     (let e = (if m_priority (m_content e) > MinPriority \<or> m_priority (m_content e) < MaxPriority
               then e\<lparr>m_content := (m_content e)\<lparr>m_priority := MinPriority\<rparr>\<rparr> else e);
          e = e\<lparr>m_length := of_nat IEMtPriority_ElementLength\<rparr>;
          raw = InformationElement_packInto h e raw;
          raw = raw @ store h 2 (htons h (m_priority (m_content e)))
      in (e, raw))"

definition clamp_priority :: "u16 \<Rightarrow> u16" where
  "clamp_priority p = (if 1 \<le> p \<and> p \<le> 5 then p else 5)"

definition MtPriority_body :: "IEMtPriorityDto ie \<Rightarrow> byte list" where
  "MtPriority_body e = be16 (clamp_priority (m_priority (m_content e)))"

definition MtPriority_sent :: "IEMtPriorityDto ie \<Rightarrow> IEMtPriorityDto ie" where
  "MtPriority_sent e = e\<lparr>m_length := 2,
     m_content := (m_content e)\<lparr>m_priority := clamp_priority (m_priority (m_content e))\<rparr>\<rparr>"

lemmas MtPriority_defs = MtPriority_body_def MtPriority_sent_def IEMtPriority_ElementLength_def
  MinPriority_def MaxPriority_def

lemma one_le_u16: "1 \<le> (p :: u16) \<longleftrightarrow> p \<noteq> 0"
  by (simp add: word_le_nat_alt unat_gt_0 Suc_le_eq)

lemma clamp_priority_idem [simp]: "clamp_priority (clamp_priority p) = clamp_priority p"
  by (simp add: clamp_priority_def)

lemma unat_2D: "unat (l :: u16) = 2 \<Longrightarrow> l = 2"
  by unat_arith

lemma MtPriority_unpack_bound:
  "IEMtPriority_unpack h e mem p sz = Some (e', n) \<Longrightarrow>
     m_id e' = m_id e \<and> (n = 0 \<or> n = 4 \<and> 4 \<le> unat sz)"
  by (auto simp: IEMtPriority_unpack_def MtPriority_defs bind_eq_Some_conv Let_def
      split: if_splits dest!: unat_2D)

lemma MtPriority_unpack_safe:
  "p + unat sz \<le> length mem \<Longrightarrow> IEMtPriority_unpack h e mem p sz \<noteq> None"
  by (auto simp: IEMtPriority_unpack_def MtPriority_defs rd_def Let_def not_less split: if_splits)

lemma MtPriority_unpack_sent:
  assumes "m_id o' = m_id e"
    and "wire_at mem p (be16 (of_nat (length (MtPriority_body e))) @ MtPriority_body e)"
    and "length (MtPriority_body e) + 2 \<le> unat sz"
  shows "IEMtPriority_unpack h o' mem p sz
    = Some (MtPriority_sent e, of_nat (length (MtPriority_body e)) + 2)"
proof -
  note at = rd_within [OF assms(2)]
  show ?thesis
    using assms(1,3)
    by (simp add: IEMtPriority_unpack_def MtPriority_defs Let_def at wire_simps
        del: add_2_eq_Suc add_2_eq_Suc')
qed

interpretation MtPriority: ie_codec m_id IEMtPriority_unpack m_length IEMtPriority_packInto
  "\<lambda>_. True" MtPriority_body MtPriority_sent "\<lambda>_. True" "\<lambda>o' e. m_id o' = m_id e"
proof unfold_locales
  fix h e mem p sz and e' :: "IEMtPriorityDto ie" and n
  show "p + unat sz + 3 \<le> length mem \<Longrightarrow> IEMtPriority_unpack h e mem p sz \<noteq> None"
    using MtPriority_unpack_safe [of p sz mem h e] by linarith
  assume "IEMtPriority_unpack h e mem p sz = Some (e', n)"
  from MtPriority_unpack_bound [OF this]
  show "unat n \<le> unat sz + 3" "n \<noteq> 0 \<Longrightarrow> 3 \<le> unat n" "m_id e' = m_id e"
    by auto
next
  fix h raw and e :: "IEMtPriorityDto ie"
  show "IEMtPriority_packInto h e raw
      = (MtPriority_sent e, raw @ framed (m_id e) (MtPriority_body e))"
    by (simp add: IEMtPriority_packInto_def InformationElement_packInto_def framed_def
        MtPriority_defs clamp_priority_def one_le_u16 Let_def wire_simps not_less)
      (auto dest: leD)
qed (simp_all add: MtPriority_unpack_sent, simp_all add: MtPriority_defs)

section \<open>IEMtConfirmationMsg\<close>

record IEMtConfirmationMsgDto =
  m_uniqueClientMsgId_conf :: u32
  m_imei_conf :: "byte list"
  m_autoIdRef :: u32
  m_msgStatus :: u16

definition IEMtConfirmationMsg_ElementLength :: nat where
  "IEMtConfirmationMsg_ElementLength = 25"

definition IEMtConfirmationMsg_new :: "IEMtConfirmationMsgDto ie" where
  "IEMtConfirmationMsg_new = new_ie eMtConfirmationMsg
     \<lparr>m_uniqueClientMsgId_conf = 0, m_imei_conf = imei_zero, m_autoIdRef = 0, m_msgStatus = 0\<rparr>"

definition IEMtConfirmationMsg_unpack ::
  "host \<Rightarrow> IEMtConfirmationMsgDto ie \<Rightarrow> mem \<Rightarrow> nat \<Rightarrow> u16 \<Rightarrow>
     (IEMtConfirmationMsgDto ie \<times> u16) option" where
  "IEMtConfirmationMsg_unpack h e mem p sz =
     (if unat sz < IEMtConfirmationMsg_ElementLength + 2 then Some (e, 0)
      else do {
        bs \<leftarrow> rd mem p 2;
        let e = e\<lparr>m_length := ntohs h (load h bs)\<rparr>;
        if unat (m_length e) \<noteq> IEMtConfirmationMsg_ElementLength then Some (e, 0)
        else do {
          let offset = (2 :: u16);
          bs \<leftarrow> rd mem (p + unat offset) 4;
          let c = (m_content e)\<lparr>m_uniqueClientMsgId_conf := ntohl h (load h bs)\<rparr>;
          let offset = offset + 4;
          bs \<leftarrow> rd mem (p + unat offset) 15;
          let c = c\<lparr>m_imei_conf := bs @ [0]\<rparr>;
          let offset = offset + 15;
          bs \<leftarrow> rd mem (p + unat offset) 4;
          let c = c\<lparr>m_autoIdRef := ntohl h (load h bs)\<rparr>;
          let offset = offset + 4;
          bs \<leftarrow> rd mem (p + unat offset) 2;
          let c = c\<lparr>m_msgStatus := ntohs h (load h bs)\<rparr>;
          let offset = offset + 2;
          Some (e\<lparr>m_content := c\<rparr>, offset)
        }
      })"

definition IEMtConfirmationMsg_packInto ::
  "host \<Rightarrow> IEMtConfirmationMsgDto ie \<Rightarrow> byte list \<Rightarrow> IEMtConfirmationMsgDto ie \<times> byte list" where
  "IEMtConfirmationMsg_packInto h e raw =
     (let e = e\<lparr>m_length := of_nat IEMtConfirmationMsg_ElementLength\<rparr>;
          c = m_content e;
          raw = InformationElement_packInto h e raw;
          raw = raw @ store h 4 (htonl h (m_uniqueClientMsgId_conf c));
          raw = raw @ take 15 (m_imei_conf c);
          raw = raw @ store h 4 (htonl h (m_autoIdRef c));
          raw = raw @ store h 2 (htons h (m_msgStatus c))
      in (e, raw))"

definition MtConfirmation_good :: "IEMtConfirmationMsgDto ie \<Rightarrow> bool" where
  "MtConfirmation_good e \<longleftrightarrow> imei_good (m_imei_conf (m_content e))"

definition MtConfirmation_body :: "IEMtConfirmationMsgDto ie \<Rightarrow> byte list" where
  "MtConfirmation_body e = (let c = m_content e in
     be32 (m_uniqueClientMsgId_conf c) @ take 15 (m_imei_conf c) @ be32 (m_autoIdRef c) @
     be16 (m_msgStatus c))"

definition MtConfirmation_sent :: "IEMtConfirmationMsgDto ie \<Rightarrow> IEMtConfirmationMsgDto ie" where
  "MtConfirmation_sent e = e\<lparr>m_length := 25\<rparr>"

lemmas MtConfirmation_defs = MtConfirmation_good_def MtConfirmation_body_def
  MtConfirmation_sent_def IEMtConfirmationMsg_ElementLength_def

lemma MtConfirmation_length_body: "MtConfirmation_good e \<Longrightarrow> length (MtConfirmation_body e) = 25"
  by (auto simp: MtConfirmation_defs imei_good_split Let_def)

lemma MtConfirmation_unpack_bound:
  "IEMtConfirmationMsg_unpack h e mem p sz = Some (e', n) \<Longrightarrow>
     m_id e' = m_id e \<and> (n = 0 \<or> n = 27 \<and> 27 \<le> unat sz)"
  by (auto simp: IEMtConfirmationMsg_unpack_def MtConfirmation_defs bind_eq_Some_conv Let_def
      split: if_splits)

lemma MtConfirmation_unpack_safe:
  "p + unat sz \<le> length mem \<Longrightarrow> IEMtConfirmationMsg_unpack h e mem p sz \<noteq> None"
  by (auto simp: IEMtConfirmationMsg_unpack_def MtConfirmation_defs rd_def Let_def not_less
      split: if_splits)

lemma MtConfirmation_unpack_sent:
  assumes "MtConfirmation_good e" and "m_id o' = m_id e"
    and "wire_at mem p (be16 (of_nat (length (MtConfirmation_body e))) @ MtConfirmation_body e)"
    and "length (MtConfirmation_body e) + 2 \<le> unat sz"
  shows "IEMtConfirmationMsg_unpack h o' mem p sz
    = Some (MtConfirmation_sent e, of_nat (length (MtConfirmation_body e)) + 2)"
proof -
  obtain ds where ds: "length ds = 15" "m_imei_conf (m_content e) = ds @ [0]"
    using assms(1) by (auto simp: MtConfirmation_good_def imei_good_split)
  have len: "length (MtConfirmation_body e) = 25"
    using assms(1) by (rule MtConfirmation_length_body)
  note at = rd_within [OF assms(3) [unfolded len]]
  show ?thesis
    using assms(2,4) ds unfolding len
    by (simp add: IEMtConfirmationMsg_unpack_def MtConfirmation_defs Let_def at wire_simps
        del: add_2_eq_Suc add_2_eq_Suc')
qed

interpretation MtConfirmation: ie_codec m_id IEMtConfirmationMsg_unpack m_length IEMtConfirmationMsg_packInto
  MtConfirmation_good MtConfirmation_body MtConfirmation_sent MtConfirmation_good "\<lambda>o' e. m_id o' = m_id e"
proof unfold_locales
  fix h e mem p sz and e' :: "IEMtConfirmationMsgDto ie" and n
  show "p + unat sz + 3 \<le> length mem \<Longrightarrow> IEMtConfirmationMsg_unpack h e mem p sz \<noteq> None"
    using MtConfirmation_unpack_safe [of p sz mem h e] by linarith
  assume "IEMtConfirmationMsg_unpack h e mem p sz = Some (e', n)"
  from MtConfirmation_unpack_bound [OF this]
  show "unat n \<le> unat sz + 3" "n \<noteq> 0 \<Longrightarrow> 3 \<le> unat n" "m_id e' = m_id e"
    by auto
next
  fix h raw and e :: "IEMtConfirmationMsgDto ie"
  assume g: "MtConfirmation_good e"
  show "IEMtConfirmationMsg_packInto h e raw
      = (MtConfirmation_sent e, raw @ framed (m_id e) (MtConfirmation_body e))"
    by (simp add: IEMtConfirmationMsg_packInto_def InformationElement_packInto_def framed_def
        MtConfirmation_length_body [OF g] wire_simps) (simp add: MtConfirmation_defs Let_def)
  show "1 \<le> length (MtConfirmation_body e) \<and> length (MtConfirmation_body e) \<le> 1960"
    by (simp add: MtConfirmation_length_body [OF g])
  show "MtConfirmation_good (MtConfirmation_sent e) \<and> MtConfirmation_body (MtConfirmation_sent e) = MtConfirmation_body e \<and>
      MtConfirmation_sent (MtConfirmation_sent e) = MtConfirmation_sent e \<and> m_id (MtConfirmation_sent e) = m_id e \<and>
      m_length (MtConfirmation_sent e) = of_nat (length (MtConfirmation_body e))"
    using g MtConfirmation_length_body [OF g] by (simp add: MtConfirmation_defs)
  show "MtConfirmation_good (MtConfirmation_sent e)"
    using g by (simp add: MtConfirmation_defs)
qed (auto intro: MtConfirmation_unpack_sent)

end
