(* ===== verification/Element.thy ===== *)
theory Element
  imports IEMo IEMt
begin

text \<open>
  An object behind a \<open>std::shared_ptr<InformationElement>\<close>: one of the eight derived classes. The
  virtual calls \<open>unpack\<close> and \<open>packInto\<close> are a case distinction on the class, and the
  \<open>static_cast\<close> that the messages apply to an element they found by its identifier is a partial
  function: casting to a class the object is not of is undefined behaviour.
\<close>

datatype element =
    IEMoHeader "IEMoHeaderDto ie"
  | IEMoPayload "IEMoPayloadDto ie"
  | IEMoLocationInfo "IEMoLocationInfoDto ie"
  | IEMoConfirmation "IEMoConfirmationDto ie"
  | IEMtHeader "IEMtHeaderDto ie"
  | IEMtPayload "IEMtPayloadDto ie"
  | IEMtConfirmationMsg "IEMtConfirmationMsgDto ie"
  | IEMtPriority "IEMtPriorityDto ie"

fun getId :: "element \<Rightarrow> u8" where
  "getId (IEMoHeader e) = m_id e"
| "getId (IEMoPayload e) = m_id e"
| "getId (IEMoLocationInfo e) = m_id e"
| "getId (IEMoConfirmation e) = m_id e"
| "getId (IEMtHeader e) = m_id e"
| "getId (IEMtPayload e) = m_id e"
| "getId (IEMtConfirmationMsg e) = m_id e"
| "getId (IEMtPriority e) = m_id e"

fun getLength :: "element \<Rightarrow> u16" where
  "getLength (IEMoHeader e) = m_length e"
| "getLength (IEMoPayload e) = m_length e"
| "getLength (IEMoLocationInfo e) = m_length e"
| "getLength (IEMoConfirmation e) = m_length e"
| "getLength (IEMtHeader e) = m_length e"
| "getLength (IEMtPayload e) = m_length e"
| "getLength (IEMtConfirmationMsg e) = m_length e"
| "getLength (IEMtPriority e) = m_length e"

fun unpack :: "host \<Rightarrow> element \<Rightarrow> mem \<Rightarrow> nat \<Rightarrow> u16 \<Rightarrow> (element \<times> u16) option" where
  "unpack h (IEMoHeader e) mem p sz = map_option (apfst IEMoHeader) (IEMoHeader_unpack h e mem p sz)"
| "unpack h (IEMoPayload e) mem p sz = map_option (apfst IEMoPayload) (IEMoPayload_unpack h e mem p sz)"
| "unpack h (IEMoLocationInfo e) mem p sz =
     map_option (apfst IEMoLocationInfo) (IEMoLocationInfo_unpack h e mem p sz)"
| "unpack h (IEMoConfirmation e) mem p sz =
     map_option (apfst IEMoConfirmation) (IEMoConfirmation_unpack h e mem p sz)"
| "unpack h (IEMtHeader e) mem p sz = map_option (apfst IEMtHeader) (IEMtHeader_unpack h e mem p sz)"
| "unpack h (IEMtPayload e) mem p sz = map_option (apfst IEMtPayload) (IEMtPayload_unpack h e mem p sz)"
| "unpack h (IEMtConfirmationMsg e) mem p sz =
     map_option (apfst IEMtConfirmationMsg) (IEMtConfirmationMsg_unpack h e mem p sz)"
| "unpack h (IEMtPriority e) mem p sz =
     map_option (apfst IEMtPriority) (IEMtPriority_unpack h e mem p sz)"

fun packInto :: "host \<Rightarrow> element \<Rightarrow> byte list \<Rightarrow> element \<times> byte list" where
  "packInto h (IEMoHeader e) raw = apfst IEMoHeader (IEMoHeader_packInto h e raw)"
| "packInto h (IEMoPayload e) raw = apfst IEMoPayload (IEMoPayload_packInto h e raw)"
| "packInto h (IEMoLocationInfo e) raw = apfst IEMoLocationInfo (IEMoLocationInfo_packInto h e raw)"
| "packInto h (IEMoConfirmation e) raw = apfst IEMoConfirmation (IEMoConfirmation_packInto h e raw)"
| "packInto h (IEMtHeader e) raw = apfst IEMtHeader (IEMtHeader_packInto h e raw)"
| "packInto h (IEMtPayload e) raw = apfst IEMtPayload (IEMtPayload_packInto h e raw)"
| "packInto h (IEMtConfirmationMsg e) raw =
     apfst IEMtConfirmationMsg (IEMtConfirmationMsg_packInto h e raw)"
| "packInto h (IEMtPriority e) raw = apfst IEMtPriority (IEMtPriority_packInto h e raw)"

text \<open>\<open>Codec::IEFactory\<close>: a new object of the class an identifier names, the null pointer for an
  identifier of no class.\<close>

definition IEFactory :: "host \<Rightarrow> u8 \<Rightarrow> element option" where
  "IEFactory h ident =
     (if ident = eMoHeader then Some (IEMoHeader IEMoHeader_new)
      else if ident = eMoPayload then Some (IEMoPayload IEMoPayload_new)
      else if ident = eMoLocationInfo then Some (IEMoLocationInfo (IEMoLocationInfo_new h))
      else if ident = eMoConfirmation then Some (IEMoConfirmation IEMoConfirmation_new)
      else if ident = eMtHeader then Some (IEMtHeader IEMtHeader_new)
      else if ident = eMtPayload then Some (IEMtPayload IEMtPayload_new)
      else if ident = eMtConfirmationMsg then Some (IEMtConfirmationMsg IEMtConfirmationMsg_new)
      else if ident = eMtMsgPriority then Some (IEMtPriority IEMtPriority_new)
      else None)"

section \<open>Classes, identifiers and the contract\<close>

text \<open>The identifier that the constructor of an object's class sets; an object is typed when it
  still carries it.\<close>

fun class_id :: "element \<Rightarrow> u8" where
  "class_id (IEMoHeader e) = eMoHeader"
| "class_id (IEMoPayload e) = eMoPayload"
| "class_id (IEMoLocationInfo e) = eMoLocationInfo"
| "class_id (IEMoConfirmation e) = eMoConfirmation"
| "class_id (IEMtHeader e) = eMtHeader"
| "class_id (IEMtPayload e) = eMtPayload"
| "class_id (IEMtConfirmationMsg e) = eMtConfirmationMsg"
| "class_id (IEMtPriority e) = eMtMsgPriority"

definition typed :: "element \<Rightarrow> bool" where
  "typed e \<longleftrightarrow> getId e = class_id e"

definition same_class :: "element \<Rightarrow> element \<Rightarrow> bool" where
  "same_class o' e \<longleftrightarrow> class_id o' = class_id e \<and> getId o' = getId e"

text \<open>The elements that \<open>packInto\<close> frames correctly (never the location information), and those
  that \<open>unpack\<close> also reads back as they were (an MT header only without flags).\<close>

fun el_packs :: "element \<Rightarrow> bool" where
  "el_packs (IEMoHeader e) = MoHeader_good e"
| "el_packs (IEMoPayload e) = MoPayload_good e"
| "el_packs (IEMoLocationInfo e) = False"
| "el_packs (IEMoConfirmation e) = True"
| "el_packs (IEMtHeader e) = MtHeader_packs e"
| "el_packs (IEMtPayload e) = MtPayload_good e"
| "el_packs (IEMtConfirmationMsg e) = MtConfirmation_good e"
| "el_packs (IEMtPriority e) = True"

fun el_good :: "element \<Rightarrow> bool" where
  "el_good (IEMtHeader e) = MtHeader_good e"
| "el_good e = el_packs e"

fun el_body :: "element \<Rightarrow> byte list" where
  "el_body (IEMoHeader e) = MoHeader_body e"
| "el_body (IEMoPayload e) = MoPayload_body e"
| "el_body (IEMoLocationInfo e) = []"
| "el_body (IEMoConfirmation e) = MoConfirmation_body e"
| "el_body (IEMtHeader e) = MtHeader_body e"
| "el_body (IEMtPayload e) = MtPayload_body e"
| "el_body (IEMtConfirmationMsg e) = MtConfirmation_body e"
| "el_body (IEMtPriority e) = MtPriority_body e"

fun el_sent :: "element \<Rightarrow> element" where
  "el_sent (IEMoHeader e) = IEMoHeader (MoHeader_sent e)"
| "el_sent (IEMoPayload e) = IEMoPayload (MoPayload_sent e)"
| "el_sent (IEMoLocationInfo e) = IEMoLocationInfo e"
| "el_sent (IEMoConfirmation e) = IEMoConfirmation (MoConfirmation_sent e)"
| "el_sent (IEMtHeader e) = IEMtHeader (MtHeader_sent e)"
| "el_sent (IEMtPayload e) = IEMtPayload (MtPayload_sent e)"
| "el_sent (IEMtConfirmationMsg e) = IEMtConfirmationMsg (MtConfirmation_sent e)"
| "el_sent (IEMtPriority e) = IEMtPriority (MtPriority_sent e)"

lemma unpack_safe: "p + unat sz + 3 \<le> length mem \<Longrightarrow> unpack h e mem p sz \<noteq> None"
  by (cases e) (simp_all add: MoHeader.unp_safe MoPayload.unp_safe MoLocation.unp_safe
    MoConfirmation.unp_safe MtHeader.unp_safe MtPayload.unp_safe MtConfirmation.unp_safe
    MtPriority.unp_safe del: not_None_eq)

lemma unpack_bounds:
  "unpack h e mem p sz = Some (e', n) \<Longrightarrow>
     unat n \<le> unat sz + 3 \<and> (n \<noteq> 0 \<longrightarrow> 3 \<le> unat n) \<and> getId e' = getId e \<and> class_id e' = class_id e"
  by (cases e)
    (auto dest: MoHeader.unp_bound MoHeader.unp_progress MoHeader.unp_ident
      MoPayload.unp_bound MoPayload.unp_progress MoPayload.unp_ident
      MoLocation.unp_bound MoLocation.unp_progress MoLocation.unp_ident
      MoConfirmation.unp_bound MoConfirmation.unp_progress MoConfirmation.unp_ident
      MtHeader.unp_bound MtHeader.unp_progress MtHeader.unp_ident
      MtPayload.unp_bound MtPayload.unp_progress MtPayload.unp_ident
      MtConfirmation.unp_bound MtConfirmation.unp_progress MtConfirmation.unp_ident
      MtPriority.unp_bound MtPriority.unp_progress MtPriority.unp_ident)

lemma class_id_inject_cases:
  "class_id o' = class_id e \<Longrightarrow>
     (case e of IEMoHeader x \<Rightarrow> \<exists>y. o' = IEMoHeader y
      | IEMoPayload x \<Rightarrow> \<exists>y. o' = IEMoPayload y
      | IEMoLocationInfo x \<Rightarrow> \<exists>y. o' = IEMoLocationInfo y
      | IEMoConfirmation x \<Rightarrow> \<exists>y. o' = IEMoConfirmation y
      | IEMtHeader x \<Rightarrow> \<exists>y. o' = IEMtHeader y
      | IEMtPayload x \<Rightarrow> \<exists>y. o' = IEMtPayload y
      | IEMtConfirmationMsg x \<Rightarrow> \<exists>y. o' = IEMtConfirmationMsg y
      | IEMtPriority x \<Rightarrow> \<exists>y. o' = IEMtPriority y)"
  by (cases e; cases o') (simp_all add: id_defs)

interpretation el: ie_codec getId unpack getLength packInto el_packs el_body el_sent el_good same_class
proof unfold_locales
  fix h e mem p sz e' n
  show "p + unat sz + 3 \<le> length mem \<Longrightarrow> unpack h e mem p sz \<noteq> None"
    by (rule unpack_safe)
  assume "unpack h e mem p sz = Some (e', n)"
  from unpack_bounds [OF this]
  show "unat n \<le> unat sz + 3" "n \<noteq> 0 \<Longrightarrow> 3 \<le> unat n" "getId e' = getId e"
    by auto
next
  fix h e raw
  assume g: "el_packs e"
  then show "packInto h e raw = (el_sent e, raw @ framed (getId e) (el_body e))"
    by (cases e) (simp_all add: MoHeader.pck_framed MoPayload.pck_framed MoConfirmation.pck_framed
      MtHeader.pck_framed MtPayload.pck_framed MtConfirmation.pck_framed MtPriority.pck_framed)
  from g show "1 \<le> length (el_body e) \<and> length (el_body e) \<le> 1960"
    by (cases e) (simp_all only: el_packs.simps el_body.simps MoHeader.body_bounds
      MoPayload.body_bounds MoConfirmation.body_bounds MtHeader.body_bounds MtPayload.body_bounds
      MtConfirmation.body_bounds MtPriority.body_bounds)
  from g show "el_packs (el_sent e) \<and> el_body (el_sent e) = el_body e \<and>
      el_sent (el_sent e) = el_sent e \<and> getId (el_sent e) = getId e \<and>
      getLength (el_sent e) = of_nat (length (el_body e))"
    by (cases e) (simp_all add: MoHeader.sent_packs MoPayload.sent_packs MoConfirmation.sent_packs
      MtHeader.sent_packs MtPayload.sent_packs MtConfirmation.sent_packs MtPriority.sent_packs)
next
  fix e
  assume "el_good e"
  then show "el_packs e" "el_good (el_sent e)"
    by (cases e, simp_all add: MtHeader.good_packs MtHeader.sent_good MoHeader.sent_good
      MoPayload.sent_good MoConfirmation.sent_good MtPayload.sent_good MtConfirmation.sent_good)+
next
  fix h o' e mem p and sz :: u16
  assume g: "el_good e" and s: "same_class o' e"
    and w: "wire_at mem p (be16 (of_nat (length (el_body e))) @ el_body e)"
      "length (el_body e) + 2 \<le> unat sz"
  from s have "class_id o' = class_id e" and "getId o' = getId e"
    by (simp_all add: same_class_def)
  with g w class_id_inject_cases [of o' e]
  show "unpack h o' mem p sz = Some (el_sent e, of_nat (length (el_body e)) + 2)"
    by (cases e) (auto simp: MoHeader.unp_sent MoPayload.unp_sent MoConfirmation.unp_sent
      MtHeader.unp_sent MtPayload.unp_sent MtConfirmation.unp_sent MtPriority.unp_sent)
qed

section \<open>Facts on the factory\<close>

lemma IEFactory_typed: "IEFactory h i = Some e \<Longrightarrow> getId e = i \<and> class_id e = i"
  by (auto simp: IEFactory_def IEMoHeader_new_def IEMoPayload_new_def IEMoLocationInfo_new_def
      IEMoConfirmation_new_def IEMtHeader_new_def IEMtPayload_new_def IEMtConfirmationMsg_new_def
      IEMtPriority_new_def new_ie_def split: if_splits)

lemma IEFactory_None:
  "IEFactory h i = None \<longleftrightarrow> i \<notin> {eMoHeader, eMoPayload, eMoLocationInfo, eMoConfirmation,
     eMtHeader, eMtPayload, eMtConfirmationMsg, eMtMsgPriority}"
  by (simp add: IEFactory_def)

lemma IEFactory_class: "typed e \<Longrightarrow> \<exists>o'. IEFactory h (getId e) = Some o' \<and> same_class o' e"
  by (cases e) (auto simp: IEFactory_def typed_def same_class_def id_defs IEMoHeader_new_def
      IEMoPayload_new_def IEMoLocationInfo_new_def IEMoConfirmation_new_def IEMtHeader_new_def
      IEMtPayload_new_def IEMtConfirmationMsg_new_def IEMtPriority_new_def new_ie_def)

lemma unpack_typed: "unpack h e mem p sz = Some (e', n) \<Longrightarrow> typed e \<Longrightarrow> typed e'"
  using unpack_bounds [of h e mem p sz e' n] by (simp add: typed_def)

lemma el_sent_typed: "typed (el_sent e) = typed e"
  by (cases e) (simp_all add: typed_def MoHeader_sent_def MoPayload_sent_def MoConfirmation_sent_def
      MtHeader_sent_def MtPayload_sent_def MtConfirmation_sent_def MtPriority_sent_def)

end
