(* ===== verification/Message.thy ===== *)
theory Message
  imports Element
begin

text \<open>
  include/iridium/Message.hpp and src/Message.cpp: the three messages, their accessors, the
  serialisation of a mobile terminated message and the \<open>operator<<\<close> functions.

  The members \<open>m_header\<close>, \<open>m_payload\<close> and so on are iterators into the vector \<open>m_elements\<close>. An
  iterator is modelled by its offset from the beginning, and \<open>end()\<close> is the length of the vector; so
  an iterator that a later \<open>clear()\<close> left behind keeps its offset, compares against the new \<open>end()\<close>,
  and dereferencing it outside the vector is undefined behaviour (\<^term>\<open>None\<close>). A base class is the
  record that the derived class extends.
\<close>

definition SbdProtoNumber :: u8 where
  "SbdProtoNumber = 1"

text \<open>The size of the packed structure \<open>MessageHeader\<close>: the protocol number and the length.\<close>

definition MessageHeader_size :: nat where
  "MessageHeader_size = 3"

record Message =
  m_elements :: "element list"

record MoMessage = Message +
  mo_header :: nat
  mo_payload :: nat
  mo_location :: nat

record MtMessage = Message +
  mt_header :: nat
  mt_payload :: nat
  mt_priority :: nat

record MtConfirmMessage =
  m_elements_conf :: "element list"
  m_confirmation :: nat

definition MoMessage_init :: MoMessage where
  "MoMessage_init = \<lparr>m_elements = [], mo_header = 0, mo_payload = 0, mo_location = 0\<rparr>"

definition MtMessage_init :: MtMessage where
  "MtMessage_init = \<lparr>m_elements = [], mt_header = 0, mt_payload = 0, mt_priority = 0\<rparr>"

definition MtConfirmMessage_init :: MtConfirmMessage where
  "MtConfirmMessage_init = \<lparr>m_elements_conf = [], m_confirmation = 0\<rparr>"

definition MoMessage_MaxMessageSize :: u16 where
  "MoMessage_MaxMessageSize = HeaderSize * 3 + of_nat IEMoHeader_ElementLength +
     of_nat IEMoPayload_MaxPayloadLength + of_nat IEMoLocationInfo_ElementLength"

definition MtMessage_MaxMessageSize :: u16 where
  "MtMessage_MaxMessageSize = HeaderSize * 3 + of_nat IEMtHeader_ElementLength +
     of_nat IEMtPayload_MaxPayloadLength + of_nat IEMtPriority_ElementLength"

section \<open>Accessors\<close>

text \<open>Dereferencing an iterator.\<close>

definition deref :: "element list \<Rightarrow> nat \<Rightarrow> element option" where
  "deref es i = (if i < length es then Some (es ! i) else None)"

text \<open>The downcasts.\<close>

fun as_MoHeader :: "element \<Rightarrow> IEMoHeaderDto ie option" where
  "as_MoHeader (IEMoHeader e) = Some e" | "as_MoHeader _ = None"

fun as_MoPayload :: "element \<Rightarrow> IEMoPayloadDto ie option" where
  "as_MoPayload (IEMoPayload e) = Some e" | "as_MoPayload _ = None"

fun as_MtHeader :: "element \<Rightarrow> IEMtHeaderDto ie option" where
  "as_MtHeader (IEMtHeader e) = Some e" | "as_MtHeader _ = None"

fun as_MtPayload :: "element \<Rightarrow> IEMtPayloadDto ie option" where
  "as_MtPayload (IEMtPayload e) = Some e" | "as_MtPayload _ = None"

fun as_MtConfirmation :: "element \<Rightarrow> IEMtConfirmationMsgDto ie option" where
  "as_MtConfirmation (IEMtConfirmationMsg e) = Some e" | "as_MtConfirmation _ = None"

definition MoMessage_imei :: "MoMessage \<Rightarrow> byte list option" where
  "MoMessage_imei m =
     (if mo_header m = length (m_elements m) then Some []
      else do { e \<leftarrow> deref (m_elements m) (mo_header m);
                x \<leftarrow> as_MoHeader e;
                c_str (m_imei_mo (m_content x)) })"

definition MoMessage_payload :: "MoMessage \<Rightarrow> byte list option" where
  "MoMessage_payload m =
     (if mo_payload m = length (m_elements m) then Some []
      else do { e \<leftarrow> deref (m_elements m) (mo_payload m);
                x \<leftarrow> as_MoPayload e;
                Some (m_payload_mo (m_content x)) })"

definition MtMessage_imei :: "MtMessage \<Rightarrow> byte list option" where
  "MtMessage_imei m =
     (if mt_header m = length (m_elements m) then Some []
      else do { e \<leftarrow> deref (m_elements m) (mt_header m);
                x \<leftarrow> as_MtHeader e;
                c_str (m_imei_mt (m_content x)) })"

definition MtMessage_payload :: "MtMessage \<Rightarrow> byte list option" where
  "MtMessage_payload m =
     (if mt_payload m = length (m_elements m) then Some []
      else do { e \<leftarrow> deref (m_elements m) (mt_payload m);
                x \<leftarrow> as_MtPayload e;
                Some (m_payload_mt (m_content x)) })"

definition confirmation_of :: "MtConfirmMessage \<Rightarrow> IEMtConfirmationMsgDto ie option" where
  "confirmation_of m = do { e \<leftarrow> deref (m_elements_conf m) (m_confirmation m); as_MtConfirmation e }"

definition MtConfirmMessage_imei :: "MtConfirmMessage \<Rightarrow> byte list option" where
  "MtConfirmMessage_imei m =
     (if m_confirmation m = length (m_elements_conf m) then Some []
      else do { c \<leftarrow> confirmation_of m; c_str (m_imei_conf (m_content c)) })"

definition MtConfirmMessage_messageId :: "MtConfirmMessage \<Rightarrow> u32 option" where
  "MtConfirmMessage_messageId m =
     (if m_confirmation m = length (m_elements_conf m) then Some 0
      else do { c \<leftarrow> confirmation_of m; Some (m_uniqueClientMsgId_conf (m_content c)) })"

definition MtConfirmMessage_autoRef :: "MtConfirmMessage \<Rightarrow> u32 option" where
  "MtConfirmMessage_autoRef m =
     (if m_confirmation m = length (m_elements_conf m) then Some 0
      else do { c \<leftarrow> confirmation_of m; Some (m_autoIdRef (m_content c)) })"

definition MtConfirmMessage_status :: "MtConfirmMessage \<Rightarrow> int option" where
  "MtConfirmMessage_status m =
     (if m_confirmation m = length (m_elements_conf m) then Some (-32767)
      else do { c \<leftarrow> confirmation_of m; Some (sint (m_msgStatus (m_content c))) })"

section \<open>Serialisation\<close>

text \<open>
  The loop of \<open>serialize\<close> threads the output buffer and the 16-bit length of the header, and updates
  every element in place.
\<close>

fun serialize_elements ::
  "host \<Rightarrow> element list \<Rightarrow> byte list \<Rightarrow> u16 \<Rightarrow> element list \<times> byte list \<times> u16" where
  "serialize_elements h [] out len = ([], out, len)"
| "serialize_elements h (e # es) out len =
     (let (e', out') = packInto h e out;
          (es', out'', len') = serialize_elements h es out' (len + (getLength e' + HeaderSize))
      in (e' # es', out'', len'))"

definition MtMessage_serialize :: "host \<Rightarrow> MtMessage \<Rightarrow> MtMessage \<times> byte list" where
  "MtMessage_serialize h m =
     (let out = replicate MessageHeader_size 0;
          (es, out, len) = serialize_elements h (m_elements m) out 0;
          out = out[0 := SbdProtoNumber];
          buf = htons h len;
          out = take 1 out @ store h 2 buf @ drop 3 out
      in (m\<lparr>m_elements := es\<rparr>, out))"

section \<open>Output\<close>

definition endl :: "byte list" where
  "endl = [10]"

definition MoMessage_print :: "MoMessage \<Rightarrow> byte list option" where
  "MoMessage_print m = do {
     imei \<leftarrow> MoMessage_imei m;
     payload \<leftarrow> MoMessage_payload m;
     Some (bytes_of ''Mobile originated message: '' @ endl @ bytes_of ''  IMEI = '' @ imei @ endl @
           bytes_of ''  payload = '' @ payload)
   }"

definition MtMessage_print :: "MtMessage \<Rightarrow> byte list option" where
  "MtMessage_print m = do {
     imei \<leftarrow> MtMessage_imei m;
     payload \<leftarrow> MtMessage_payload m;
     Some (bytes_of ''Mobile terminated message: '' @ endl @ bytes_of ''  IMEI = '' @ imei @ endl @
           bytes_of ''  payload = '' @ payload)
   }"

definition status_text :: "int \<Rightarrow> string" where
  "status_text st =
     (if st = 0 then ''Successful, no payload in message''
      else if st = -1 then ''Invalid IMEI - too few characters, non-numeric characters''
      else if st = -2 then ''Unknown IMEI - not provisioned on the Iridium Gateway''
      else if st = -3 then ''Payload size exceeded maximum allowed''
      else if st = -4 then ''Payload expected, but none received''
      else if st = -5 then ''MT message queue full (max of 50)''
      else if st = -6 then ''MT resources unavailable''
      else if st = -7 then ''Violation of MT DirectIP protocol error''
      else if st = -8 then ''Ring alerts to the given IMEI are disabled''
      else if st = -9 then ''The given IMEI is not attached (not set to receive ring alerts)''
      else if st = -10 then ''Source IP address rejected by MT filter''
      else if st = -11 then ''MTMSN value is out of range (valid range is 1 - 65535)''
      else show_int st)"

definition MtConfirmMessage_print :: "MtConfirmMessage \<Rightarrow> byte list option" where
  "MtConfirmMessage_print m = do {
     imei \<leftarrow> MtConfirmMessage_imei m;
     ident \<leftarrow> MtConfirmMessage_messageId m;
     ref \<leftarrow> MtConfirmMessage_autoRef m;
     st \<leftarrow> MtConfirmMessage_status m;
     Some (bytes_of ''MT message confirmation: '' @ endl @ bytes_of ''  IMEI = '' @ imei @ endl @
           bytes_of ''  client message ID = '' @ bytes_of (show_nat (unat ident)) @ endl @
           bytes_of ''  auto ID reference = '' @ bytes_of (show_nat (unat ref)) @ endl @
           bytes_of ''  status = '' @ bytes_of (status_text st))
   }"

section \<open>What serialisation puts on the wire\<close>

definition wire_element :: "element \<Rightarrow> byte list" where
  "wire_element e = framed (getId e) (el_body e)"

definition wire_elements :: "element list \<Rightarrow> byte list" where
  "wire_elements es = concat (map wire_element es)"

lemma wire_elements_Nil [simp]: "wire_elements [] = []"
  by (simp add: wire_elements_def)

lemma wire_elements_Cons [simp]: "wire_elements (e # es) = wire_element e @ wire_elements es"
  by (simp add: wire_elements_def)

lemma wire_elements_append [simp]: "wire_elements (es @ fs) = wire_elements es @ wire_elements fs"
  by (simp add: wire_elements_def)

lemma length_wire_element [simp]: "length (wire_element e) = length (el_body e) + 3"
  by (simp add: wire_element_def)

lemma serialize_elements_wire:
  "\<forall>e \<in> set es. el_packs e \<Longrightarrow>
     serialize_elements h es out len =
       (map el_sent es, out @ wire_elements es, len + of_nat (length (wire_elements es)))"
proof (induction es arbitrary: out len)
  case Nil
  then show ?case by simp
next
  case (Cons e es)
  then have e: "el_packs e" by simp
  show ?case
    using Cons
    by (simp add: el.pck_framed [OF e] el.sent_packs [OF e] wire_element_def HeaderSize_def add.assoc)
qed

lemma serialize_wire:
  assumes "\<forall>e \<in> set (m_elements m). el_packs e"
  shows "MtMessage_serialize h m =
    (m\<lparr>m_elements := map el_sent (m_elements m)\<rparr>,
     SbdProtoNumber # be16 (of_nat (length (wire_elements (m_elements m)))) @ wire_elements (m_elements m))"
  by (simp add: MtMessage_serialize_def serialize_elements_wire [OF assms] MessageHeader_size_def
      store_htons numeral_3_eq_3)

lemma map_el_sent_packs: "\<forall>e \<in> set es. el_packs e \<Longrightarrow> \<forall>e \<in> set (map el_sent es). el_packs e"
  by (auto simp: el.sent_packs)

lemma wire_elements_sent:
  "\<forall>e \<in> set es. el_packs e \<Longrightarrow> wire_elements (map el_sent es) = wire_elements es"
  by (induction es) (simp_all add: wire_element_def el.sent_packs)

section \<open>The header of a received message\<close>

text \<open>The transmitter and the incoming session decode the header in the same way: copy its three bytes
  from the front of the received data, consume them, swap the length. The protocol number is signed.\<close>

definition take_header :: "host \<Rightarrow> byte list \<Rightarrow> (int \<times> u16 \<times> byte list) option" where
  "take_header h received = do {
     hdr \<leftarrow> rd received 0 MessageHeader_size;
     Some (sint (hdr ! 0), ntohs h (load h (drop 1 hdr)), drop MessageHeader_size received)
   }"

lemma uint_SbdProtoNumber: "uint SbdProtoNumber = 1"
  by (simp add: SbdProtoNumber_def)

lemma take_header_wire: "take_header h (SbdProtoNumber # be16 n @ rest) = Some (1, n, rest)"
  by (simp add: take_header_def rd_def MessageHeader_size_def ntohs_be16 SbdProtoNumber_def)

lemma take_header_None_iff: "take_header h received = None \<longleftrightarrow> length received < 3"
  by (simp add: take_header_def rd_def MessageHeader_size_def)

lemma take_header_Some:
  "3 \<le> length received \<Longrightarrow> take_header h received =
     Some (sint (received ! 0), ntohs h (load h (take 2 (drop 1 received))), drop 3 received)"
  by (simp add: take_header_def rd_def MessageHeader_size_def drop_take)

lemma MoMessage_MaxMessageSize_value: "unat MoMessage_MaxMessageSize = 2008"
  by (simp add: MoMessage_MaxMessageSize_def HeaderSize_def IEMoHeader_ElementLength_def
      IEMoPayload_MaxPayloadLength_def IEMoLocationInfo_ElementLength_def)

end
