(* ===== verification/Codec.thy ===== *)
theory Codec
  imports Message
begin

text \<open>
  include/iridium/Codec.hpp and src/Codec.cpp: building a mobile terminated message, classifying a
  received byte string and parsing it into a mobile originated message or a confirmation.

  A byte string is a memory \<open>mem\<close> and a size: \<open>mem\<close> is all that may be read from \<open>payload\<close> on, the
  size is the argument of the code. The loops run over a position and end because every round moves
  it; they are \<^theory_text>\<open>function\<close>s with the distance to the size as measure.
\<close>

section \<open>Categories\<close>

datatype EMessageCategory = eMoMessage | eMtMessage | eMtConfirmMessage | eUnknownMessage

fun categoryStr :: "EMessageCategory \<Rightarrow> string" where
  "categoryStr eMoMessage = ''mobile originated message''"
| "categoryStr eMtMessage = ''mobile terminated message''"
| "categoryStr eMtConfirmMessage = ''MT message confirmation message''"
| "categoryStr eUnknownMessage = ''unknown or bad format message''"

text \<open>The decision on one identifier: the new category, or \<^term>\<open>None\<close> for the early
  \<open>return eUnknownMessage\<close>.\<close>

definition next_category :: "EMessageCategory \<Rightarrow> u8 \<Rightarrow> EMessageCategory option" where
  "next_category category ident =
     (if IsMoElem ident then
        (if category = eUnknownMessage then Some eMoMessage
         else if category \<noteq> eMoMessage then None else Some category)
      else if IsMtElem ident then
        (if category = eUnknownMessage then
           (if IsMtConfirm ident then Some eMtConfirmMessage else Some eMtMessage)
         else if IsMtConfirm ident then
           (if category \<noteq> eMtConfirmMessage then None else Some category)
         else if category \<noteq> eMtMessage then None else Some category)
      else None)"

function category_loop ::
  "host \<Rightarrow> mem \<Rightarrow> nat \<Rightarrow> nat \<Rightarrow> EMessageCategory \<Rightarrow> EMessageCategory option" where
  "category_loop h mem sz pos category =
     (if pos < sz then do {
        bs \<leftarrow> rd mem pos 1;
        (case next_category category (hd bs) of
           None \<Rightarrow> Some eUnknownMessage
         | Some category' \<Rightarrow> do {
             bs \<leftarrow> rd mem (pos + 1) 2;
             category_loop h mem sz (pos + 1 + 2 + unat (ntohs h (load h bs))) category'
           })
      }
      else Some category)"
  by pat_completeness auto
termination
  by (relation "measure (\<lambda>(h, mem, sz, pos, category). sz - pos)") auto

declare category_loop.simps [simp del]

definition messageCategory :: "host \<Rightarrow> mem \<Rightarrow> nat \<Rightarrow> EMessageCategory option" where
  "messageCategory h mem sz = category_loop h mem sz 0 eUnknownMessage"

section \<open>Parsing\<close>

text \<open>The loop that both \<open>parse\<close> functions have.\<close>

function parse_elements ::
  "host \<Rightarrow> mem \<Rightarrow> nat \<Rightarrow> nat \<Rightarrow> element list \<Rightarrow> (exc + element list) option" where
  "parse_elements h mem sz pos es =
     (if pos < sz then do {
        bs \<leftarrow> rd mem pos 1;
        (case IEFactory h (hd bs) of
           None \<Rightarrow> Some (Inl ''unknown information element'')
         | Some element \<Rightarrow> do {
             r \<leftarrow> unpack h element mem (pos + 1) (of_nat (sz - (pos + 1)));
             (if snd r = 0 then Some (Inl ''information element parse error'')
              else parse_elements h mem sz (pos + 1 + unat (snd r)) (es @ [fst r]))
           })
      }
      else Some (Inr es))"
  by pat_completeness auto
termination
  by (relation "measure (\<lambda>(h, mem, sz, pos, es). sz - pos)") auto

declare parse_elements.simps [simp del]

definition parse_Mo :: "host \<Rightarrow> mem \<Rightarrow> nat \<Rightarrow> MoMessage \<Rightarrow> ((exc + unit) \<times> MoMessage) option" where
  "parse_Mo h mem sz out = do {
     r \<leftarrow> parse_elements h mem sz 0 [];
     (case r of
        Inl err \<Rightarrow> Some (Inl err, out\<lparr>m_elements := [], mo_header := 0, mo_payload := 0, mo_location := 0\<rparr>)
      | Inr es \<Rightarrow>
          let out = out\<lparr>m_elements := es,
                mo_header := find_index (\<lambda>e. getId e = eMoHeader) es,
                mo_payload := find_index (\<lambda>e. getId e = eMoPayload) es,
                mo_location := find_index (\<lambda>e. getId e = eMoLocationInfo) es\<rparr>
          in if mo_header out = length (m_elements out)
             then Some (Inl ''no header found'', out\<lparr>m_elements := []\<rparr>)
             else if mo_payload out = length (m_elements out)
             then Some (Inl ''no payload found'', out\<lparr>m_elements := []\<rparr>)
             else Some (Inr (), out))
   }"

definition parse_MtConfirm ::
  "host \<Rightarrow> mem \<Rightarrow> nat \<Rightarrow> MtConfirmMessage \<Rightarrow> ((exc + unit) \<times> MtConfirmMessage) option" where
  "parse_MtConfirm h mem sz out = do {
     r \<leftarrow> parse_elements h mem sz 0 [];
     (case r of
        Inl err \<Rightarrow> Some (Inl err, out\<lparr>m_elements_conf := [], m_confirmation := 0\<rparr>)
      | Inr es \<Rightarrow>
          let out = out\<lparr>m_elements_conf := es,
                m_confirmation := find_index (\<lambda>e. getId e = eMtConfirmationMsg) es\<rparr>
          in if m_confirmation out = length (m_elements_conf out)
             then Some (Inl ''no MT confirmation found'', out\<lparr>m_elements_conf := []\<rparr>)
             else Some (Inr (), out))
   }"

section \<open>Building a mobile terminated message\<close>

definition digit :: "byte \<Rightarrow> bool" where
  "digit c \<longleftrightarrow> 48 \<le> c \<and> c \<le> 57"

text \<open>\<open>std::isdigit\<close> of a plain \<open>char\<close>: the standard leaves it undefined for a negative one other than \<open>EOF\<close>.\<close>

definition isdigit :: "host \<Rightarrow> byte \<Rightarrow> bool option" where
  "isdigit h c = (if char_int h c < - 1 then None else Some (digit c))"

text \<open>The loop over the IMEI: whether it comes to its end without a throw.\<close>

fun all_digits :: "host \<Rightarrow> byte list \<Rightarrow> bool option" where
  "all_digits h [] = Some True"
| "all_digits h (c # cs) = do { d \<leftarrow> isdigit h c; (if \<not> d then Some False else all_digits h cs) }"

text \<open>\<open>payload\<close> is \<^term>\<open>None\<close> for the null pointer. An exception leaves \<open>out\<close> as it was.\<close>

definition factory_elements ::
  "u32 \<Rightarrow> byte list \<Rightarrow> byte list \<Rightarrow> MtMessageFlags \<Rightarrow> u16 \<Rightarrow> element list" where
  "factory_elements msgId imei payload flags priority =
     [IEMtHeader (IEMtHeader_new\<lparr>m_content :=
        \<lparr>m_uniqueClientMsgId = msgId, m_imei_mt = imei @ [0], m_dispositionFlags = flags\<rparr>\<rparr>),
      IEMtPayload (IEMtPayload_new\<lparr>m_content := \<lparr>m_payload_mt = payload\<rparr>\<rparr>),
      IEMtPriority (IEMtPriority_new\<lparr>m_content := \<lparr>m_priority = priority\<rparr>\<rparr>)]"

definition factory ::
  "host \<Rightarrow> MtMessage \<Rightarrow> u32 \<Rightarrow> byte list \<Rightarrow> mem option \<Rightarrow> nat \<Rightarrow> MtMessageFlags \<Rightarrow> u16 \<Rightarrow>
     ((exc + unit) \<times> MtMessage) option" where
  "factory h out msgId imei payload sz flags priority =
     (if length imei \<noteq> 15 then Some (Inl ''invalid IMEI size'', out)
      else do {
        ok \<leftarrow> all_digits h imei;
        (if \<not> ok then Some (Inl ''bad IMEI'', out)
         else if payload = None \<or> sz < 1 then Some (Inl ''no payload'', out)
         else if sz > IEMtPayload_MaxPayloadLength then Some (Inl ''payload too large'', out)
         else do {
           bs \<leftarrow> rd (the payload) 0 sz;
           let es = factory_elements msgId imei bs flags priority;
           Some (Inr (), out\<lparr>m_elements := es,
             mt_header := find_index (\<lambda>e. getId e = eMtHeader) es,
             mt_payload := find_index (\<lambda>e. getId e = eMtPayload) es,
             mt_priority := find_index (\<lambda>e. getId e = eMtMsgPriority) es\<rparr>)
         }) })"

section \<open>Memory safety of the two loops\<close>

lemma category_loop_safe:
  "pos \<le> length mem \<or> sz \<le> pos \<Longrightarrow> sz + 2 \<le> length mem \<Longrightarrow> category_loop h mem sz pos c \<noteq> None"
proof (induction h mem sz pos c rule: category_loop.induct)
  case (1 h mem sz pos c)
  show ?case
  proof (cases "pos < sz")
    case False
    then show ?thesis by (simp add: category_loop.simps)
  next
    case True
    with "1.prems" obtain bs bs2 where bs: "rd mem pos 1 = Some bs" and bs2: "rd mem (pos + 1) 2 = Some bs2"
      by (auto simp: rd_def)
    show ?thesis
    proof (cases "next_category c (hd bs)")
      case None
      with True bs show ?thesis by (simp add: category_loop.simps)
    next
      case (Some c')
      have "category_loop h mem sz (pos + 1 + 2 + unat (ntohs h (load h bs2))) c' \<noteq> None"
        by (rule "1.IH" [OF True bs Some bs2 _ "1.prems"(2)]) (use "1.prems" in linarith)
      with True bs bs2 Some show ?thesis
        by (simp add: category_loop.simps [of h mem sz pos c])
    qed
  qed
qed

lemma parse_elements_safe:
  "sz + 3 \<le> length mem \<Longrightarrow> parse_elements h mem sz pos es \<noteq> None"
proof (induction h mem sz pos es rule: parse_elements.induct)
  case (1 h mem sz pos es)
  show ?case
  proof (cases "pos < sz")
    case False
    then show ?thesis by (simp add: parse_elements.simps)
  next
    case True
    with "1.prems" obtain bs where bs: "rd mem pos 1 = Some bs"
      by (auto simp: rd_def)
    show ?thesis
    proof (cases "IEFactory h (hd bs)")
      case None
      with True bs show ?thesis by (simp add: parse_elements.simps)
    next
      case (Some e)
      have "unat (of_nat (sz - (pos + 1)) :: u16) \<le> sz - (pos + 1)"
        by (simp add: unat_of_nat del: of_nat_diff)
      with True "1.prems" have "pos + 1 + unat (of_nat (sz - (pos + 1)) :: u16) + 3 \<le> length mem"
        by linarith
      then obtain e' n where u: "unpack h e mem (pos + 1) (of_nat (sz - (pos + 1))) = Some (e', n)"
        by (rule el.unp_obtain)
      have "n \<noteq> 0 \<Longrightarrow> parse_elements h mem sz (pos + 1 + unat n) (es @ [e']) \<noteq> None"
        using "1.IH" [OF True bs Some u] "1.prems" by simp
      with True bs Some u show ?thesis
        by (simp add: parse_elements.simps [of h mem sz pos es] del: of_nat_diff)
    qed
  qed
qed

section \<open>The parse loop on well-formed input\<close>

lemma wire_at_element:
  "wire_at mem p (wire_element e) \<longleftrightarrow>
     wire_at mem p [getId e] \<and> wire_at mem (p + 1) (be16 (of_nat (length (el_body e))) @ el_body e)"
  using wire_at_append [of mem p "[getId e]" "be16 (of_nat (length (el_body e))) @ el_body e"]
  by (simp add: wire_element_def framed_def)

text \<open>The loop moves over a prefix of good elements.\<close>

lemma parse_elements_step:
  assumes "\<forall>e \<in> set es. el_good e \<and> typed e"
    and "wire_at mem pos (wire_elements es)"
    and "pos + length (wire_elements es) \<le> sz" and "sz < 65536"
  shows "parse_elements h mem sz pos acc
    = parse_elements h mem sz (pos + length (wire_elements es)) (acc @ map el_sent es)"
  using assms
proof (induction es arbitrary: pos acc)
  case Nil
  then show ?case by simp
next
  case (Cons e es)
  then have g: "el_good e" "typed e" by simp_all
  let ?n = "length (el_body e)"
  have at: "wire_at mem pos [getId e]" "wire_at mem (pos + 1) (be16 (of_nat ?n) @ el_body e)"
    "wire_at mem (pos + 3 + ?n) (wire_elements es)"
    using Cons.prems(2) by (auto simp: wire_at_append wire_at_element ac_simps)
  obtain o' where o': "IEFactory h (getId e) = Some o'" "same_class o' e"
    using IEFactory_class [OF g(2)] by blast
  have left: "?n + 2 \<le> unat (of_nat (sz - (pos + 1)) :: u16)"
    using Cons.prems(3,4) by (subst unat_of_nat_u16) auto
  have u: "unpack h o' mem (pos + 1) (of_nat (sz - (pos + 1))) = Some (el_sent e, of_nat ?n + 2)"
    by (rule el.unp_sent [OF g(1) o'(2) at(2) left])
  have n: "unat (of_nat ?n + 2 :: u16) = ?n + 2"
    by (rule el.body_u16_plus [OF el.good_packs [OF g(1)]])
  then have nz: "(of_nat ?n + 2 :: u16) \<noteq> 0"
    by (metis add_is_0 unat_0 zero_neq_numeral)
  have "parse_elements h mem sz pos acc
      = parse_elements h mem sz (pos + 1 + (?n + 2)) (acc @ [el_sent e])"
    using Cons.prems(3) rd_wire [OF at(1), of 1] o'(1) u n nz
    by (simp add: parse_elements.simps [of h mem sz pos acc] del: of_nat_diff)
  also have "pos + 1 + (?n + 2) = pos + 3 + ?n" by simp
  also have "parse_elements h mem sz (pos + 3 + ?n) (acc @ [el_sent e])
      = parse_elements h mem sz (pos + 3 + ?n + length (wire_elements es))
          ((acc @ [el_sent e]) @ map el_sent es)"
    by (rule Cons.IH) (use Cons.prems at(3) in \<open>simp_all add: ac_simps\<close>)
  finally show ?case
    by (simp add: ac_simps)
qed

lemma parse_elements_wire:
  assumes "\<forall>e \<in> set es. el_good e \<and> typed e"
    and "wire_at mem pos (wire_elements es)"
    and "sz = pos + length (wire_elements es)" and "sz < 65536"
  shows "parse_elements h mem sz pos acc = Some (Inr (acc @ map el_sent es))"
  using parse_elements_step [OF assms(1,2) _ assms(4)] assms(3)
  by (simp add: parse_elements.simps)

end
