(* ===== verification/CodecLemmas.thy ===== *)
theory CodecLemmas
  imports Codec
begin

text \<open>
  What the codec promises: the meaning of \<open>messageCategory\<close> on a sequence of framed elements, the
  shape of every element that \<open>unpack\<close> accepts, and the accessors of a parsed message.
\<close>

section \<open>The category of a sequence of elements\<close>

fun fold_category :: "EMessageCategory \<Rightarrow> u8 list \<Rightarrow> EMessageCategory" where
  "fold_category c [] = c"
| "fold_category c (i # ids) =
     (case next_category c i of None \<Rightarrow> eUnknownMessage | Some c' \<Rightarrow> fold_category c' ids)"

definition category_spec :: "u8 list \<Rightarrow> EMessageCategory" where
  "category_spec ids =
     (if ids = [] then eUnknownMessage
      else if list_all IsMoElem ids then eMoMessage
      else if list_all IsMtConfirm ids then eMtConfirmMessage
      else if list_all (\<lambda>i. IsMtElem i \<and> \<not> IsMtConfirm i) ids then eMtMessage
      else eUnknownMessage)"

lemma next_category_Mo: "next_category eMoMessage i = (if IsMoElem i then Some eMoMessage else None)"
  by (simp add: next_category_def)

lemma next_category_Mt:
  "next_category eMtMessage i = (if IsMtElem i \<and> \<not> IsMtConfirm i then Some eMtMessage else None)"
  using not_Mo_and_Mt [of i] by (auto simp: next_category_def)

lemma next_category_MtConfirm:
  "next_category eMtConfirmMessage i = (if IsMtConfirm i then Some eMtConfirmMessage else None)"
  using not_Mo_and_Mt [of i] IsMtConfirm_IsMtElem [of i] by (auto simp: next_category_def)

lemma fold_category_fixed:
  "fold_category eMoMessage ids = (if list_all IsMoElem ids then eMoMessage else eUnknownMessage)"
  "fold_category eMtMessage ids =
     (if list_all (\<lambda>i. IsMtElem i \<and> \<not> IsMtConfirm i) ids then eMtMessage else eUnknownMessage)"
  "fold_category eMtConfirmMessage ids =
     (if list_all IsMtConfirm ids then eMtConfirmMessage else eUnknownMessage)"
  by (induction ids)
    (auto simp: next_category_Mo next_category_Mt next_category_MtConfirm)

lemma fold_category_spec: "fold_category eUnknownMessage ids = category_spec ids"
proof (cases ids)
  case Nil
  then show ?thesis by (simp add: category_spec_def)
next
  case (Cons i ids')
  then show ?thesis
    using not_Mo_and_Mt [of i] IsMtConfirm_IsMtElem [of i]
    by (auto simp: category_spec_def next_category_def fold_category_fixed)
qed

definition frames :: "(u8 \<times> byte list) list \<Rightarrow> byte list" where
  "frames fs = concat (map (\<lambda>(i, b). framed i b) fs)"

lemma frames_simps [simp]: "frames [] = []" "frames ((i, b) # fs) = framed i b @ frames fs"
  by (simp_all add: frames_def)

lemma category_loop_frames:
  assumes "\<forall>(i, b) \<in> set fs. length b < 65536"
    and "wire_at mem pos (frames fs)" and "sz = pos + length (frames fs)"
  shows "category_loop h mem sz pos c = Some (fold_category c (map fst fs))"
  using assms
proof (induction fs arbitrary: pos c)
  case Nil
  then show ?case by (simp add: category_loop.simps)
next
  case (Cons f fs)
  obtain i b where f: "f = (i, b)" by (cases f)
  have b: "length b < 65536" using Cons.prems(1) f by simp
  have "wire_at mem pos ([i] @ be16 (of_nat (length b)) @ b @ frames fs)"
    using Cons.prems(2) f by (simp add: framed_def)
  then have at: "wire_at mem pos [i]" "wire_at mem (pos + 1) (be16 (of_nat (length b)))"
    "wire_at mem (pos + 3 + length b) (frames fs)"
    by (simp_all only: wire_at_append) (simp_all add: ac_simps numeral_3_eq_3)
  have IH: "category_loop h mem sz (pos + 3 + length b) c' = Some (fold_category c' (map fst fs))" for c'
    by (rule Cons.IH) (use Cons.prems f at(3) in \<open>simp_all add: ac_simps\<close>)
  have n: "unat (ntohs h (load h (be16 (of_nat (length b))))) = length b"
    by (simp add: ntohs_be16 unat_of_nat_u16 [OF b])
  have "category_loop h mem sz pos c
      = (case next_category c i of None \<Rightarrow> Some eUnknownMessage
         | Some c' \<Rightarrow> category_loop h mem sz (pos + 3 + length b) c')"
    using Cons.prems(3) f rd_wire [OF at(1), of 1] rd_wire [OF at(2), of 2] n
    by (subst category_loop.simps) (simp add: ac_simps numeral_3_eq_3 split: option.split)
  then show ?case
    by (simp add: f IH split: option.split)
qed

lemma messageCategory_frames_eq:
  assumes "\<forall>(i, b) \<in> set fs. length b < 65536"
  shows "messageCategory h (frames fs @ rest) (length (frames fs)) = Some (category_spec (map fst fs))"
  using category_loop_frames [OF assms wire_at_0, of "length (frames fs)" h rest eUnknownMessage]
  by (simp add: messageCategory_def fold_category_spec)

lemma wire_elements_frames: "wire_elements es = frames (map (\<lambda>e. (getId e, el_body e)) es)"
  by (induction es) (simp_all add: wire_element_def)

lemma category_of_elements:
  assumes "\<forall>e \<in> set es. el_packs e"
  shows "messageCategory h (wire_elements es @ rest) (length (wire_elements es))
    = Some (category_spec (map getId es))"
proof -
  have "length (el_body e) < 65536" if "e \<in> set es" for e
    using el.body_bounds [of e] assms that by force
  then show ?thesis
    using messageCategory_frames_eq [of "map (\<lambda>e. (getId e, el_body e)) es" h rest]
    by (auto simp: wire_elements_frames comp_def)
qed

section \<open>The byte order of the machine does not matter\<close>

lemma category_loop_host: "category_loop h mem sz pos c = category_loop h' mem sz pos c"
proof (induction h mem sz pos c rule: category_loop.induct)
  case (1 h mem sz pos c)
  have "ntohs h (load h bs) = ntohs h' (load h' bs)" if "rd mem (pos + 1) 2 = Some bs" for bs
    using rd_length [OF that] by (simp add: ntohs_load)
  with "1.IH" show ?case
    by (auto simp: category_loop.simps [of _ mem sz pos c] split: option.split intro!: Option.bind_cong)
qed

section \<open>The elements that a parser accepts\<close>

text \<open>What every decoded element satisfies: its class is that of its identifier, an IMEI is
  terminated and a payload has a legal length.\<close>

fun el_wf :: "element \<Rightarrow> bool" where
  "el_wf (IEMoHeader e) = imei_good (m_imei_mo (m_content e))"
| "el_wf (IEMoPayload e) = (1 \<le> length (m_payload_mo (m_content e)) \<and> length (m_payload_mo (m_content e)) \<le> 1960)"
| "el_wf (IEMtHeader e) = imei_good (m_imei_mt (m_content e))"
| "el_wf (IEMtPayload e) = (1 \<le> length (m_payload_mt (m_content e)) \<and> length (m_payload_mt (m_content e)) \<le> 1890)"
| "el_wf (IEMtConfirmationMsg e) = imei_good (m_imei_conf (m_content e))"
| "el_wf _ = True"

lemma imei_good_snoc: "length bs = 15 \<Longrightarrow> imei_good (bs @ [0])"
  by (simp add: imei_good_def nth_append)

lemma MoHeader_unpack_wf:
  "IEMoHeader_unpack h e mem p sz = Some (e', n) \<Longrightarrow> n \<noteq> 0 \<Longrightarrow> imei_good (m_imei_mo (m_content e'))"
  by (auto simp: IEMoHeader_unpack_def bind_eq_Some_conv Let_def imei_good_snoc dest: rd_length
      split: if_splits)

lemma MoPayload_unpack_wf:
  "IEMoPayload_unpack h e mem p sz = Some (e', n) \<Longrightarrow> n \<noteq> 0 \<Longrightarrow>
     1 \<le> length (m_payload_mo (m_content e')) \<and> length (m_payload_mo (m_content e')) \<le> 1960"
  by (auto simp: IEMoPayload_unpack_def MoPayload_defs bind_eq_Some_conv Let_def not_less Suc_le_eq
      dest!: rd_length split: if_splits)

lemma MtHeader_unpack_wf:
  "IEMtHeader_unpack h e mem p sz = Some (e', n) \<Longrightarrow> n \<noteq> 0 \<Longrightarrow> imei_good (m_imei_mt (m_content e'))"
  by (auto simp: IEMtHeader_unpack_def bind_eq_Some_conv Let_def imei_good_snoc dest: rd_length
      split: if_splits)

lemma MtPayload_unpack_wf:
  "IEMtPayload_unpack h e mem p sz = Some (e', n) \<Longrightarrow> n \<noteq> 0 \<Longrightarrow>
     1 \<le> length (m_payload_mt (m_content e')) \<and> length (m_payload_mt (m_content e')) \<le> 1890"
  by (auto simp: IEMtPayload_unpack_def MtPayload_defs bind_eq_Some_conv Let_def not_less Suc_le_eq
      dest!: rd_length split: if_splits)

lemma MtConfirmation_unpack_wf:
  "IEMtConfirmationMsg_unpack h e mem p sz = Some (e', n) \<Longrightarrow> n \<noteq> 0 \<Longrightarrow>
     imei_good (m_imei_conf (m_content e'))"
  by (auto simp: IEMtConfirmationMsg_unpack_def bind_eq_Some_conv Let_def imei_good_snoc
      dest: rd_length split: if_splits)

lemma unpack_wf: "unpack h e mem p sz = Some (e', n) \<Longrightarrow> n \<noteq> 0 \<Longrightarrow> el_wf e'"
  by (cases e) (auto dest: MoHeader_unpack_wf MoPayload_unpack_wf MtHeader_unpack_wf
    MtPayload_unpack_wf MtConfirmation_unpack_wf)

lemma parse_elements_Inr_step:
  assumes "parse_elements h mem sz pos es = Some (Inr es')" and "pos < sz"
  obtains bs e e' n where "rd mem pos 1 = Some bs" and "IEFactory h (hd bs) = Some e"
    and "unpack h e mem (pos + 1) (of_nat (sz - (pos + 1))) = Some (e', n)" and "n \<noteq> 0"
    and "parse_elements h mem sz (pos + 1 + unat n) (es @ [e']) = Some (Inr es')"
proof -
  note eq = assms(1) [unfolded parse_elements.simps [of h mem sz pos es] if_P [OF assms(2)]]
  from eq obtain bs where bs: "rd mem pos 1 = Some bs"
    by (cases "rd mem pos 1") simp_all
  with eq obtain e where e: "IEFactory h (hd bs) = Some e"
    by (cases "IEFactory h (hd bs)") simp_all
  with eq bs obtain e' n where u: "unpack h e mem (pos + 1) (of_nat (sz - (pos + 1))) = Some (e', n)"
    by (cases "unpack h e mem (pos + 1) (of_nat (sz - (pos + 1)))") (auto simp del: of_nat_diff)
  with eq bs e have n: "n \<noteq> 0"
    by (simp del: of_nat_diff split: if_splits)
  with eq bs e u show thesis
    by (intro that [OF bs e u n]) (simp del: of_nat_diff)
qed

text \<open>The two ways the loop gives up.\<close>

lemma parse_elements_Inl:
  "parse_elements h mem sz pos es = Some (Inl err) \<Longrightarrow>
     err = ''unknown information element'' \<or> err = ''information element parse error''"
proof (induction h mem sz pos es rule: parse_elements.induct)
  case (1 h mem sz pos es)
  show ?case
  proof (cases "pos < sz")
    case False
    with "1.prems" show ?thesis by (simp add: parse_elements.simps [of h mem sz pos es])
  next
    case True
    note eq = "1.prems" [unfolded parse_elements.simps [of h mem sz pos es] if_P [OF True]]
    from eq obtain bs where bs: "rd mem pos 1 = Some bs"
      by (cases "rd mem pos 1") simp_all
    show ?thesis
    proof (cases "IEFactory h (hd bs)")
      case None
      with eq bs show ?thesis by simp
    next
      case (Some e)
      with eq bs obtain r where r: "unpack h e mem (pos + 1) (of_nat (sz - (pos + 1))) = Some r"
        by (cases "unpack h e mem (pos + 1) (of_nat (sz - (pos + 1)))") (auto simp del: of_nat_diff)
      with eq bs Some "1.IH" [OF True bs Some r] show ?thesis
        by (simp del: of_nat_diff split: if_splits)
    qed
  qed
qed

lemma parse_elements_wf:
  "parse_elements h mem sz pos es = Some (Inr es') \<Longrightarrow> \<forall>e \<in> set es. el_wf e \<and> typed e \<Longrightarrow>
     \<forall>e \<in> set es'. el_wf e \<and> typed e"
proof (induction h mem sz pos es arbitrary: es' rule: parse_elements.induct)
  case (1 h mem sz pos es)
  show ?case
  proof (cases "pos < sz")
    case False
    with "1.prems" show ?thesis by (simp add: parse_elements.simps [of h mem sz pos es])
  next
    case True
    obtain bs e e' n where r: "rd mem pos 1 = Some bs" "IEFactory h (hd bs) = Some e"
      "unpack h e mem (pos + 1) (of_nat (sz - (pos + 1))) = Some (e', n)" "n \<noteq> 0"
      "parse_elements h mem sz (pos + 1 + unat n) (es @ [e']) = Some (Inr es')"
      using "1.prems"(1) True by (rule parse_elements_Inr_step)
    have "el_wf e'"
      using r(3,4) by (rule unpack_wf)
    moreover have "typed e'"
      using unpack_typed [OF r(3)] IEFactory_typed [OF r(2)] by (simp add: typed_def)
    ultimately show ?thesis
      using "1.IH" [OF True r(1,2,3)] r(4,5) "1.prems"(2) by auto
  qed
qed

section \<open>Accessors of a parsed message\<close>

lemma find_index_find:
  "find P xs = Some a \<Longrightarrow> find_index P xs < length xs \<and> xs ! find_index P xs = a"
  by (induction xs) (auto simp: find_index_Cons split: if_splits)

lemma find_index_find_None: "find P xs = None \<longleftrightarrow> find_index P xs = length xs"
  by (auto simp: find_None_iff find_index_end_iff)

lemma find_map_sent:
  assumes "\<forall>e \<in> set es. el_packs e" and "find (\<lambda>e. getId e = i) es = Some a"
  shows "find (\<lambda>e. getId e = i) (map el_sent es) = Some (el_sent a)"
  using assms by (induction es) (auto simp: el.sent_packs split: if_splits)

lemma typed_MoHeader: "typed e \<Longrightarrow> getId e = eMoHeader \<Longrightarrow> \<exists>x. e = IEMoHeader x"
  by (cases e) (simp_all add: typed_def id_defs)

lemma typed_MoPayload: "typed e \<Longrightarrow> getId e = eMoPayload \<Longrightarrow> \<exists>x. e = IEMoPayload x"
  by (cases e) (simp_all add: typed_def id_defs)

lemma typed_MtConfirmation:
  "typed e \<Longrightarrow> getId e = eMtConfirmationMsg \<Longrightarrow> \<exists>x. e = IEMtConfirmationMsg x"
  by (cases e) (simp_all add: typed_def id_defs)

text \<open>The outcome of a successful parse, as a function of the elements.\<close>

lemma parse_Mo_Inr:
  assumes "parse_Mo h mem sz out = Some (Inr (), m)"
  obtains es where "parse_elements h mem sz 0 [] = Some (Inr es)" and "m_elements m = es"
    and "mo_header m = find_index (\<lambda>e. getId e = eMoHeader) es" and "mo_header m < length es"
    and "mo_payload m = find_index (\<lambda>e. getId e = eMoPayload) es" and "mo_payload m < length es"
proof -
  from assms obtain r where r: "parse_elements h mem sz 0 [] = Some r"
    by (cases "parse_elements h mem sz 0 []") (simp_all add: parse_Mo_def)
  with assms obtain es where es: "parse_elements h mem sz 0 [] = Some (Inr es)"
    by (cases r) (simp_all add: parse_Mo_def)
  with assms find_index_le [of "\<lambda>e. getId e = eMoHeader" es]
    find_index_le [of "\<lambda>e. getId e = eMoPayload" es]
  show thesis
    by (intro that [OF es]) (auto simp: parse_Mo_def Let_def le_less split: if_splits)
qed

lemma parse_MtConfirm_Inr:
  assumes "parse_MtConfirm h mem sz out = Some (Inr (), m)"
  obtains es where "parse_elements h mem sz 0 [] = Some (Inr es)" and "m_elements_conf m = es"
    and "m_confirmation m = find_index (\<lambda>e. getId e = eMtConfirmationMsg) es"
    and "m_confirmation m < length es"
proof -
  from assms obtain r where r: "parse_elements h mem sz 0 [] = Some r"
    by (cases "parse_elements h mem sz 0 []") (simp_all add: parse_MtConfirm_def)
  with assms obtain es where es: "parse_elements h mem sz 0 [] = Some (Inr es)"
    by (cases r) (simp_all add: parse_MtConfirm_def)
  with assms find_index_le [of "\<lambda>e. getId e = eMtConfirmationMsg" es]
  show thesis
    by (intro that [OF es]) (auto simp: parse_MtConfirm_def Let_def le_less split: if_splits)
qed

text \<open>The outcome of parsing packed elements.\<close>

lemma parse_Mo_wire:
  assumes "\<forall>e \<in> set es. el_good e \<and> typed e"
    and "find (\<lambda>e. getId e = eMoHeader) es = Some (IEMoHeader x)"
    and "find (\<lambda>e. getId e = eMoPayload) es = Some (IEMoPayload y)"
    and "length (wire_elements es) < 65536"
  shows "\<exists>m. parse_Mo h (wire_elements es @ rest) (length (wire_elements es)) out = Some (Inr (), m) \<and>
    m_elements m = map el_sent es \<and>
    MoMessage_imei m = c_str (m_imei_mo (m_content x)) \<and>
    MoMessage_payload m = Some (m_payload_mo (m_content y))"
proof -
  have packs: "\<forall>e \<in> set es. el_packs e"
    using assms(1) by (auto intro: el.good_packs)
  have p: "parse_elements h (wire_elements es @ rest) (length (wire_elements es)) 0 []
      = Some (Inr (map el_sent es))"
    using parse_elements_wire [OF assms(1), of "wire_elements es @ rest" 0 _ h "[]"] assms(4) by simp
  note H = find_index_find [OF find_map_sent [OF packs assms(2)]]
  note P = find_index_find [OF find_map_sent [OF packs assms(3)]]
  show ?thesis
    using p H P
    by (simp add: parse_Mo_def Let_def MoMessage_imei_def MoMessage_payload_def deref_def
        MoHeader_sent_def MoPayload_sent_def)
qed

lemma parse_MtConfirm_wire:
  assumes "\<forall>e \<in> set es. el_good e \<and> typed e"
    and "find (\<lambda>e. getId e = eMtConfirmationMsg) es = Some (IEMtConfirmationMsg x)"
    and "length (wire_elements es) < 65536"
  shows "\<exists>m. parse_MtConfirm h (wire_elements es @ rest) (length (wire_elements es)) out = Some (Inr (), m) \<and>
    m_elements_conf m = map el_sent es \<and>
    MtConfirmMessage_messageId m = Some (m_uniqueClientMsgId_conf (m_content x)) \<and>
    MtConfirmMessage_autoRef m = Some (m_autoIdRef (m_content x)) \<and>
    MtConfirmMessage_status m = Some (sint (m_msgStatus (m_content x))) \<and>
    MtConfirmMessage_imei m = c_str (m_imei_conf (m_content x))"
proof -
  have packs: "\<forall>e \<in> set es. el_packs e"
    using assms(1) by (auto intro: el.good_packs)
  have p: "parse_elements h (wire_elements es @ rest) (length (wire_elements es)) 0 []
      = Some (Inr (map el_sent es))"
    using parse_elements_wire [OF assms(1), of "wire_elements es @ rest" 0 _ h "[]"] assms(3) by simp
  note C = find_index_find [OF find_map_sent [OF packs assms(2)]]
  show ?thesis
    using p C
    by (simp add: parse_MtConfirm_def Let_def MtConfirmMessage_messageId_def confirmation_of_def
        MtConfirmMessage_autoRef_def MtConfirmMessage_status_def MtConfirmMessage_imei_def deref_def
        MtConfirmation_sent_def)
qed

end
