(* ===== verification/CodecProps.thy ===== *)
theory CodecProps
  imports CodecLemmas
begin

text \<open>
  The properties of the wire format: round trips, classification, error paths, memory bounds, and
  the places where the elements do not read or write what the protocol prescribes. The concrete
  inputs of the witnesses are built from the sample values below.
\<close>

section \<open>Sample values\<close>

definition sample_imei :: "byte list" where
  "sample_imei = [51, 48, 48, 49, 50, 53, 48, 54, 49, 53, 49, 49, 56, 51, 48]"

definition sample_host :: host where
  "sample_host = \<lparr>big_endian = False, char_signed = True, stale = 0xA5A5A5A5\<rparr>"

definition sample_MoHeader :: "IEMoHeaderDto ie" where
  "sample_MoHeader = new_ie eMoHeader \<lparr>m_cdrRef = 0x01020304, m_imei_mo = sample_imei @ [0],
     m_sessionStatus = 0, m_momsn = 7, m_mtmsn = 9, m_sessionTime = 0x5A5A5A5A\<rparr>"

definition sample_MoPayload :: "IEMoPayloadDto ie" where
  "sample_MoPayload = new_ie eMoPayload \<lparr>m_payload_mo = [104, 105]\<rparr>"

definition sample_MtConfirmation :: "IEMtConfirmationMsgDto ie" where
  "sample_MtConfirmation = new_ie eMtConfirmationMsg \<lparr>m_uniqueClientMsgId_conf = 42,
     m_imei_conf = sample_imei @ [0], m_autoIdRef = 99, m_msgStatus = 0xFFFB\<rparr>"

definition sample_flags :: MtMessageFlags where
  "sample_flags = MtMessageFlags_init\<lparr>assignMtmsh := True, flushMtQueue := True\<rparr>"

definition sample_Mo_wire :: "byte list" where
  "sample_Mo_wire = wire_elements [IEMoHeader sample_MoHeader, IEMoPayload sample_MoPayload]"

definition sample_conf_wire :: "byte list" where
  "sample_conf_wire = wire_elements [IEMtConfirmationMsg sample_MtConfirmation]"

lemma sample_imei_good: "imei_good (sample_imei @ [0])"
  by (simp add: imei_good_def sample_imei_def)

lemma sample_imei_c_str: "c_str (sample_imei @ [0]) = Some sample_imei"
  by (rule c_str_padded) (simp add: sample_imei_def)

lemma sample_Mo_good:
  "el_good (IEMoHeader sample_MoHeader)" "typed (IEMoHeader sample_MoHeader)"
  "el_good (IEMoPayload sample_MoPayload)" "typed (IEMoPayload sample_MoPayload)"
  "el_good (IEMtConfirmationMsg sample_MtConfirmation)" "typed (IEMtConfirmationMsg sample_MtConfirmation)"
  by (simp_all add: sample_MoHeader_def sample_MoPayload_def sample_MtConfirmation_def new_ie_def
      MoHeader_good_def MoPayload_good_def MtConfirmation_good_def sample_imei_good typed_def
      IEMoPayload_MaxPayloadLength_def)

lemmas sample_packs = el.good_packs [OF sample_Mo_good(1)] el.good_packs [OF sample_Mo_good(3)]
  el.good_packs [OF sample_Mo_good(5)]

lemma sample_ids:
  "getId (IEMoHeader sample_MoHeader) = eMoHeader" "getId (IEMoPayload sample_MoPayload) = eMoPayload"
  "getId (IEMtConfirmationMsg sample_MtConfirmation) = eMtConfirmationMsg"
  by (simp_all add: sample_MoHeader_def sample_MoPayload_def sample_MtConfirmation_def new_ie_def)

lemma sample_bodies:
  "length (el_body (IEMoHeader sample_MoHeader)) = 28" "length (el_body (IEMoPayload sample_MoPayload)) = 2"
  "length (el_body (IEMtConfirmationMsg sample_MtConfirmation)) = 25"
  using MoHeader_length_body [of sample_MoHeader] MtConfirmation_length_body [of sample_MtConfirmation]
    sample_Mo_good(1,5)
  by (simp_all add: sample_MoPayload_def MoPayload_body_def new_ie_def)

section \<open>Round trips\<close>

text \<open>C27 (round trip). Let elements be packed one after the other by a machine of any byte order,
  among them a header and a payload. Then \<open>Codec::parse\<close>, on a machine of any byte order and
  whatever bytes follow the message, accepts exactly these elements, \<open>imei()\<close> is the IMEI of the
  first header and \<open>payload()\<close> the bytes of the first payload.\<close>

theorem parse_Mo_round_trip:
  assumes "\<forall>e \<in> set es. el_good e \<and> typed e"
    and "find (\<lambda>e. getId e = eMoHeader) es = Some (IEMoHeader x)"
    and "find (\<lambda>e. getId e = eMoPayload) es = Some (IEMoPayload y)"
    and "w = fst (snd (serialize_elements hs es [] 0))" and "length w < 65536"
  shows "\<exists>m. parse_Mo h (w @ rest) (length w) out = Some (Inr (), m) \<and>
    m_elements m = map el_sent es \<and>
    MoMessage_imei m = c_str (m_imei_mo (m_content x)) \<and>
    MoMessage_payload m = Some (m_payload_mo (m_content y))"
proof -
  have "w = wire_elements es"
    using assms(1) by (subst assms(4)) (auto simp: serialize_elements_wire el.good_packs)
  with parse_Mo_wire [OF assms(1-3), of h rest out] assms(5) show ?thesis by simp
qed

theorem parse_Mo_round_trip_witness:
  "\<exists>m. parse_Mo sample_host (sample_Mo_wire @ [1, 2]) (length sample_Mo_wire) MoMessage_init
       = Some (Inr (), m) \<and>
     MoMessage_imei m = Some sample_imei \<and> MoMessage_payload m = Some [104, 105]"
proof -
  let ?es = "[IEMoHeader sample_MoHeader, IEMoPayload sample_MoPayload]"
  let ?w = "wire_elements ?es"
  have s: "?w = fst (snd (serialize_elements sample_host ?es [] 0))"
    by (subst serialize_elements_wire) (simp_all add: sample_packs del: el_packs.simps)
  have "\<exists>m. parse_Mo sample_host (?w @ [1, 2]) (length ?w) MoMessage_init = Some (Inr (), m) \<and>
    m_elements m = map el_sent ?es \<and>
    MoMessage_imei m = c_str (m_imei_mo (m_content sample_MoHeader)) \<and>
    MoMessage_payload m = Some (m_payload_mo (m_content sample_MoPayload))"
    by (rule parse_Mo_round_trip [OF _ _ _ s])
      (simp_all add: sample_Mo_good sample_ids sample_bodies id_defs
        del: el_good.simps getId.simps el_body.simps)
  then show ?thesis
    by (auto simp: sample_Mo_wire_def sample_imei_c_str sample_MoHeader_def sample_MoPayload_def new_ie_def)
qed

text \<open>C32 (round trip). The same for the confirmation of the gateway: the message identifier, the
  reference, the signed status and the IMEI of the first confirmation element come back.\<close>

theorem parse_MtConfirm_round_trip:
  assumes "\<forall>e \<in> set es. el_good e \<and> typed e"
    and "find (\<lambda>e. getId e = eMtConfirmationMsg) es = Some (IEMtConfirmationMsg x)"
    and "w = fst (snd (serialize_elements hs es [] 0))" and "length w < 65536"
  shows "\<exists>m. parse_MtConfirm h (w @ rest) (length w) out = Some (Inr (), m) \<and>
    m_elements_conf m = map el_sent es \<and>
    MtConfirmMessage_messageId m = Some (m_uniqueClientMsgId_conf (m_content x)) \<and>
    MtConfirmMessage_autoRef m = Some (m_autoIdRef (m_content x)) \<and>
    MtConfirmMessage_status m = Some (sint (m_msgStatus (m_content x))) \<and>
    MtConfirmMessage_imei m = c_str (m_imei_conf (m_content x))"
proof -
  have "w = wire_elements es"
    using assms(1) by (subst assms(3)) (auto simp: serialize_elements_wire el.good_packs)
  with parse_MtConfirm_wire [OF assms(1,2), of h rest out] assms(4) show ?thesis by simp
qed

theorem parse_MtConfirm_round_trip_witness:
  "\<exists>m. parse_MtConfirm sample_host (sample_conf_wire @ [0]) (length sample_conf_wire)
       MtConfirmMessage_init = Some (Inr (), m) \<and>
     MtConfirmMessage_status m = Some (-5) \<and> MtConfirmMessage_messageId m = Some 42"
proof -
  let ?es = "[IEMtConfirmationMsg sample_MtConfirmation]"
  let ?w = "wire_elements ?es"
  have s: "?w = fst (snd (serialize_elements sample_host ?es [] 0))"
    by (subst serialize_elements_wire) (simp_all add: sample_packs del: el_packs.simps)
  have "\<exists>m. parse_MtConfirm sample_host (?w @ [0]) (length ?w) MtConfirmMessage_init = Some (Inr (), m) \<and>
    m_elements_conf m = map el_sent ?es \<and>
    MtConfirmMessage_messageId m = Some (m_uniqueClientMsgId_conf (m_content sample_MtConfirmation)) \<and>
    MtConfirmMessage_autoRef m = Some (m_autoIdRef (m_content sample_MtConfirmation)) \<and>
    MtConfirmMessage_status m = Some (sint (m_msgStatus (m_content sample_MtConfirmation))) \<and>
    MtConfirmMessage_imei m = c_str (m_imei_conf (m_content sample_MtConfirmation))"
    by (rule parse_MtConfirm_round_trip [OF _ _ s])
      (simp_all add: sample_Mo_good sample_ids sample_bodies
        del: el_good.simps getId.simps el_body.simps)
  then show ?thesis
    by (auto simp: sample_conf_wire_def sample_MtConfirmation_def new_ie_def)
qed

section \<open>Classification\<close>

text \<open>C33 (functional). \<open>messageCategory\<close> on any sequence of framed elements, with bodies of any
  length a frame can announce, decides by the identifiers alone: all of them mobile originated, all
  of them confirmations, all of them other mobile terminated ones; the empty sequence and every
  mixture are unknown.\<close>

theorem messageCategory_frames:
  assumes "\<forall>(i, b) \<in> set fs. length b < 65536"
  shows "messageCategory h (frames fs @ rest) (length (frames fs)) = Some (category_spec (map fst fs))"
  by (rule messageCategory_frames_eq [OF assms])

theorem messageCategory_frames_witness:
  "messageCategory sample_host (frames [(1, [7, 7]), (2, [])] @ [0]) 8 = Some eMoMessage \<and>
   messageCategory sample_host (frames [(0x44, [7]), (0x42, [])] @ [0]) 7 = Some eUnknownMessage"
  using messageCategory_frames [of "[(1, [7, 7]), (2, [])]" sample_host "[0]"]
    messageCategory_frames [of "[(0x44, [7]), (0x42, [])]" sample_host "[0]"]
  by (simp add: category_spec_def IsMoElem_def IsMtConfirm_def IsMtElem_def id_defs)

text \<open>On every input at all, well formed or not, the classification is the same on
  machines of either byte order, undefined behaviour included.\<close>

theorem messageCategory_host_independent:
  "messageCategory h mem sz = messageCategory h' mem sz"
  by (simp add: messageCategory_def category_loop_host [of h mem sz 0 _ h'])

text \<open>The classification and the factory of the elements disagree on exactly two
  identifiers, 0x04 and 0x43: a message may pass \<open>messageCategory\<close> with them, and \<open>parse\<close> then fails
  with \<open>unknown information element\<close>.\<close>

theorem accepted_but_unknown_ids:
  "(IsMoElem i \<or> IsMtElem i) \<and> IEFactory h i = None \<longleftrightarrow> i = 0x04 \<or> i = 0x43"
  unfolding IEFactory_None IsMoElem_def IsMtElem_def id_defs
  by (simp add: word_le_nat_alt word_unat_eq_iff) arith

end
