(* ===== verification/CodecErrors.thy ===== *)
theory CodecErrors
  imports CodecProps
begin

text \<open>
  Memory bounds and error paths of the codec: how far the readers may read past the size they are
  given, what a message holds after an exception, and the elements whose reader or writer departs
  from the declared length.
\<close>

section \<open>How far the readers read\<close>

text \<open>C35 (safety). The size argument does not bound the reads of the codec, but three readable bytes
  behind the message do: on every input, however malformed, \<open>messageCategory\<close> and both \<open>parse\<close>
  functions return a value or throw, and never read further than that.\<close>

theorem codec_reads_at_most_3_past:
  assumes "sz + 3 \<le> length mem"
  shows "messageCategory h mem sz \<noteq> None \<and> parse_Mo h mem sz out \<noteq> None \<and>
    parse_MtConfirm h mem sz out' \<noteq> None"
proof -
  obtain r where r: "parse_elements h mem sz 0 [] = Some r"
    using parse_elements_safe [OF assms, of h 0 "[]"] by (auto simp: not_None_eq)
  have "messageCategory h mem sz \<noteq> None"
    unfolding messageCategory_def by (rule category_loop_safe) (use assms in auto)
  with r show ?thesis
    by (cases r) (auto simp: parse_Mo_def parse_MtConfirm_def Let_def)
qed

theorem codec_reads_at_most_3_past_witness:
  "messageCategory sample_host [0x42, 0xFF, 0, 0] 1 \<noteq> None"
  using codec_reads_at_most_3_past [of 1 "[0x42, 0xFF, 0, 0]" sample_host MoMessage_init MtConfirmMessage_init]
  by simp

text \<open>The bound of a payload element is checked without the two bytes of its length
  field: for every announced length \<open>n\<close> from 1 to 1960, an element that has only \<open>n\<close> or \<open>n + 1\<close> bytes
  left of the message is accepted, and when the memory ends with the message its copy reads one or
  two bytes outside (\<open>IEMoPayload::unpack\<close>).\<close>

theorem payload_unpack_overreads:
  assumes "1 \<le> n" and "n \<le> 1960" and "sz = of_nat n \<or> sz = of_nat (n + 1)"
    and "length mem = p + unat sz" and "2 \<le> unat sz" and "wire_at mem p (be16 (of_nat n))"
  shows "IEMoPayload_unpack h e mem p sz = None"
proof -
  have n: "unat (of_nat n :: u16) = n" "unat (of_nat (n + 1) :: u16) = n + 1"
    using assms(2) by (simp_all only: unat_of_nat_u16)
  then have sz: "n \<le> unat sz" "unat sz \<le> n + 1"
    using assms(3) by auto
  show ?thesis
    using assms sz n(1) rd_within(2) [OF assms(6), of 2]
    by (auto simp: IEMoPayload_unpack_def IEMoPayload_MaxPayloadLength_def Let_def ntohs_be16 rd_def
        split: if_splits)
qed

theorem payload_unpack_overreads_witness:
  "IEMoPayload_unpack sample_host sample_MoPayload [2, 0, 3, 104] 1 3 = None"
  by (rule payload_unpack_overreads [of 3]) (simp_all add: wire_at_def be16_def)

section \<open>The location information\<close>

text \<open>Whenever \<open>IEMoLocationInfo::unpack\<close> accepts an element, it has consumed 16
  bytes; the two bytes of the length field and the 11 bytes it has just checked that field for are
  13. The parser is then three bytes into the next element.\<close>

theorem location_unpack_consumes_16:
  assumes "IEMoLocationInfo_unpack h e mem p sz = Some (e', n)" and "n \<noteq> 0"
  shows "n = 16 \<and> unat (m_length e') = 11 \<and> p + 16 \<le> length mem"
  using assms
  by (auto simp: IEMoLocationInfo_unpack_def IEMoLocationInfo_ElementLength_def bind_eq_Some_conv
      Let_def rd_def split: if_splits)

theorem location_unpack_consumes_16_witness:
  "\<exists>e'. IEMoLocationInfo_unpack sample_host (IEMoLocationInfo_new sample_host)
      (be16 11 @ replicate 14 7) 0 16 = Some (e', 16) \<and> unat (m_length e') = 11"
proof -
  have "wire_at (be16 11 @ replicate 14 7) 0 (be16 11)" by simp
  from MoLocation_unpack_11 [OF this, of 16 sample_host "IEMoLocationInfo_new sample_host"]
  obtain e' where e': "IEMoLocationInfo_unpack sample_host (IEMoLocationInfo_new sample_host)
      (be16 11 @ replicate 14 7) 0 16 = Some (e', 16)"
    by auto
  then show ?thesis
    using location_unpack_consumes_16 [OF e'] by auto
qed

lemma location_last_parse:
  assumes "\<forall>e \<in> set es. el_good e \<and> typed e" and "list_all IsMoElem (map getId es)"
    and "length loc = 11" and "w = wire_elements es @ framed eMoLocationInfo loc"
    and "length w < 65536"
  shows "messageCategory h (w @ [0]) (length w) = Some eMoMessage \<and>
    parse_Mo h (w @ [0]) (length w) out = None"
proof -
  let ?p = "length (wire_elements es)"
  have len: "length w = ?p + 14"
    using assms(3) by (simp add: assms(4))
  let ?fs = "map (\<lambda>e. (getId e, el_body e)) es @ [(eMoLocationInfo, loc)]"
  have w: "w = frames ?fs"
    by (simp add: assms(4) wire_elements_frames frames_def)
  have b: "\<forall>(i, b) \<in> set ?fs. length b < 65536"
    using assms(1,3) el.body_bounds [OF el.good_packs] by force
  have ids: "map fst ?fs = map getId es @ [eMoLocationInfo]"
    by (simp add: comp_def)
  have "category_spec (map fst ?fs) = eMoMessage"
    unfolding ids using assms(2) by (simp add: category_spec_def IsMoElem_def id_defs)
  with messageCategory_frames_eq [OF b, of h "[0]"]
  have cat: "messageCategory h (w @ [0]) (length w) = Some eMoMessage"
    by (simp add: w)
  have at: "wire_at (w @ [0]) 0 (wire_elements es)" "wire_at (w @ [0]) ?p [eMoLocationInfo]"
    "wire_at (w @ [0]) (?p + 1) (be16 11)"
    using wire_at_0 [of "wire_elements es @ [eMoLocationInfo] @ be16 11 @ loc" "[0]"] assms(3)
    by (simp_all only: wire_at_append) (simp_all add: assms(4) framed_def)
  have left: "13 \<le> unat (of_nat (length w - (?p + 1)) :: u16)"
    using assms(5) len by (subst unat_of_nat_u16) auto
  have "IEMoLocationInfo_unpack h e (w @ [0]) (?p + 1) (of_nat (length w - (?p + 1))) = None" for e
    using MoLocation_unpack_11 [OF at(3) left, of h e] len by (simp del: of_nat_diff)
  then have "parse_elements h (w @ [0]) (length w) ?p acc = None" for acc
    using rd_wire [OF at(2), of 1] len
    by (subst parse_elements.simps) (simp add: IEFactory_def id_defs del: of_nat_diff)
  moreover have "parse_elements h (w @ [0]) (length w) 0 []
      = parse_elements h (w @ [0]) (length w) (0 + ?p) ([] @ map el_sent es)"
    by (rule parse_elements_step [OF assms(1) at(1)]) (use assms(5) len in simp_all)
  ultimately show ?thesis
    using cat by (simp add: parse_Mo_def)
qed

text \<open>A mobile originated message of well-formed elements that ends with a location
  element of the protocol's form (identifier 3, length 11, 11 bytes) is classified as such, but
  \<open>parse\<close> reads past its end, even counting the NUL that \<open>std::string\<close> keeps behind its characters:
  every such message is undefined behaviour.\<close>

theorem location_last_overreads:
  assumes "\<forall>e \<in> set es. el_good e \<and> typed e" and "list_all IsMoElem (map getId es)"
    and "length loc = 11" and "w = wire_elements es @ framed eMoLocationInfo loc"
    and "length w < 65536"
  shows "messageCategory h (w @ [0]) (length w) = Some eMoMessage \<and>
    parse_Mo h (w @ [0]) (length w) out = None"
  by (rule location_last_parse [OF assms])

theorem location_last_overreads_witness:
  "parse_Mo sample_host ((sample_Mo_wire @ framed eMoLocationInfo (replicate 11 7)) @ [0])
     (length (sample_Mo_wire @ framed eMoLocationInfo (replicate 11 7))) MoMessage_init = None"
  using location_last_overreads [of "[IEMoHeader sample_MoHeader, IEMoPayload sample_MoPayload]"
      "replicate 11 7" "sample_Mo_wire @ framed eMoLocationInfo (replicate 11 7)" sample_host MoMessage_init]
  by (simp add: sample_Mo_good sample_ids sample_bodies sample_Mo_wire_def IsMoElem_def id_defs
      del: el_good.simps getId.simps el_body.simps)

lemma bit_u16_beyond: "16 \<le> n \<Longrightarrow> \<not> bit (w :: u16) n"
  using bit_imp_le_length [of w n] by auto

text \<open>\<open>IEMoLocationInfo::packInto\<close> announces a length of 11 and appends 14 bytes; on
  a little-endian machine the last four, the radius, are its low 16 bits in network byte order
  followed by two zero bytes instead of the 32-bit value.\<close>

theorem location_pack_layout:
  assumes "m_id e = eMoLocationInfo"
  shows "\<exists>body. snd (IEMoLocationInfo_packInto h e raw) = raw @ eMoLocationInfo # be16 11 @ body \<and>
    length body = 14 \<and>
    (\<not> big_endian h \<longrightarrow> drop 10 body = be16 (ucast (m_cepRadius (m_content e))) @ [0, 0])"
proof -
  have s: "store h 4 (ucast (htons h w) :: u32) = be16 w @ [0, 0]" if "\<not> big_endian h" for w
  proof -
    have "store h 4 (ucast (htons h w) :: u32) = store h 2 (htons h w) @ [0, 0]"
      using that by (simp add: store_def bytes_le_4 bytes_le_2) (auto intro!: bit_word_eqI simp: bit_simps bit_u16_beyond)
    then show ?thesis by (simp add: store_htons)
  qed
  let ?c = "m_content e"
  let ?body = "store h 4 (m_flags ?c) @ [m_latitude ?c] @ store h 2 (htons h (m_latitudeMinutes ?c)) @
    [m_longitude ?c] @ store h 2 (htons h (m_longitudeMinutes ?c)) @
    store h 4 (ucast (htons h (ucast (m_cepRadius ?c))) :: u32)"
  show ?thesis
    by (rule exI [of _ ?body])
      (simp add: IEMoLocationInfo_packInto_def InformationElement_packInto_def Let_def assms store_htons
        IEMoLocationInfo_ElementLength_def s)
qed

theorem location_pack_layout_witness:
  "\<exists>body. snd (IEMoLocationInfo_packInto sample_host (IEMoLocationInfo_new sample_host) [])
     = eMoLocationInfo # be16 11 @ body \<and> length body = 14"
  using location_pack_layout [of "IEMoLocationInfo_new sample_host" sample_host "[]"]
  by (auto simp: IEMoLocationInfo_new_def new_ie_def)

section \<open>What a message holds after parsing\<close>

text \<open>After a \<open>parse\<close> that did not throw, on any input, the accessors of the message are
  defined: the iterators are valid, the casts hit objects of the right class, the IMEI has at most
  15 characters and the payload between 1 and 1960 bytes.\<close>

lemma parsed_Mo_accessors:
  assumes "parse_Mo h mem sz out = Some (Inr (), m)"
  shows "\<exists>im pl. MoMessage_imei m = Some im \<and> length im \<le> 15 \<and>
    MoMessage_payload m = Some pl \<and> 1 \<le> length pl \<and> length pl \<le> 1960"
proof -
  from assms obtain es where es: "parse_elements h mem sz 0 [] = Some (Inr es)" "m_elements m = es"
    and H: "mo_header m = find_index (\<lambda>e. getId e = eMoHeader) es" "mo_header m < length es"
    and P: "mo_payload m = find_index (\<lambda>e. getId e = eMoPayload) es" "mo_payload m < length es"
    by (rule parse_Mo_Inr)
  have wf: "el_wf e \<and> typed e" if "e \<in> set es" for e
    using parse_elements_wf [OF es(1)] that by simp
  have idH: "getId (es ! mo_header m) = eMoHeader"
    using find_index_nth [of "\<lambda>e. getId e = eMoHeader" es] H by simp
  have idP: "getId (es ! mo_payload m) = eMoPayload"
    using find_index_nth [of "\<lambda>e. getId e = eMoPayload" es] P by simp
  obtain x where x: "es ! mo_header m = IEMoHeader x"
    using typed_MoHeader [OF _ idH] wf [OF nth_mem [OF H(2)]] by blast
  obtain y where y: "es ! mo_payload m = IEMoPayload y"
    using typed_MoPayload [OF _ idP] wf [OF nth_mem [OF P(2)]] by blast
  obtain ds where ds: "length ds = 15" "m_imei_mo (m_content x) = ds @ [0]"
    using wf [OF nth_mem [OF H(2)]] by (auto simp: x imei_good_split)
  have "length (takeWhile (\<lambda>b. b \<noteq> 0) (ds @ [0])) \<le> 15"
    using ds(1) length_takeWhile_le [of "\<lambda>b. b \<noteq> 0" ds] by (simp add: takeWhile_append)
  then show ?thesis
    using wf [OF nth_mem [OF P(2)]] H(2) P(2)
    by (simp add: MoMessage_imei_def MoMessage_payload_def deref_def es(2) x y ds c_str_def)
qed

theorem parsed_Mo_accessors_sample:
  "\<exists>m im. parse_Mo sample_host (sample_Mo_wire @ [1, 2]) (length sample_Mo_wire) MoMessage_init
       = Some (Inr (), m) \<and> MoMessage_imei m = Some im \<and> length im \<le> 15"
proof -
  let ?es = "[IEMoHeader sample_MoHeader, IEMoPayload sample_MoPayload]"
  have "parse_elements sample_host (sample_Mo_wire @ [1, 2]) (length sample_Mo_wire) 0 []
      = Some (Inr ([] @ map el_sent ?es))"
    by (rule parse_elements_wire) (simp_all add: sample_Mo_good sample_bodies sample_Mo_wire_def
        wire_at_def del: el_good.simps el_body.simps)
  then obtain m where m: "parse_Mo sample_host (sample_Mo_wire @ [1, 2]) (length sample_Mo_wire)
      MoMessage_init = Some (Inr (), m)"
    by (simp add: parse_Mo_def Let_def find_index_Cons sample_MoHeader_def sample_MoPayload_def
        new_ie_def id_defs MoHeader_sent_def MoPayload_sent_def)
  from m parsed_Mo_accessors [OF m] show ?thesis by auto
qed

text \<open>An exception leaves the message without elements. After an error of the loop the
  accessors return empty values; after \<open>no payload found\<close> the payload iterator still points behind
  the elements that were cleared, and \<open>payload()\<close> dereferences it.\<close>

theorem parse_Mo_after_error:
  assumes "parse_Mo h mem sz out = Some (Inl err, m)"
  shows "m_elements m = [] \<and>
    (err = ''unknown information element'' \<or> err = ''information element parse error'' \<longrightarrow>
       MoMessage_imei m = Some [] \<and> MoMessage_payload m = Some []) \<and>
    (err = ''no payload found'' \<longrightarrow> MoMessage_payload m = None)"
proof -
  from assms obtain r where r: "parse_elements h mem sz 0 [] = Some r"
    by (cases "parse_elements h mem sz 0 []") (simp_all add: parse_Mo_def)
  show ?thesis
  proof (cases r)
    case (Inl e)
    have "e = ''unknown information element'' \<or> e = ''information element parse error''"
      using parse_elements_Inl [of h mem sz 0 "[]" e] r Inl by simp
    with assms r Inl show ?thesis
      by (auto simp: parse_Mo_def MoMessage_imei_def MoMessage_payload_def)
  next
    case (Inr es)
    have "find_index (\<lambda>e. getId e = eMoHeader) es \<noteq> length es \<Longrightarrow> es \<noteq> []"
      by auto
    with assms r Inr show ?thesis
      by (auto simp: parse_Mo_def Let_def MoMessage_payload_def deref_def split: if_splits)
  qed
qed

theorem parse_Mo_after_error_witness:
  "\<exists>m. parse_Mo sample_host ([4, 0, 1, 9] @ [0]) 4 MoMessage_init
       = Some (Inl ''unknown information element'', m) \<and> MoMessage_payload m = Some []"
proof -
  have "parse_elements sample_host ([4, 0, 1, 9] @ [0]) 4 0 [] = Some (Inl ''unknown information element'')"
    by (subst parse_elements.simps) (simp add: rd_def IEFactory_def id_defs)
  then obtain m where m: "parse_Mo sample_host ([4, 0, 1, 9] @ [0]) 4 MoMessage_init
      = Some (Inl ''unknown information element'', m)"
    by (simp add: parse_Mo_def)
  from m parse_Mo_after_error [OF m] show ?thesis by auto
qed

end
