(* ===== verification/FactoryProps.thy ===== *)
theory FactoryProps
  imports CodecErrors
begin

text \<open>
  Mobile terminated messages from \<open>Codec::factory\<close> to the bytes that \<open>MtMessage::serialize\<close> puts on
  the wire.
\<close>

section \<open>Helper lemmas\<close>

lemma digits_no_NUL: "\<forall>c \<in> set imei. digit c \<Longrightarrow> (0 :: byte) \<notin> set imei"
  by (auto simp: digit_def)

lemma digit_not_negative: "digit c \<Longrightarrow> 0 \<le> char_int h c"
  by (auto simp: digit_def char_int_value word_le_def)

lemma char_int_negative_iff: "char_int h c < - 1 \<longleftrightarrow> char_signed h \<and> 0x80 \<le> c \<and> c \<noteq> 0xFF"
proof -
  have "\<not> uint c < - 1" "uint c < 256"
    using uint_nonnegative [of c] uint_bounded [of c] by (linarith, simp)
  then show ?thesis by (auto simp: char_int_value word_le_def word_uint_eq_iff)
qed

text \<open>The loop stops at the first character that is no digit, if there is one.\<close>

lemma all_digits_find:
  "all_digits h imei = (case find (\<lambda>c. \<not> digit c) imei of
     None \<Rightarrow> Some True
   | Some c \<Rightarrow> if char_int h c < - 1 then None else Some False)"
  by (induction imei) (auto simp: isdigit_def dest: digit_not_negative [of _ h])

lemma find_None_digits: "find (\<lambda>c. \<not> digit c) imei = None \<longleftrightarrow> (\<forall>c \<in> set imei. digit c)"
  by (auto simp: find_None_iff)

lemma factory_ok:
  assumes "length imei = 15" and "\<forall>c \<in> set imei. digit c" and "1 \<le> sz" and "sz \<le> 1890"
    and "sz \<le> length payload"
  shows "factory h out msgId imei (Some payload) sz flags priority =
    Some (Inr (), out\<lparr>m_elements := factory_elements msgId imei (take sz payload) flags priority,
      mt_header := 0, mt_payload := 1, mt_priority := 2\<rparr>)"
  using assms find_None_digits [of imei]
  by (simp add: factory_def all_digits_find IEMtPayload_MaxPayloadLength_def rd_def Let_def factory_elements_def
      find_index_Cons IEMtHeader_new_def IEMtPayload_new_def IEMtPriority_new_def new_ie_def id_defs)

lemma factory_elements_packs:
  assumes "length imei = 15" and "1 \<le> length pl" and "length pl \<le> 1890"
  shows "\<forall>e \<in> set (factory_elements msgId imei pl flags priority). el_packs e"
  using assms
  by (simp add: factory_elements_def MtHeader_packs_def MtPayload_good_def imei_good_snoc
      IEMtPayload_MaxPayloadLength_def)

lemma factory_elements_wire:
  assumes "length imei = 15"
  shows "wire_elements (factory_elements msgId imei pl flags priority) =
    framed eMtHeader (be32 msgId @ imei @ be16 (MtMessageFlags_get flags)) @
    framed eMtPayload pl @ framed eMtMsgPriority (be16 (clamp_priority priority))"
  using assms
  by (simp add: factory_elements_def wire_element_def MtHeader_body_def MtPayload_body_def
      MtPriority_body_def Let_def IEMtHeader_new_def IEMtPayload_new_def IEMtPriority_new_def new_ie_def)

section \<open>Properties\<close>

text \<open>C28 (functional). For a 15-digit IMEI and a payload of 1 to 1890 bytes \<open>factory\<close> succeeds, the
  accessors of the message return what went in, and \<open>serialize\<close> emits, on every machine, exactly the
  frame of the protocol: protocol number 1, the overall length, the header with identifier, IMEI and
  flags, the payload and the priority, replaced by 5 unless it is 1 to 5; at most 1925 bytes.\<close>

theorem factory_serialize_wire:
  assumes "length imei = 15" and "\<forall>c \<in> set imei. digit c" and "1 \<le> sz" and "sz \<le> 1890"
    and "sz \<le> length payload"
  shows "\<exists>m. factory h' out msgId imei (Some payload) sz flags priority = Some (Inr (), m) \<and>
    MtMessage_imei m = Some imei \<and> MtMessage_payload m = Some (take sz payload) \<and>
    snd (MtMessage_serialize h m) =
      1 # be16 (of_nat (sz + 32)) @
      (0x41 # be16 21 @ be32 msgId @ imei @ be16 (MtMessageFlags_get flags)) @
      (0x42 # be16 (of_nat sz) @ take sz payload) @
      (0x46 # be16 2 @ be16 (if 1 \<le> priority \<and> priority \<le> 5 then priority else 5)) \<and>
    length (snd (MtMessage_serialize h m)) \<le> 1925"
proof -
  let ?es = "factory_elements msgId imei (take sz payload) flags priority"
  let ?m = "out\<lparr>m_elements := ?es, mt_header := 0, mt_payload := 1, mt_priority := 2\<rparr>"
  have packs: "\<forall>e \<in> set (m_elements ?m). el_packs e"
    using factory_elements_packs [of imei "take sz payload" msgId flags priority] assms by simp
  have acc: "MtMessage_imei ?m = Some imei" "MtMessage_payload ?m = Some (take sz payload)"
    using c_str_padded [OF digits_no_NUL [OF assms(2)], of "[]"]
    by (simp_all add: MtMessage_imei_def MtMessage_payload_def deref_def factory_elements_def)
  have len: "length (wire_elements ?es) = sz + 32"
    using assms(1,5) by (simp add: factory_elements_wire [OF assms(1)])
  have w: "snd (MtMessage_serialize h ?m) = 1 # be16 (of_nat (sz + 32)) @
      (0x41 # be16 21 @ be32 msgId @ imei @ be16 (MtMessageFlags_get flags)) @
      (0x42 # be16 (of_nat sz) @ take sz payload) @
      (0x46 # be16 2 @ be16 (if 1 \<le> priority \<and> priority \<le> 5 then priority else 5))"
  proof -
    have "snd (MtMessage_serialize h ?m)
        = SbdProtoNumber # be16 (of_nat (length (wire_elements ?es))) @ wire_elements ?es"
      using serialize_wire [OF packs, of h] by simp
    then show ?thesis
      unfolding len using assms(1,5)
      by (simp add: factory_elements_wire [OF assms(1)] framed_def id_defs SbdProtoNumber_def
          clamp_priority_def)
  qed
  show ?thesis
    using factory_ok [OF assms, of h'] acc w assms(1,4,5) by auto
qed

theorem factory_serialize_wire_witness:
  "\<exists>m. factory sample_host MtMessage_init 1 sample_imei (Some [104, 105, 0]) 2 sample_flags 9 = Some (Inr (), m) \<and>
     MtMessage_payload m = Some [104, 105] \<and>
     drop 28 (snd (MtMessage_serialize sample_host m)) = [0, 2, 104, 105, 0x46, 0, 2, 0, 5]"
proof -
  have "\<forall>c \<in> set sample_imei. digit c"
    by (simp add: sample_imei_def digit_def)
  from factory_serialize_wire [OF _ this, of 2 "[104, 105, 0]" sample_host MtMessage_init 1 sample_flags 9 sample_host]
  show ?thesis
    by (auto simp: sample_imei_def be16_def be32_def)
qed

text \<open>C29 (error). \<open>factory\<close> on every argument. It returns exactly on an IMEI of 15 digits and a payload of 1
  to 1890 bytes. Else it throws, the text that belongs to the first of its tests that fails, and has not
  touched the message. Just two calls have no defined outcome: with a size that exceeds the memory behind
  \<open>payload\<close>, and on machines with signed characters when the first character of the IMEI that is no digit is
  one from 0x80 to 0xFE.\<close>

theorem factory_errors:
  "((\<exists>m. factory h out msgId imei payload sz flags priority = Some (Inr (), m)) \<longleftrightarrow>
      length imei = 15 \<and> list_all digit imei \<and> 1 \<le> sz \<and> sz \<le> 1890 \<and>
      (\<exists>p. payload = Some p \<and> sz \<le> length p)) \<and>
   (factory h out msgId imei payload sz flags priority = Some (Inl err, m) \<longleftrightarrow>
      m = out \<and>
      (err = ''invalid IMEI size'' \<and> length imei \<noteq> 15 \<or>
       err = ''bad IMEI'' \<and> length imei = 15 \<and>
         (\<exists>c. find (\<lambda>c. \<not> digit c) imei = Some c \<and> (char_signed h \<longrightarrow> c < 0x80 \<or> c = 0xFF)) \<or>
       err = ''no payload'' \<and> length imei = 15 \<and> list_all digit imei \<and> (payload = None \<or> sz = 0) \<or>
       err = ''payload too large'' \<and> length imei = 15 \<and> list_all digit imei \<and> payload \<noteq> None \<and> 1890 < sz)) \<and>
   (factory h out msgId imei payload sz flags priority = None \<longleftrightarrow>
      length imei = 15 \<and>
      ((\<exists>c. find (\<lambda>c. \<not> digit c) imei = Some c \<and> char_signed h \<and> 0x80 \<le> c \<and> c \<noteq> 0xFF) \<or>
       list_all digit imei \<and> 1 \<le> sz \<and> sz \<le> 1890 \<and> (\<exists>p. payload = Some p \<and> length p < sz)))"
proof (cases "length imei = 15")
  case False
  then show ?thesis by (simp add: factory_def) blast
next
  case len: True
  show ?thesis
  proof (cases "find (\<lambda>c. \<not> digit c) imei")
    case None
    then have d: "all_digits h imei = Some True" "list_all digit imei"
      using find_None_digits [of imei] by (simp_all add: all_digits_find list_all_iff)
    consider "payload = None \<or> sz = 0" | p where "payload = Some p" "1 \<le> sz" "1890 < sz"
      | p where "payload = Some p" "1 \<le> sz" "sz \<le> 1890" by fastforce
    then show ?thesis
      by cases (auto simp: factory_def len d None IEMtPayload_MaxPayloadLength_def rd_def Let_def)
  next
    case (Some c)
    then have "\<not> list_all digit imei" using find_None_digits [of imei] by (auto simp: list_all_iff)
    with Some show ?thesis
      by (auto simp: factory_def len all_digits_find char_int_negative_iff)
  qed
qed

theorem factory_errors_witness:
  "factory x86 MtMessage_init 1 (take 14 sample_imei @ [0x80]) (Some [1]) 1 sample_flags 5 = None \<and>
   factory x86 MtMessage_init 1 (97 # tl sample_imei) (Some [1]) 1 sample_flags 5 = Some (Inl ''bad IMEI'', MtMessage_init)"
proof -
  have 1: "find (\<lambda>c. \<not> digit c) (take 14 sample_imei @ [0x80]) = Some 0x80"
    by (simp add: sample_imei_def digit_def)
  have 2: "find (\<lambda>c. \<not> digit c) (97 # tl sample_imei) = Some 97"
    by (simp add: digit_def)
  from factory_errors [of x86 MtMessage_init 1 "take 14 sample_imei @ [0x80]" "Some [1]" 1 sample_flags 5]
    factory_errors [of x86 MtMessage_init 1 "97 # tl sample_imei" "Some [1]" 1 sample_flags 5 "''bad IMEI''" MtMessage_init] 1 2
  show ?thesis by (simp add: x86_def sample_imei_def)
qed

text \<open>The overall length in the message header is the number of bytes that follow it,
  for every message of packing elements that fits the 16-bit field.\<close>

theorem serialize_header_length:
  assumes "\<forall>e \<in> set (m_elements m). el_packs e" and "length (snd (MtMessage_serialize h m)) < 65539"
  shows "unat (ntohs h' (load h' (take 2 (drop 1 (snd (MtMessage_serialize h m)))))) + 3
    = length (snd (MtMessage_serialize h m))"
proof -
  have "length (wire_elements (m_elements m)) < 65536"
    using assms(2) by (simp add: serialize_wire [OF assms(1)])
  then show ?thesis
    by (simp add: serialize_wire [OF assms(1)] ntohs_be16 unat_of_nat_u16)
qed

theorem serialize_header_length_witness:
  "unat (ntohs sample_host (load sample_host (take 2 (drop 1 (snd (MtMessage_serialize sample_host
     (MtMessage_init\<lparr>m_elements := factory_elements 1 sample_imei [104] sample_flags 5\<rparr>))))))) + 3
   = length (snd (MtMessage_serialize sample_host
     (MtMessage_init\<lparr>m_elements := factory_elements 1 sample_imei [104] sample_flags 5\<rparr>)))"
proof -
  have p: "\<forall>e \<in> set (factory_elements 1 sample_imei [104] sample_flags 5). el_packs e"
    by (rule factory_elements_packs) (simp_all add: sample_imei_def)
  show ?thesis
    by (rule serialize_header_length)
      (use p in \<open>simp_all add: serialize_wire factory_elements_wire sample_imei_def\<close>)
qed

text \<open>Serialising is repeatable: a message that was serialised once, on any machine,
  serialises to the same bytes again and is not changed by it, so a message that is returned to the
  queue is sent unchanged.\<close>

theorem serialize_repeatable:
  assumes "\<forall>e \<in> set (m_elements m). el_packs e"
  shows "MtMessage_serialize h' (fst (MtMessage_serialize h m)) = MtMessage_serialize h m"
proof -
  let ?m' = "m\<lparr>m_elements := map el_sent (m_elements m)\<rparr>"
  have "\<forall>e \<in> set (m_elements ?m'). el_packs e"
    using map_el_sent_packs [OF assms] by simp
  from serialize_wire [OF this, of h'] show ?thesis
    using assms
    by (simp add: serialize_wire [OF assms] wire_elements_sent [OF assms] el.sent_packs)
qed

theorem serialize_repeatable_witness:
  "MtMessage_serialize sample_host (fst (MtMessage_serialize sample_host
     (MtMessage_init\<lparr>m_elements := factory_elements 1 sample_imei [104] sample_flags 9\<rparr>)))
   = MtMessage_serialize sample_host
     (MtMessage_init\<lparr>m_elements := factory_elements 1 sample_imei [104] sample_flags 9\<rparr>)"
proof -
  have p: "\<forall>e \<in> set (factory_elements 1 sample_imei [104] sample_flags 9). el_packs e"
    by (rule factory_elements_packs) (simp_all add: sample_imei_def)
  show ?thesis
    by (rule serialize_repeatable) (use p in simp)
qed

text \<open>The disposition flags do not survive their own round trip: whatever flags a
  header was packed with, \<open>IEMtHeader::unpack\<close> of its bytes, on a machine of either byte order, finds
  all five named flags cleared, and everything else as it was packed.\<close>

theorem flags_lost_in_round_trip:
  assumes "imei_good (m_imei_mt (m_content e))" and "23 \<le> unat sz"
  shows "\<exists>e'. IEMtHeader_unpack h IEMtHeader_new
      (snd (IEMtHeader_packInto hs (e\<lparr>m_id := eMtHeader\<rparr>) raw) @ rest) (length raw + 1) sz = Some (e', 23) \<and>
    m_uniqueClientMsgId (m_content e') = m_uniqueClientMsgId (m_content e) \<and>
    m_imei_mt (m_content e') = m_imei_mt (m_content e) \<and>
    \<not> flushMtQueue (m_dispositionFlags (m_content e')) \<and>
    \<not> sendRingAlert (m_dispositionFlags (m_content e')) \<and>
    \<not> updateSsdLocation (m_dispositionFlags (m_content e')) \<and>
    \<not> highPriority (m_dispositionFlags (m_content e')) \<and>
    \<not> assignMtmsh (m_dispositionFlags (m_content e'))"
proof -
  let ?e = "e\<lparr>m_id := eMtHeader\<rparr>"
  let ?w = "MtMessageFlags_get (m_dispositionFlags (m_content e))"
  have pk: "MtHeader_packs ?e" using assms(1) by (simp add: MtHeader_packs_def)
  have "wire_at (snd (IEMtHeader_packInto hs ?e raw) @ rest) (length raw + 1)
      (be16 (of_nat (length (MtHeader_body ?e))) @ MtHeader_body ?e)"
    using wire_at_prefix [of "raw @ [eMtHeader]" "be16 (of_nat (length (MtHeader_body ?e))) @ MtHeader_body ?e" rest]
    by (simp add: MtHeader_pack [OF pk] framed_def)
  from MtHeader_unpack_wire [OF pk _ this] assms(2)
  have u: "IEMtHeader_unpack h IEMtHeader_new
      (snd (IEMtHeader_packInto hs ?e raw) @ rest) (length raw + 1) sz =
    Some (?e\<lparr>m_length := 21, m_content := (m_content e)\<lparr>m_dispositionFlags :=
      MtMessageFlags_of_storage h (load h (be16 ?w))\<rparr>\<rparr>, 23)"
    by (simp add: MtHeader_length_body [OF pk] IEMtHeader_new_def new_ie_def)
  have hi: "\<not> bit ?w k" if "6 \<le> k" for k
  proof -
    have "(2 :: nat) ^ 6 \<le> 2 ^ k"
      using that by (rule power_increasing) simp
    then have "unat ?w < 2 ^ k"
      using MtMessageFlags_get_small [of "m_dispositionFlags (m_content e)"] by simp
    then have "\<not> bit (unat ?w) k"
      by (simp add: bit_iff_odd)
    then show ?thesis
      by (simp add: bit_unsigned_iff)
  qed
  have lo: "\<not> bit (load h (be16 ?w) :: u16) k"
    if "if big_endian h then 10 \<le> k else k < 8" for k
    using that by (auto simp: load_def bit_word_le be16_def bit_simps hi nth_Cons' split: if_splits)
  show ?thesis
    by (intro exI conjI, rule u) (simp_all add: MtMessageFlags_of_storage_def lo)
qed

theorem flags_lost_in_round_trip_witness:
  "\<exists>e'. IEMtHeader_unpack sample_host IEMtHeader_new
      (snd (IEMtHeader_packInto sample_host (IEMtHeader_new\<lparr>m_content :=
        \<lparr>m_uniqueClientMsgId = 1, m_imei_mt = sample_imei @ [0], m_dispositionFlags = sample_flags\<rparr>\<rparr>) []) @ [])
      1 23 = Some (e', 23) \<and>
    assignMtmsh sample_flags \<and> \<not> assignMtmsh (m_dispositionFlags (m_content e'))"
  using flags_lost_in_round_trip [of "IEMtHeader_new\<lparr>m_content :=
      \<lparr>m_uniqueClientMsgId = 1, m_imei_mt = sample_imei @ [0], m_dispositionFlags = sample_flags\<rparr>\<rparr>"
      23 sample_host sample_host "[]" "[]"]
  by (auto simp: sample_imei_good IEMtHeader_new_def new_ie_def sample_flags_def)

end
