(* ===== verification/JobUnitQueue.thy ===== *)
theory JobUnitQueue
  imports Prelude
begin

text \<open>
  include/iridium/JobUnitQueue.hpp: the queue of jobs between the threads. Every method holds the
  mutex for its whole body, so a method is one atomic step on the list. \<open>wait_for\<close> releases the mutex
  while it sleeps; whether its wait ends by the timeout or by a notification (or spuriously) is
  decided by the environment and given as an argument.

  The locale \<open>fifo_queue\<close> is the contract that the transmitter relies on: a queue at whose front an
  element can be put back.
\<close>

record 'j job_queue =
  jobs :: "'j list"

definition queue_new :: "'j job_queue" where
  "queue_new = \<lparr>jobs = []\<rparr>"

definition put :: "'j job_queue \<Rightarrow> 'j \<Rightarrow> 'j job_queue" where
  "put q job = q\<lparr>jobs := jobs q @ [job]\<rparr>"

text \<open>\<open>dflt\<close> is the job that the default constructor makes.\<close>

definition get :: "'j \<Rightarrow> 'j job_queue \<Rightarrow> 'j \<times> 'j job_queue" where
  "get dflt q = (case jobs q of [] \<Rightarrow> (dflt, q) | j # js \<Rightarrow> (j, q\<lparr>jobs := js\<rparr>))"

definition unget :: "'j job_queue \<Rightarrow> 'j \<Rightarrow> 'j job_queue" where
  "unget q job = q\<lparr>jobs := job # jobs q\<rparr>"

definition wait_for :: "bool \<Rightarrow> 'j job_queue \<Rightarrow> bool" where
  "wait_for timed_out q = (if jobs q \<noteq> [] then False else timed_out)"

definition clear :: "'j job_queue \<Rightarrow> 'j job_queue" where
  "clear q = q\<lparr>jobs := []\<rparr>"

definition queue_size :: "'j job_queue \<Rightarrow> nat" where
  "queue_size q = length (jobs q)"

section \<open>The contract\<close>

locale fifo_queue =
  fixes items :: "'q \<Rightarrow> 'j list"
    and fresh :: 'q
    and enq :: "'q \<Rightarrow> 'j \<Rightarrow> 'q"
    and deq :: "'j \<Rightarrow> 'q \<Rightarrow> 'j \<times> 'q"
    and push_back :: "'q \<Rightarrow> 'j \<Rightarrow> 'q"
    and wipe :: "'q \<Rightarrow> 'q"
  assumes items_fresh: "items fresh = []"
    and items_enq: "items (enq q j) = items q @ [j]"
    and items_deq: "deq d q = (j, q') \<Longrightarrow>
      (if items q = [] then j = d \<and> items q' = [] else items q = j # items q')"
    and items_push_back: "items (push_back q j) = j # items q"
    and items_wipe: "items (wipe q) = []"
begin

text \<open>A job that was taken from a non-empty queue and returned leaves it as it was.\<close>

lemma deq_push_back: "items q \<noteq> [] \<Longrightarrow> items (push_back (snd (deq d q)) (fst (deq d q))) = items q"
  using items_deq [of d q "fst (deq d q)" "snd (deq d q)"] by (simp add: items_push_back)

text \<open>What was put first is taken first, whatever is put meanwhile.\<close>

lemma items_enq_all: "items (foldl enq q js) = items q @ js"
  by (induction js arbitrary: q) (simp_all add: items_enq)

lemma deq_after_enq_all:
  "items q = j # js' \<Longrightarrow> fst (deq d (foldl enq q js)) = j \<and> items (snd (deq d (foldl enq q js))) = js' @ js"
  using items_deq [of d "foldl enq q js" "fst (deq d (foldl enq q js))" "snd (deq d (foldl enq q js))"]
  by (simp add: items_enq_all)

text \<open>The conservation law: taking loses nothing, except that an empty queue invents the default.\<close>

lemma deq_conserves:
  "filter P (fst (deq d q) # items (snd (deq d q))) = filter P (items q)" if "\<not> P d"
  using that items_deq [of d q "fst (deq d q)" "snd (deq d q)"] by (auto split: if_splits)

end

interpretation jq: fifo_queue jobs queue_new put get unget clear
  by unfold_locales
    (auto simp: queue_new_def put_def get_def unget_def clear_def split: list.splits)

lemma wait_for_True: "wait_for t q \<longleftrightarrow> t \<and> jobs q = []"
  by (simp add: wait_for_def)

end
