(* ===== verification/MessageStore.thy ===== *)
theory MessageStore
  imports FactoryProps CodecProps JobUnitQueue
begin

text \<open>
  Messages as objects in memory (include/iridium/Message.hpp, src/Message.cpp). In the rest of the
  development a message is a value and its iterators are positions in its own vector. Here a vector and
  the elements it points to are objects of a store, and an iterator belongs to the vector it was taken
  from: this shows what copying a message does, which the classes leave to the compiler.
\<close>

section \<open>The store\<close>

text \<open>\<open>vectors\<close> has the identities of the elements of every vector that is alive, \<open>objects\<close> the elements,
  which \<open>shared_ptr\<close> keeps alive.\<close>

record heap =
  vectors :: "nat \<Rightarrow> nat list option"
  objects :: "nat \<Rightarrow> element option"

text \<open>An object of \<open>MoMessage\<close> or \<open>MtMessage\<close>: its vector and its three iterators, the last of which points to
  the location or to the priority.\<close>

type_synonym iter = "nat \<times> nat"

record message_object =
  own_vector :: nat
  header_it :: iter
  payload_it :: iter
  third_it :: iter

text \<open>Iterators of different vectors may not be compared, those of a vector that is gone neither compared nor
  dereferenced.\<close>

definition iter_end :: "heap \<Rightarrow> nat \<Rightarrow> iter option" where
  "iter_end H v = map_option (\<lambda>es. (v, length es)) (vectors H v)"

definition iter_eq :: "iter \<Rightarrow> iter \<Rightarrow> bool option" where
  "iter_eq i j = (if fst i = fst j then Some (snd i = snd j) else None)"

definition iter_deref :: "heap \<Rightarrow> iter \<Rightarrow> element option" where
  "iter_deref H i = do {
     es \<leftarrow> vectors H (fst i);
     (if snd i < length es then objects H (es ! snd i) else None) }"

section \<open>The special members\<close>

definition set_vector :: "nat \<Rightarrow> nat list option \<Rightarrow> heap \<Rightarrow> heap" where
  "set_vector v x H = H\<lparr>vectors := (vectors H)(v := x)\<rparr>"

lemma set_vector_simps [simp]:
  "vectors (set_vector v x H) w = (if w = v then x else vectors H w)" "objects (set_vector v x H) = objects H"
  by (simp_all add: set_vector_def)

text \<open>The default constructor, the implicit copy constructor, the implicit copy assignment and the
  destructor; \<open>v\<close> is where the new vector is.\<close>

definition new_message :: "nat \<Rightarrow> heap \<Rightarrow> message_object \<times> heap" where
  "new_message v H =
     (\<lparr>own_vector = v, header_it = (v, 0), payload_it = (v, 0), third_it = (v, 0)\<rparr>, set_vector v (Some []) H)"

definition copy_message :: "nat \<Rightarrow> message_object \<Rightarrow> heap \<Rightarrow> message_object \<times> heap" where
  "copy_message v m H = (m\<lparr>own_vector := v\<rparr>, set_vector v (vectors H (own_vector m)) H)"

definition assign_message :: "message_object \<Rightarrow> message_object \<Rightarrow> heap \<Rightarrow> message_object \<times> heap" where
  "assign_message dst src H =
     (src\<lparr>own_vector := own_vector dst\<rparr>, set_vector (own_vector dst) (vectors H (own_vector src)) H)"

definition destroy_message :: "message_object \<Rightarrow> heap \<Rightarrow> heap" where
  "destroy_message m H = set_vector (own_vector m) None H"

section \<open>The accessors\<close>

definition access :: "heap \<Rightarrow> message_object \<Rightarrow> iter \<Rightarrow> (element \<Rightarrow> byte list option) \<Rightarrow> byte list option" where
  "access H m it get_value = do {
     e \<leftarrow> iter_end H (own_vector m);
     at_end \<leftarrow> iter_eq it e;
     (if at_end then Some [] else do { x \<leftarrow> iter_deref H it; get_value x }) }"

definition MoMessage_imei_at :: "heap \<Rightarrow> message_object \<Rightarrow> byte list option" where
  "MoMessage_imei_at H m =
     access H m (header_it m) (\<lambda>e. do { x \<leftarrow> as_MoHeader e; c_str (m_imei_mo (m_content x)) })"

definition MoMessage_payload_at :: "heap \<Rightarrow> message_object \<Rightarrow> byte list option" where
  "MoMessage_payload_at H m =
     access H m (payload_it m) (\<lambda>e. do { x \<leftarrow> as_MoPayload e; Some (m_payload_mo (m_content x)) })"

definition MtMessage_imei_at :: "heap \<Rightarrow> message_object \<Rightarrow> byte list option" where
  "MtMessage_imei_at H m =
     access H m (header_it m) (\<lambda>e. do { x \<leftarrow> as_MtHeader e; c_str (m_imei_mt (m_content x)) })"

definition MtMessage_payload_at :: "heap \<Rightarrow> message_object \<Rightarrow> byte list option" where
  "MtMessage_payload_at H m =
     access H m (payload_it m) (\<lambda>e. do { x \<leftarrow> as_MtPayload e; Some (m_payload_mt (m_content x)) })"

text \<open>\<open>serialize\<close> changes the elements where they are, so for every message that shares them. No element is
  in a vector twice.\<close>

fun store_objects :: "nat list \<Rightarrow> element list \<Rightarrow> heap \<Rightarrow> heap" where
  "store_objects (i # is') (e # es) H = store_objects is' es (H\<lparr>objects := (objects H)(i \<mapsto> e)\<rparr>)"
| "store_objects _ _ H = H"

definition elements_at :: "heap \<Rightarrow> nat \<Rightarrow> element list option" where
  "elements_at H v = do { ids \<leftarrow> vectors H v; those (map (objects H) ids) }"

definition MtMessage_serialize_at :: "host \<Rightarrow> message_object \<Rightarrow> heap \<Rightarrow> (byte list \<times> heap) option" where
  "MtMessage_serialize_at h m H = do {
     ids \<leftarrow> vectors H (own_vector m);
     es \<leftarrow> elements_at H (own_vector m);
     (let (m', out) = MtMessage_serialize h (MtMessage_init\<lparr>m_elements := es\<rparr>)
      in Some (out, store_objects ids (m_elements m') H)) }"

section \<open>Iterators into a vector of their own and into another\<close>

definition iterators_own :: "message_object \<Rightarrow> bool" where
  "iterators_own m \<longleftrightarrow> fst (header_it m) = own_vector m \<and> fst (payload_it m) = own_vector m \<and> fst (third_it m) = own_vector m"

definition as_Mt :: "message_object \<Rightarrow> element list \<Rightarrow> MtMessage" where
  "as_Mt m es = \<lparr>m_elements = es, mt_header = snd (header_it m), mt_payload = snd (payload_it m), mt_priority = snd (third_it m)\<rparr>"

lemma those_nth: "those (map f xs) = Some ys \<Longrightarrow> length ys = length xs \<and> (\<forall>i < length xs. f (xs ! i) = Some (ys ! i))"
proof (induction xs arbitrary: ys)
  case (Cons x xs)
  then obtain y ys' where "f x = Some y" "those (map f xs) = Some ys'" "ys = y # ys'"
    by (auto split: option.splits)
  with Cons.IH show ?case by (auto simp: nth_Cons split: nat.splits)
qed simp

lemma access_own:
  assumes "elements_at H (own_vector m) = Some es" and "fst it = own_vector m"
  shows "access H m it f = (if snd it = length es then Some [] else do { e \<leftarrow> deref es (snd it); f e })"
proof -
  from assms(1) obtain ids where ids: "vectors H (own_vector m) = Some ids" "those (map (objects H) ids) = Some es"
    by (auto simp: elements_at_def split: bind_splits)
  from those_nth [OF ids(2)] ids(1) assms(2) show ?thesis
    by (auto simp: access_def iter_end_def iter_eq_def iter_deref_def deref_def)
qed

lemma access_foreign: "fst it \<noteq> own_vector m \<Longrightarrow> access H m it f = None"
  by (auto simp: access_def iter_end_def iter_eq_def split: bind_split)

text \<open>A message of the elements that \<open>factory\<close> makes, in a store of its own.\<close>

definition sample_elements :: "element list" where
  "sample_elements = factory_elements 7 (replicate 15 48) [104, 105] MtMessageFlags_init 5"

definition sample_heap :: heap where
  "sample_heap = \<lparr>vectors = [0 \<mapsto> [0, 1, 2]], objects = \<lambda>i. if i < 3 then Some (sample_elements ! i) else None\<rparr>"

definition sample_object :: message_object where
  "sample_object = \<lparr>own_vector = 0, header_it = (0, 0), payload_it = (0, 1), third_it = (0, 2)\<rparr>"

lemma sample_object_ok:
  "iterators_own sample_object" "elements_at sample_heap (own_vector sample_object) = Some sample_elements"
  "vectors sample_heap (own_vector sample_object) = Some [0, 1, 2]" "\<forall>e \<in> set sample_elements. el_packs e"
proof -
  show "iterators_own sample_object" by (simp add: iterators_own_def sample_object_def)
  show "vectors sample_heap (own_vector sample_object) = Some [0, 1, 2]" by (simp add: sample_heap_def sample_object_def)
  have "[sample_elements ! 0, sample_elements ! 1, sample_elements ! 2] = sample_elements"
    by (simp add: sample_elements_def factory_elements_def numeral_2_eq_2)
  then show "elements_at sample_heap (own_vector sample_object) = Some sample_elements"
    by (simp add: elements_at_def sample_heap_def sample_object_def)
  show "\<forall>e \<in> set sample_elements. el_packs e"
    unfolding sample_elements_def by (rule factory_elements_packs) simp_all
qed

section \<open>Copies\<close>

text \<open>A copy of a message is not a message of its own: its iterators stay those of the original, so
  that every accessor of the copy has undefined behaviour, of an empty message too, whether or not the
  original still exists. The original is as before.\<close>

theorem copied_message_accessors:
  assumes "iterators_own m" and "elements_at H (own_vector m) = Some es" and "vectors H v = None"
    and "copy_message v m H = (c, H')"
  shows "elements_at H' (own_vector c) = Some es \<and>
    MoMessage_imei_at H' c = None \<and> MoMessage_payload_at H' c = None \<and>
    MtMessage_imei_at H' c = None \<and> MtMessage_payload_at H' c = None \<and>
    MtMessage_imei_at (destroy_message m H') c = None \<and> MtMessage_payload_at (destroy_message m H') c = None \<and>
    MoMessage_imei_at H' m = MoMessage_imei_at H m \<and> MtMessage_imei_at H' m = MtMessage_imei_at H m \<and>
    MoMessage_payload_at H' m = MoMessage_payload_at H m \<and> MtMessage_payload_at H' m = MtMessage_payload_at H m"
proof -
  have v: "v \<noteq> own_vector m" using assms(2,3) by (auto simp: elements_at_def)
  have c: "c = m\<lparr>own_vector := v\<rparr>" "H' = set_vector v (vectors H (own_vector m)) H"
    using assms(4) by (simp_all add: copy_message_def)
  have es: "elements_at H' (own_vector m) = Some es" "elements_at H' (own_vector c) = Some es"
    using assms(2) v by (simp_all add: c elements_at_def)
  have foreign: "access H'' c it f = None" if "it = header_it m \<or> it = payload_it m" for H'' it f
    by (rule access_foreign) (use that v assms(1) c(1) in \<open>auto simp: iterators_own_def\<close>)
  have same: "access H' m it f = access H m it f" if "it = header_it m \<or> it = payload_it m" for it f
  proof -
    from that assms(1) have "fst it = own_vector m" by (auto simp: iterators_own_def)
    then show ?thesis by (simp add: access_own [OF es(1)] access_own [OF assms(2)])
  qed
  show ?thesis
    using es(2) foreign same
    by (simp add: MoMessage_imei_at_def MoMessage_payload_at_def MtMessage_imei_at_def MtMessage_payload_at_def c(1))
qed

theorem copied_message_accessors_witness:
  "\<exists>c H'. copy_message 1 sample_object sample_heap = (c, H') \<and> elements_at H' (own_vector c) = Some sample_elements \<and>
     MtMessage_payload_at H' c = None \<and> MtMessage_payload_at H' sample_object = MtMessage_payload_at sample_heap sample_object"
proof -
  obtain c H' where c: "copy_message 1 sample_object sample_heap = (c, H')" by fastforce
  have "vectors sample_heap 1 = None" by (simp add: sample_heap_def)
  from copied_message_accessors [OF sample_object_ok(1,2) this c] c show ?thesis by blast
qed

text \<open>A message on its way from the client to the socket: \<open>put\<close> copies it, the client's own is gone, \<open>get\<close> assigns
  the front of the queue to a local and pops it, and the result is assigned to \<open>m_sendingMessage\<close>.\<close>

definition hand_over :: "nat \<Rightarrow> nat \<Rightarrow> message_object \<Rightarrow> message_object \<Rightarrow> heap \<Rightarrow> message_object \<times> heap" where
  "hand_over v1 v2 sending m H =
     (let (queued, H) = copy_message v1 m H;
          H = destroy_message m H;
          (job, H) = new_message v2 H;
          (job, H) = assign_message job queued H;
          H = destroy_message queued H;
          (sending, H) = assign_message sending job H
      in (sending, destroy_message job H))"

lemma store_objects_frame: "vectors (store_objects ids es H) = vectors H"
  by (induction ids es H rule: store_objects.induct) simp_all

lemma store_objects_other: "i \<notin> set ids \<Longrightarrow> objects (store_objects ids es H) i = objects H i"
  by (induction ids es H rule: store_objects.induct) auto

lemma store_objects_those:
  "distinct ids \<Longrightarrow> length es = length ids \<Longrightarrow> those (map (objects (store_objects ids es H)) ids) = Some es"
  by (induction ids es H rule: store_objects.induct) (auto simp: store_objects_other)

lemma serialize_at_wire:
  assumes "vectors H (own_vector m) = Some ids" and "distinct ids" and "elements_at H (own_vector m) = Some es"
    and "\<forall>e \<in> set es. el_packs e"
  shows "\<exists>H'. MtMessage_serialize_at h m H = Some (SbdProtoNumber # be16 (of_nat (length (wire_elements es))) @ wire_elements es, H') \<and>
    vectors H' = vectors H \<and> (\<forall>v. vectors H v = Some ids \<longrightarrow> elements_at H' v = Some (map el_sent es))"
proof -
  have "those (map (objects H) ids) = Some es" using assms(1,3) by (simp add: elements_at_def)
  from those_nth [OF this] have l: "length es = length ids" by simp
  show ?thesis
    using assms(1,3,4) serialize_wire [of "MtMessage_init\<lparr>m_elements := es\<rparr>" h]
      store_objects_those [OF assms(2), of "map el_sent es" H] l
    by (auto simp: MtMessage_serialize_at_def store_objects_frame elements_at_def)
qed

lemma hand_over_result:
  assumes "hand_over v1 v2 sending m H = (s, H')" and "distinct [own_vector m, own_vector sending, v1, v2]"
  shows "s = m\<lparr>own_vector := own_vector sending\<rparr>" and "objects H' = objects H"
    and "vectors H' (own_vector sending) = vectors H (own_vector m)" and "vectors H' (own_vector m) = None"
  using assms
  by (auto simp: hand_over_def copy_message_def assign_message_def new_message_def destroy_message_def)

text \<open>C31 (safety). The transmitter is not harmed by that: of the message that arrives in \<open>m_sendingMessage\<close> it uses
  just the elements, which are those the client put into its message; what goes over the wire is the same,
  although the client's message and the queue's copy are gone and no accessor of the one that is sent
  may be called.\<close>

theorem handed_over_message_is_sent:
  assumes "vectors H (own_vector m) = Some ids" and "distinct ids" and "elements_at H (own_vector m) = Some es"
    and "\<forall>e \<in> set es. el_packs e" and "iterators_own m"
    and "distinct [own_vector m, own_vector sending, v1, v2]" and "hand_over v1 v2 sending m H = (s, H')"
  shows "\<exists>H''. MtMessage_serialize_at h s H' =
      Some (SbdProtoNumber # be16 (of_nat (length (wire_elements es))) @ wire_elements es, H'') \<and>
    snd (MtMessage_serialize h (as_Mt m es)) = SbdProtoNumber # be16 (of_nat (length (wire_elements es))) @ wire_elements es \<and>
    MtMessage_imei_at H' s = None \<and> MtMessage_payload_at H' s = None \<and> vectors H' (own_vector m) = None"
proof -
  note H' = hand_over_result [OF assms(7,6)]
  have es: "elements_at H' (own_vector s) = Some es" and ids: "vectors H' (own_vector s) = Some ids"
    using assms(1,3) H' by (simp_all add: elements_at_def)
  from serialize_at_wire [OF ids assms(2) es assms(4), of h] obtain H'' where
    "MtMessage_serialize_at h s H' = Some (SbdProtoNumber # be16 (of_nat (length (wire_elements es))) @ wire_elements es, H'')"
    by blast
  moreover have "MtMessage_imei_at H' s = None" "MtMessage_payload_at H' s = None"
    unfolding MtMessage_imei_at_def MtMessage_payload_at_def
    using assms(5,6) by (auto simp: H'(1) iterators_own_def intro!: access_foreign)
  moreover have "snd (MtMessage_serialize h (as_Mt m es)) = SbdProtoNumber # be16 (of_nat (length (wire_elements es))) @ wire_elements es"
    using serialize_wire [of "as_Mt m es" h] assms(4) by (simp add: as_Mt_def)
  ultimately show ?thesis using H'(4) by blast
qed

theorem handed_over_message_is_sent_witness:
  "\<exists>s H' H''. hand_over 1 2 (sample_object\<lparr>own_vector := 3\<rparr>) sample_object sample_heap = (s, H') \<and>
     MtMessage_serialize_at sample_host s H' = Some (SbdProtoNumber # be16 (of_nat (length (wire_elements sample_elements))) @
       wire_elements sample_elements, H'') \<and> vectors H' 0 = None"
proof -
  obtain s H' where s: "hand_over 1 2 (sample_object\<lparr>own_vector := 3\<rparr>) sample_object sample_heap = (s, H')" by fastforce
  have d: "distinct [own_vector sample_object, own_vector (sample_object\<lparr>own_vector := 3\<rparr>), 1, 2]" "own_vector sample_object = 0"
    by (simp_all add: sample_object_def)
  from handed_over_message_is_sent [OF sample_object_ok(3) _ sample_object_ok(2,4,1) d(1) s, of sample_host] s d(2)
  show ?thesis by auto
qed

end
