(* ===== verification/Transmitter.thy ===== *)
theory Transmitter
  imports JobUnitQueue Codec
begin

text \<open>
  include/iridium/SbdTransmitter.hpp and src/SbdTransmitter.cpp: the state machine that takes mobile
  terminated messages from the queue and delivers each of them to the gateway in a session of its
  own.

  The members of the class are the record \<open>tx\<close>. Boost.Asio is not modelled: an asynchronous call
  records the operation in \<open>pending\<close>, and its completion handler is a function of the result the
  library reports. What the transmitter shows to the outside (emitted signals, bytes handed to
  \<open>async_write\<close>, closing the socket) is appended to \<open>log\<close>. \<open>StateMachine\<close> and the handlers are partial
  because they parse received bytes: \<^term>\<open>None\<close> is undefined behaviour.
\<close>

section \<open>States\<close>

datatype State = eNotConnected | eResolving | eConnecting | eSending | eReceivingHeader
  | eReceivingConfirmation | eProcessingConfirmation | eError | eSuccess

fun state_number :: "State \<Rightarrow> nat" where
  "state_number eNotConnected = 0"
| "state_number eResolving = 1"
| "state_number eConnecting = 2"
| "state_number eSending = 3"
| "state_number eReceivingHeader = 4"
| "state_number eReceivingConfirmation = 5"
| "state_number eProcessingConfirmation = 6"
| "state_number eError = 7"
| "state_number eSuccess = 8"

lemma state_number_inj: "state_number s = state_number t \<Longrightarrow> s = t"
  by (cases s; cases t) simp_all

text \<open>The code compares states as the numbers of the enumeration.\<close>

instantiation State :: linorder
begin

definition less_eq_State :: "State \<Rightarrow> State \<Rightarrow> bool" where
  "less_eq_State s t \<longleftrightarrow> state_number s \<le> state_number t"

definition less_State :: "State \<Rightarrow> State \<Rightarrow> bool" where
  "less_State s t \<longleftrightarrow> state_number s < state_number t"

instance
  by standard (auto simp: less_eq_State_def less_State_def dest: state_number_inj)

end

section \<open>The state of a transmitter\<close>

text \<open>Asynchronous operations, with the bytes to write, the size of the buffer to read into, or the
  milliseconds to wait.\<close>

datatype async_op = OpResolve | OpConnect "string list" | OpWrite "byte list"
  | OpReadHeader nat | OpReadConfirmation nat | OpTimer nat

text \<open>What a completion handler is told: the operation was cancelled, it failed with the message of
  its error code, or it succeeded.\<close>

datatype 'a io = Aborted | Failed string | Completed 'a

datatype tx_event = OnError string | OnTransmitResult int | Written "byte list" | SocketClosed

text \<open>The worker thread: not running; before its first statement; at the test of the loop; in
  \<open>wait_for\<close>; behind it, about to enter \<open>eResolving\<close>.\<close>

datatype worker_pc = NoThread | Starting | Looping | Waiting | Entering

record tx =
  m_host :: string
  m_port :: string
  m_running :: bool
  m_shutdown :: bool
  m_errDelay :: u16
  m_messageQueue :: "MtMessage job_queue"
  m_prevState :: State
  m_state :: State
  m_sendingMessage :: MtMessage
  m_buf :: "byte list option"
  m_confirmationLength :: u16
  m_sentinel :: bool
  m_rIterator :: "string list"
  sock_open :: bool
  sock_peer :: bool
  thread :: worker_pc
  pending :: "async_op list"
  cancelled :: "async_op list"
  log :: "tx_event list"

definition Heartbeat :: nat where
  "Heartbeat = 100"

definition MaxDelay :: u16 where
  "MaxDelay = 64"

definition SbdTransmitter_new :: "string \<Rightarrow> string \<Rightarrow> tx" where
  "SbdTransmitter_new host port =
     \<lparr>m_host = host, m_port = port, m_running = False, m_shutdown = False, m_errDelay = 1,
      m_messageQueue = queue_new, m_prevState = eNotConnected, m_state = eNotConnected,
      m_sendingMessage = MtMessage_init, m_buf = None, m_confirmationLength = 0,
      m_sentinel = False, m_rIterator = [], sock_open = False, sock_peer = False,
      thread = NoThread, pending = [], cancelled = [], log = []\<rparr>"

definition emit :: "tx_event \<Rightarrow> tx \<Rightarrow> tx" where
  "emit ev s = s\<lparr>log := log s @ [ev]\<rparr>"

definition launch :: "async_op \<Rightarrow> tx \<Rightarrow> tx" where
  "launch op s = s\<lparr>pending := pending s @ [op]\<rparr>"

text \<open>\<open>m_prevState = m_state; m_state = st;\<close>\<close>

definition enter :: "State \<Rightarrow> tx \<Rightarrow> tx" where
  "enter st s = s\<lparr>m_prevState := m_state s, m_state := st\<rparr>"

section \<open>The state machine\<close>

text \<open>\<open>remote_endpoint\<close> fails when the socket has no peer, and then nothing is closed. The two
  exceptions are swallowed, and \<open>close()\<close> releases the descriptor even when it reports an error.\<close>

definition closeSocket :: "tx \<Rightarrow> tx" where
  "closeSocket s =
     (if sock_peer s then emit SocketClosed (s\<lparr>sock_open := False, sock_peer := False\<rparr>) else s)"

text \<open>The case \<open>eProcessingConfirmation\<close> up to the transition: the new state and whether the
  transition is to \<open>eSuccess\<close> (else to \<open>eError\<close>). The received bytes are copied to a
  \<open>std::string\<close>, which keeps a NUL behind them.\<close>

definition process_confirmation :: "host \<Rightarrow> tx \<Rightarrow> (bool \<times> tx) option" where
  "process_confirmation h s = do {
     received \<leftarrow> m_buf s;
     buf \<leftarrow> rd received 0 (unat (m_confirmationLength s));
     msgCategory \<leftarrow> messageCategory h (buf @ [0]) (unat (m_confirmationLength s));
     (if msgCategory \<noteq> eMtConfirmMessage then
        Some (False, emit (OnError (''receive confirmation error: '' @
          (if msgCategory \<noteq> eUnknownMessage then ''unexpected '' else '''') @
          categoryStr msgCategory @ [CHR 0x0A])) s)
      else do {
        (r, confirmation) \<leftarrow>
          parse_MtConfirm h (buf @ [0]) (unat (m_confirmationLength s)) MtConfirmMessage_init;
        (case r of
           Inl e \<Rightarrow> Some (False, emit (OnError (''confirmation parse error: '' @ e)) s)
         | Inr _ \<Rightarrow> do {
             let s = s\<lparr>m_buf := Some (drop (unat (m_confirmationLength s)) received)\<rparr>;
             status \<leftarrow> MtConfirmMessage_status confirmation;
             let s = emit (OnTransmitResult status) s;
             (if status < 0 then Some (False, s)
              else
                let left = length received - unat (m_confirmationLength s);
                    s = (if left > 0
                         then emit (OnError (show_nat left @ '' unexpected bytes received'')) s
                         else s)
                in Some (True, s\<lparr>m_errDelay := 1\<rparr>))
           })
      })
   }"

text \<open>The cases \<open>eError\<close> and \<open>eSuccess\<close>, the latter up to the call of the machine.\<close>

definition error_state :: "tx \<Rightarrow> tx" where
  "error_state s =
     (let s = (if m_prevState s \<ge> eSending
               then s\<lparr>m_messageQueue := unget (m_messageQueue s) (m_sendingMessage s)\<rparr> else s);
          s = (if m_prevState s > eConnecting then closeSocket s else s)
      in launch (OpTimer (Heartbeat * unat (m_errDelay s))) s)"

definition success_state :: "tx \<Rightarrow> tx" where
  "success_state s = enter eNotConnected (closeSocket s)"

text \<open>How far a state is from one that only waits: the machine calls itself for these transitions.\<close>

fun sm_rank :: "State \<Rightarrow> nat" where
  "sm_rank eReceivingConfirmation = 3"
| "sm_rank eProcessingConfirmation = 2"
| "sm_rank eSuccess = 1"
| "sm_rank _ = 0"

function StateMachine :: "host \<Rightarrow> tx \<Rightarrow> tx option" where
  "StateMachine h s =
     (case m_state s of
        eNotConnected \<Rightarrow>
          Some (s\<lparr>m_buf := None, m_confirmationLength := 0, m_sentinel := False\<rparr>)
      | eResolving \<Rightarrow> Some (launch OpResolve (s\<lparr>m_sentinel := True\<rparr>))
      | eConnecting \<Rightarrow>
          Some (launch (OpConnect (m_rIterator s)) (s\<lparr>sock_open := True, sock_peer := False\<rparr>))
      | eSending \<Rightarrow>
          (let (message, queue) = get MtMessage_init (m_messageQueue s);
               (message, buf) = MtMessage_serialize h message
           in Some (launch (OpWrite buf) (emit (Written buf) (s\<lparr>m_messageQueue := queue,
                m_sendingMessage := message, m_buf := Some buf\<rparr>))))
      | eReceivingHeader \<Rightarrow>
          Some (launch (OpReadHeader (unat MoMessage_MaxMessageSize)) (s\<lparr>m_buf := Some []\<rparr>))
      | eReceivingConfirmation \<Rightarrow>
          do { received \<leftarrow> m_buf s;
               (if length received < unat (m_confirmationLength s)
                then Some (launch (OpReadConfirmation (unat (m_confirmationLength s))) s)
                else StateMachine h (enter eProcessingConfirmation s)) }
      | eProcessingConfirmation \<Rightarrow>
          do { (ok, s') \<leftarrow> process_confirmation h s;
               StateMachine h (enter (if ok then eSuccess else eError) s') }
      | eError \<Rightarrow> Some (error_state s)
      | eSuccess \<Rightarrow> StateMachine h (success_state s))"
  by pat_completeness auto
termination
  by (relation "measure (\<lambda>(h, s). sm_rank (m_state s))") (auto simp: enter_def success_state_def)

declare StateMachine.simps [simp del]

section \<open>Completion handlers\<close>

text \<open>The common end of the error branches: report, go to \<open>eError\<close>.\<close>

definition fail :: "string \<Rightarrow> tx \<Rightarrow> tx" where
  "fail err s = enter eError (emit (OnError err) s)"

fun on_resolve :: "host \<Rightarrow> string list io \<Rightarrow> tx \<Rightarrow> tx option" where
  "on_resolve h Aborted s = Some s"
| "on_resolve h (Failed msg) s =
     (if m_state s \<noteq> eResolving \<or> m_shutdown s then Some s
      else StateMachine h (fail (''failed to resolve '' @ m_host s @ '':'' @ m_port s @ '': '' @ msg) s))"
| "on_resolve h (Completed i) s =
     (if m_state s \<noteq> eResolving \<or> m_shutdown s then Some s
      else StateMachine h (enter eConnecting (s\<lparr>m_rIterator := i\<rparr>)))"

text \<open>The iterator points to the endpoint that was connected, \<^term>\<open>[]\<close> is its end. The code also takes an
  end without an error code for a failure and then prints the message of that code, the string of the
  completion.\<close>

fun on_connect :: "host \<Rightarrow> (string \<times> string list) io \<Rightarrow> tx \<Rightarrow> tx option" where
  "on_connect h Aborted s = Some s"
| "on_connect h (Failed msg) s =
     (if m_state s \<noteq> eConnecting \<or> m_shutdown s then Some s
      else StateMachine h (fail (''connection error: '' @ msg) s))"
| "on_connect h (Completed (msg, i)) s =
     (if m_state s \<noteq> eConnecting \<or> m_shutdown s then Some s
      else if i = [] then StateMachine h (fail (''connection error: '' @ msg) s)
      else StateMachine h (enter eSending s))"

fun on_write :: "host \<Rightarrow> nat io \<Rightarrow> tx \<Rightarrow> tx option" where
  "on_write h Aborted s = Some s"
| "on_write h (Failed msg) s =
     (let s = s\<lparr>m_buf := None\<rparr> in
      if m_state s \<noteq> eSending \<or> m_shutdown s then Some s
      else StateMachine h (fail (''transmit error: '' @ msg) s))"
| "on_write h (Completed bytes) s =
     (let s = s\<lparr>m_buf := None\<rparr> in
      if m_state s \<noteq> eSending \<or> m_shutdown s then Some s
      else StateMachine h (enter eReceivingHeader s))"

text \<open>\<open>commit\<close>, then the first three bytes are taken for the header whether or not that many came.\<close>

fun on_read_header :: "host \<Rightarrow> byte list io \<Rightarrow> tx \<Rightarrow> tx option" where
  "on_read_header h Aborted s = Some s"
| "on_read_header h (Failed msg) s =
     (if m_state s \<noteq> eReceivingHeader \<or> m_shutdown s then Some s
      else StateMachine h (fail (''receive confirmation error: '' @ msg) s))"
| "on_read_header h (Completed bs) s =
     (if m_state s \<noteq> eReceivingHeader \<or> m_shutdown s then Some s
      else do {
        buf \<leftarrow> m_buf s;
        (proto, len, rest) \<leftarrow> take_header h (buf @ bs);
        let s = s\<lparr>m_buf := Some rest\<rparr>;
        (if proto \<noteq> uint SbdProtoNumber
         then StateMachine h (fail (''invalid protocol number '' @ show_int proto) s)
         else StateMachine h (enter eReceivingConfirmation (s\<lparr>m_confirmationLength := len\<rparr>)))
      })"

fun on_read_confirmation :: "host \<Rightarrow> byte list io \<Rightarrow> tx \<Rightarrow> tx option" where
  "on_read_confirmation h Aborted s = Some s"
| "on_read_confirmation h (Failed msg) s =
     (if m_state s \<noteq> eReceivingConfirmation \<or> m_shutdown s then Some s
      else StateMachine h (fail (''receive confirmation error: '' @ msg) s))"
| "on_read_confirmation h (Completed bs) s =
     (if m_state s \<noteq> eReceivingConfirmation \<or> m_shutdown s then Some s
      else do {
        buf \<leftarrow> m_buf s;
        StateMachine h (enter eReceivingConfirmation (s\<lparr>m_buf := Some (buf @ bs)\<rparr>))
      })"

text \<open>The handler of the timer looks neither at the state nor at \<open>m_shutdown\<close>.\<close>

fun on_timer :: "host \<Rightarrow> unit io \<Rightarrow> tx \<Rightarrow> tx option" where
  "on_timer h Aborted s = Some s"
| "on_timer h _ s =
     StateMachine h (enter eNotConnected
       (if m_errDelay s < MaxDelay then s\<lparr>m_errDelay := m_errDelay s * 2\<rparr> else s))"

section \<open>The interface\<close>

definition post :: "MtMessage \<Rightarrow> tx \<Rightarrow> tx" where
  "post message s = s\<lparr>m_messageQueue := put (m_messageQueue s) message\<rparr>"

definition dropMessages :: "tx \<Rightarrow> tx" where
  "dropMessages s = s\<lparr>m_messageQueue := clear (m_messageQueue s)\<rparr>"

definition start :: "tx \<Rightarrow> tx" where
  "start s = (if m_running s then s else s\<lparr>m_running := True, m_shutdown := False, thread := Starting\<rparr>)"

fun is_socket_op :: "async_op \<Rightarrow> bool" where
  "is_socket_op OpResolve = False"
| "is_socket_op (OpTimer ms) = False"
| "is_socket_op _ = True"

fun is_timer_op :: "async_op \<Rightarrow> bool" where
  "is_timer_op (OpTimer ms) = True"
| "is_timer_op _ = False"

text \<open>The operations that satisfy \<open>hit\<close> are cancelled.\<close>

definition cancel :: "(async_op \<Rightarrow> bool) \<Rightarrow> tx \<Rightarrow> tx" where
  "cancel hit s = s\<lparr>cancelled := cancelled s @ filter hit (pending s),
     pending := filter (\<lambda>op. \<not> hit op) (pending s)\<rparr>"

text \<open>\<open>stop\<close> up to \<open>join\<close>, which waits until the worker has left its loop. The two cancellations may
  throw (the text of the exception, if so); \<open>woexcept\<close> swallows it. The resolver is not cancelled.\<close>

definition stop_socket :: "bool \<Rightarrow> exc option \<Rightarrow> tx \<Rightarrow> (exc + unit) \<times> tx" where
  "stop_socket woexcept socket_exc s =
     (if \<not> sock_open s then (Inr (), s)
      else case socket_exc of
        None \<Rightarrow> (Inr (), cancel is_socket_op s)
      | Some e \<Rightarrow> if \<not> woexcept then (Inl e, s) else (Inr (), s))"

definition stop :: "bool \<Rightarrow> exc option \<Rightarrow> exc option \<Rightarrow> tx \<Rightarrow> (exc + unit) \<times> tx" where
  "stop woexcept timer_exc socket_exc s =
     (if \<not> m_running s then (Inr (), s)
      else
        let s = s\<lparr>m_shutdown := True\<rparr> in
        case timer_exc of
          None \<Rightarrow> stop_socket woexcept socket_exc (cancel is_timer_op s)
        | Some e \<Rightarrow> if \<not> woexcept then (Inl e, s) else stop_socket woexcept socket_exc s)"

section \<open>The worker thread\<close>

definition worker_begin :: "tx \<Rightarrow> tx" where
  "worker_begin s =
     s\<lparr>m_errDelay := 1, m_prevState := eNotConnected, m_state := eNotConnected, thread := Looping\<rparr>"

text \<open>The test of the loop and of the state: leave, wait for a job, or sleep for a heartbeat.\<close>

definition worker_check :: "tx \<Rightarrow> tx" where
  "worker_check s =
     (if m_shutdown s then s\<lparr>m_sentinel := False, m_running := False, thread := NoThread\<rparr>
      else if m_state s = eNotConnected then s\<lparr>thread := Waiting\<rparr> else s)"

definition worker_wait :: "bool \<Rightarrow> tx \<Rightarrow> tx" where
  "worker_wait timed_out s =
     (if wait_for timed_out (m_messageQueue s) then s\<lparr>thread := Looping\<rparr>
      else s\<lparr>thread := Entering\<rparr>)"

definition worker_enter :: "host \<Rightarrow> tx \<Rightarrow> tx option" where
  "worker_enter h s = StateMachine h (enter eResolving (s\<lparr>thread := Looping\<rparr>))"

end
