(* ===== verification/Runs.thy ===== *)
theory Runs
  imports Main
begin

text \<open>
  What the step relations of the development share. The steps of a part are an inductive relation, with
  the inputs they react to where these matter, and so are its runs; the locales hold the lemmas on
  runs that do not depend on the part: composition, invariants, and the forward simulation by which
  the runs of one part are runs of another. Every step relation interprets one of them.
\<close>

section \<open>Reachable states\<close>

locale reachability =
  fixes step :: "'s \<Rightarrow> 's \<Rightarrow> bool"
    and reach :: "'s \<Rightarrow> 's \<Rightarrow> bool"
  assumes reach_here: "reach s s"
    and reach_step: "reach s s' \<Longrightarrow> step s' s'' \<Longrightarrow> reach s s''"
    and reach_least: "reach s s' \<Longrightarrow> P s \<Longrightarrow> (\<And>t u. reach s t \<Longrightarrow> P t \<Longrightarrow> step t u \<Longrightarrow> P u) \<Longrightarrow> P s'"
begin

lemma reach_trans: "reach s' s'' \<Longrightarrow> reach s s' \<Longrightarrow> reach s s''"
  by (erule reach_least) (auto intro: reach_step)

lemma reach_first: "step s s' \<Longrightarrow> reach s' s'' \<Longrightarrow> reach s s''"
  by (blast intro: reach_trans reach_step reach_here)

lemma reach_keeps: "reach s s' \<Longrightarrow> I s \<Longrightarrow> (\<And>t u. I t \<Longrightarrow> step t u \<Longrightarrow> I u) \<Longrightarrow> I s'"
  by (erule reach_least) auto

end

section \<open>Runs\<close>

locale labelled_runs =
  fixes step :: "'s \<Rightarrow> 'i \<Rightarrow> 's \<Rightarrow> bool"
    and run :: "'s \<Rightarrow> 'i list \<Rightarrow> 's \<Rightarrow> bool"
  assumes run_nil: "run s [] s"
    and run_snoc: "run s ins s' \<Longrightarrow> step s' i s'' \<Longrightarrow> run s (ins @ [i]) s''"
    and run_least: "run s ins s' \<Longrightarrow> P [] s \<Longrightarrow>
      (\<And>ins t i u. run s ins t \<Longrightarrow> P ins t \<Longrightarrow> step t i u \<Longrightarrow> P (ins @ [i]) u) \<Longrightarrow> P ins s'"
begin

lemma runs_single: "step s i s' \<Longrightarrow> run s [i] s'"
  using run_snoc [OF run_nil] by simp

lemma runs_append:
  assumes "run s' js s''" and "run s ins s'"
  shows "run s (ins @ js) s''"
  using assms(1)
proof (rule run_least)
  show "run s (ins @ []) s'" using assms(2) by simp
next
  fix js t i u
  assume "run s (ins @ js) t" "step t i u"
  from run_snoc [OF this] show "run s (ins @ js @ [i]) u" by simp
qed

lemma runs_Cons: "step s i s' \<Longrightarrow> run s' js s'' \<Longrightarrow> run s (i # js) s''"
  using runs_append [OF _ runs_single, of s' js s'' s i] by simp

text \<open>Runs are taken apart: where the inputs are, and where there is just one.\<close>

lemma runs_split:
  assumes "run s (ins @ js) s''"
  shows "\<exists>s'. run s ins s' \<and> run s' js s''"
proof -
  have "\<forall>js. ks = ins @ js \<longrightarrow> (\<exists>s'. run s ins s' \<and> run s' js t)" if "run s ks t" for ks t
    using that
  proof (rule run_least)
    show "\<forall>js. [] = ins @ js \<longrightarrow> (\<exists>s'. run s ins s' \<and> run s' js s)"
      using run_nil by auto
  next
    fix ks t i u
    assume r: "run s ks t" and IH: "\<forall>js. ks = ins @ js \<longrightarrow> (\<exists>s'. run s ins s' \<and> run s' js t)" and st: "step t i u"
    show "\<forall>js. ks @ [i] = ins @ js \<longrightarrow> (\<exists>s'. run s ins s' \<and> run s' js u)"
    proof (intro allI impI)
      fix js assume js: "ks @ [i] = ins @ js"
      show "\<exists>s'. run s ins s' \<and> run s' js u"
      proof (cases js rule: rev_cases)
        case Nil
        with js run_snoc [OF r st] run_nil show ?thesis by (intro exI [of _ u]) simp
      next
        case (snoc js' j)
        with js IH obtain s' where "run s ins s'" "run s' js' t" "j = i" by auto
        with snoc run_snoc [OF _ st] show ?thesis by blast
      qed
    qed
  qed
  with assms show ?thesis by blast
qed

lemma runs_singleD:
  assumes "run s [i] s'"
  shows "step s i s'"
proof -
  have "(ks = [] \<longrightarrow> t = s) \<and> (\<forall>j. ks = [j] \<longrightarrow> step s j t)" if "run s ks t" for ks t
    using that by (rule run_least) auto
  with assms show ?thesis by blast
qed

text \<open>Invariants of the runs with given inputs.\<close>

lemma runs_keep:
  assumes "run s ins s'" and "I s" and "\<And>t i u. i \<in> set ins \<Longrightarrow> I t \<Longrightarrow> step t i u \<Longrightarrow> I u"
  shows "I s'"
proof -
  have "(\<forall>t i u. i \<in> set ins \<longrightarrow> I t \<longrightarrow> step t i u \<longrightarrow> I u) \<longrightarrow> I s'"
    by (rule run_least [OF assms(1), of "\<lambda>js t. (\<forall>t i u. i \<in> set js \<longrightarrow> I t \<longrightarrow> step t i u \<longrightarrow> I u) \<longrightarrow> I t"])
      (use assms(2) in auto)
  with assms(3) show ?thesis by blast
qed

lemma runs_keep_ok:
  assumes "run s ins s'" and "I s" and "\<forall>i \<in> set ins. ok i"
    and "\<And>t i u. I t \<Longrightarrow> ok i \<Longrightarrow> step t i u \<Longrightarrow> I u"
  shows "I s'"
  using runs_keep [of s ins s' I] assms by blast

end

section \<open>Simulation\<close>

text \<open>
  The runs from a state, with the input sequences that are allowed, are runs of another relation: every
  step is a run of it between the abstractions, and \<open>shown\<close> tells its inputs.
\<close>

locale simulation = conc: labelled_runs step run + abst: labelled_runs astep arun
  for step :: "'s \<Rightarrow> 'i \<Rightarrow> 's \<Rightarrow> bool" and run
    and astep :: "'t \<Rightarrow> 'j \<Rightarrow> 't \<Rightarrow> bool" and arun +
  fixes origin :: 's
    and allowed :: "'i list \<Rightarrow> 's \<Rightarrow> bool"
    and shown :: "'i list \<Rightarrow> 'j list"
    and view :: "'s \<Rightarrow> 't"
  assumes allowed_before: "run origin ins s \<Longrightarrow> step s i s' \<Longrightarrow> allowed (ins @ [i]) s' \<Longrightarrow> allowed ins s"
    and shown_nil: "shown [] = []"
    and shown_snoc: "shown (ins @ [i]) = shown ins @ shown [i]"
    and simulates: "run origin ins s \<Longrightarrow> step s i s' \<Longrightarrow> allowed (ins @ [i]) s' \<Longrightarrow>
      arun (view s) (shown [i]) (view s')"
begin

lemma refines:
  assumes "run origin ins s" and "allowed ins s"
  shows "arun (view origin) (shown ins) (view s)"
proof -
  have "allowed ins s \<longrightarrow> arun (view origin) (shown ins) (view s)"
    using assms(1)
  proof (rule conc.run_least)
    show "allowed [] origin \<longrightarrow> arun (view origin) (shown []) (view origin)"
      by (simp add: shown_nil abst.run_nil)
  next
    fix ins t i u
    assume r: "run origin ins t" and IH: "allowed ins t \<longrightarrow> arun (view origin) (shown ins) (view t)" and st: "step t i u"
    show "allowed (ins @ [i]) u \<longrightarrow> arun (view origin) (shown (ins @ [i])) (view u)"
      using IH abst.runs_append [OF simulates [OF r st]] allowed_before [OF r st] by (simp add: shown_snoc)
  qed
  then show ?thesis using assms(2) by blast
qed

end

end
