(* ===== verification/TransmitterSteps.thy ===== *)
theory TransmitterSteps
  imports Transmitter Runs
begin

text \<open>
  The transmitter and its environment as a step relation: the client, the worker thread, the io
  service that completes the pending operations, and the peer. A step is one public call, one stretch
  of the worker between two points at which it looks at shared state, or one completion handler.
\<close>

section \<open>One step of the state machine, by state\<close>

lemma StateMachine_NotConnected [tx_simps]:
  "m_state s = eNotConnected \<Longrightarrow> StateMachine h s =
     Some (s\<lparr>m_buf := None, m_confirmationLength := 0, m_sentinel := False\<rparr>)"
  by (subst StateMachine.simps) simp

lemma StateMachine_Resolving [tx_simps]:
  "m_state s = eResolving \<Longrightarrow> StateMachine h s = Some (launch OpResolve (s\<lparr>m_sentinel := True\<rparr>))"
  by (subst StateMachine.simps) simp

lemma StateMachine_Connecting [tx_simps]:
  "m_state s = eConnecting \<Longrightarrow> StateMachine h s =
     Some (launch (OpConnect (m_rIterator s)) (s\<lparr>sock_open := True, sock_peer := False\<rparr>))"
  by (subst StateMachine.simps) simp

lemma StateMachine_Sending [tx_simps]:
  "m_state s = eSending \<Longrightarrow> StateMachine h s =
     (let (message, queue) = get MtMessage_init (m_messageQueue s);
          (message, buf) = MtMessage_serialize h message
      in Some (launch (OpWrite buf) (emit (Written buf) (s\<lparr>m_messageQueue := queue,
           m_sendingMessage := message, m_buf := Some buf\<rparr>))))"
  by (subst StateMachine.simps) (simp split: prod.splits)

lemma StateMachine_ReceivingHeader [tx_simps]:
  "m_state s = eReceivingHeader \<Longrightarrow> StateMachine h s =
     Some (launch (OpReadHeader (unat MoMessage_MaxMessageSize)) (s\<lparr>m_buf := Some []\<rparr>))"
  by (subst StateMachine.simps) simp

lemma StateMachine_ReceivingConfirmation [tx_simps]:
  "m_state s = eReceivingConfirmation \<Longrightarrow> m_buf s = Some received \<Longrightarrow> StateMachine h s =
     (if length received < unat (m_confirmationLength s)
      then Some (launch (OpReadConfirmation (unat (m_confirmationLength s))) s)
      else StateMachine h (enter eProcessingConfirmation s))"
  by (subst StateMachine.simps) simp

lemma closeSocket_eq:
  "closeSocket s = s\<lparr>sock_open := sock_open s \<and> \<not> sock_peer s, sock_peer := False,
     log := log s @ (if sock_peer s then [SocketClosed] else [])\<rparr>"
  by (simp add: closeSocket_def emit_def)

lemma StateMachine_Error [tx_simps]:
  "m_state s = eError \<Longrightarrow> StateMachine h s =
     (let closes = m_prevState s > eConnecting \<and> sock_peer s in
      Some (s\<lparr>
        m_messageQueue := (if m_prevState s \<ge> eSending
          then unget (m_messageQueue s) (m_sendingMessage s) else m_messageQueue s),
        sock_open := sock_open s \<and> \<not> closes, sock_peer := sock_peer s \<and> \<not> closes,
        pending := pending s @ [OpTimer (Heartbeat * unat (m_errDelay s))],
        log := log s @ (if closes then [SocketClosed] else [])\<rparr>))"
  by (subst StateMachine.simps) (auto simp: error_state_def Let_def closeSocket_eq launch_def)

lemma StateMachine_Success [tx_simps]:
  "m_state s = eSuccess \<Longrightarrow> StateMachine h s =
     Some (s\<lparr>m_prevState := eSuccess, m_state := eNotConnected, m_buf := None,
       m_confirmationLength := 0, m_sentinel := False,
       sock_open := sock_open s \<and> \<not> sock_peer s, sock_peer := False,
       log := log s @ (if sock_peer s then [SocketClosed] else [])\<rparr>)"
  by (subst StateMachine.simps) (simp add: success_state_def StateMachine_NotConnected enter_def closeSocket_eq)

lemma StateMachine_Processing [tx_simps]:
  "m_state s = eProcessingConfirmation \<Longrightarrow> StateMachine h s =
     do { (ok, s') \<leftarrow> process_confirmation h s;
          StateMachine h (enter (if ok then eSuccess else eError) s') }"
  by (subst StateMachine.simps) simp

text \<open>What the case \<open>eProcessingConfirmation\<close> can do besides its transition.\<close>

inductive processed :: "tx \<Rightarrow> bool \<Rightarrow> tx \<Rightarrow> bool" for s :: tx where
  unusable: "processed s False (emit (OnError err) s)"
| refused: "st < 0 \<Longrightarrow> processed s False (emit (OnTransmitResult st) (s\<lparr>m_buf := b\<rparr>))"
| accepted: "0 \<le> st \<Longrightarrow> processed s True ((emit (OnTransmitResult st) (s\<lparr>m_buf := b\<rparr>))\<lparr>m_errDelay := 1\<rparr>)"
| accepted_extra: "0 \<le> st \<Longrightarrow> processed s True
    ((emit (OnError err) (emit (OnTransmitResult st) (s\<lparr>m_buf := b\<rparr>)))\<lparr>m_errDelay := 1\<rparr>)"

lemma process_confirmation_processed:
  assumes "process_confirmation h s = Some (ok, s')"
  shows "processed s ok s'"
proof -
  from assms show ?thesis
    unfolding process_confirmation_def Let_def
    by (auto split: bind_splits if_splits sum.splits prod.splits intro: processed.intros)
qed

section \<open>Inputs and steps\<close>

text \<open>The arguments of \<open>Stop\<close> are \<open>woexcept\<close> and the exceptions of the two cancellations. \<open>WorkerWait\<close>
  tells whether a wait on the empty queue times out, and \<open>PeerGone\<close> is a connection that is lost.\<close>

datatype tx_input =
    Post MtMessage | DropMessages | Start | Stop bool "exc option" "exc option"
  | WorkerBegin | WorkerCheck | WorkerWait bool | WorkerEnter
  | Resolved "string list io" | Connected "(string \<times> string list) io" | WriteDone "nat io"
  | HeaderRead "byte list io" | ConfirmationRead "byte list io" | TimerFired "unit io"
  | PeerGone

fun react :: "host \<Rightarrow> tx_input \<Rightarrow> tx \<Rightarrow> tx option" where
  "react h (Post message) s = Some (post message s)"
| "react h DropMessages s = Some (dropMessages s)"
| "react h Start s = Some (start s)"
| "react h (Stop woexcept timer_exc socket_exc) s = Some (snd (stop woexcept timer_exc socket_exc s))"
| "react h WorkerBegin s = Some (worker_begin s)"
| "react h WorkerCheck s = Some (worker_check s)"
| "react h (WorkerWait timed_out) s = Some (worker_wait timed_out s)"
| "react h WorkerEnter s = worker_enter h s"
| "react h (Resolved r) s = on_resolve h r s"
| "react h (Connected r) s = on_connect h r
     (case r of Completed (_, i) \<Rightarrow> s\<lparr>sock_peer := (i \<noteq> [])\<rparr> | _ \<Rightarrow> s)"
| "react h (WriteDone r) s = on_write h r s"
| "react h (HeaderRead r) s = on_read_header h r s"
| "react h (ConfirmationRead r) s = on_read_confirmation h r s"
| "react h (TimerFired r) s = on_timer h r s"
| "react h PeerGone s = Some (s\<lparr>sock_peer := False\<rparr>)"

text \<open>How an operation may complete: \<open>async_read_some\<close> succeeds with at least one byte and at most as many
  as the buffer holds, \<open>async_write\<close> with all of them.\<close>

fun answers :: "async_op \<Rightarrow> tx_input \<Rightarrow> bool" where
  "answers OpResolve (Resolved r) = True"
| "answers (OpConnect i) (Connected r) = True"
| "answers (OpWrite buf) (WriteDone r) =
     (case r of Completed n \<Rightarrow> n = length buf | _ \<Rightarrow> True)"
| "answers (OpReadHeader n) (HeaderRead r) =
     (case r of Completed bs \<Rightarrow> bs \<noteq> [] \<and> length bs \<le> n | _ \<Rightarrow> True)"
| "answers (OpReadConfirmation n) (ConfirmationRead r) =
     (case r of Completed bs \<Rightarrow> bs \<noteq> [] \<and> length bs \<le> n | _ \<Rightarrow> True)"
| "answers (OpTimer ms) (TimerFired r) = True"
| "answers _ _ = False"

fun aborted :: "tx_input \<Rightarrow> bool" where
  "aborted (Resolved r) = (r = Aborted)"
| "aborted (Connected r) = (r = Aborted)"
| "aborted (WriteDone r) = (r = Aborted)"
| "aborted (HeaderRead r) = (r = Aborted)"
| "aborted (ConfirmationRead r) = (r = Aborted)"
| "aborted (TimerFired r) = (r = Aborted)"
| "aborted _ = False"

fun from_client :: "tx_input \<Rightarrow> bool" where
  "from_client (Post message) = True"
| "from_client DropMessages = True"
| "from_client Start = True"
| "from_client (Stop woexcept timer_exc socket_exc) = True"
| "from_client PeerGone = True"
| "from_client _ = False"

text \<open>A step ends in \<^term>\<open>None\<close> where the code has undefined behaviour. An operation that was not cancelled
  does not complete as aborted; one that was may still complete in any way, as its handler may have
  been queued before.\<close>

inductive tx_step :: "host \<Rightarrow> tx \<Rightarrow> tx_input \<Rightarrow> tx option \<Rightarrow> bool" for h :: host where
  client: "from_client i \<Longrightarrow> tx_step h s i (react h i s)"
| started: "thread s = Starting \<Longrightarrow> tx_step h s WorkerBegin (react h WorkerBegin s)"
| checked: "thread s = Looping \<Longrightarrow> tx_step h s WorkerCheck (react h WorkerCheck s)"
| waited: "thread s = Waiting \<Longrightarrow> tx_step h s (WorkerWait t) (react h (WorkerWait t) s)"
| entered: "thread s = Entering \<Longrightarrow> tx_step h s WorkerEnter (react h WorkerEnter s)"
| completed: "op \<in> set (pending s) \<Longrightarrow> answers op i \<Longrightarrow> \<not> aborted i \<Longrightarrow>
    tx_step h s i (react h i (s\<lparr>pending := remove1 op (pending s)\<rparr>))"
| complete_cancelled: "op \<in> set (cancelled s) \<Longrightarrow> answers op i \<Longrightarrow>
    tx_step h s i (react h i (s\<lparr>cancelled := remove1 op (cancelled s)\<rparr>))"

inductive tx_run :: "host \<Rightarrow> tx \<Rightarrow> tx_input list \<Rightarrow> tx \<Rightarrow> bool" for h :: host and s :: tx where
  nil: "tx_run h s [] s"
| snoc: "tx_run h s ins s' \<Longrightarrow> tx_step h s' i (Some s'') \<Longrightarrow> tx_run h s (ins @ [i]) s''"

inductive_cases tx_run_NilE: "tx_run h s [] s'"
inductive_cases tx_run_snocE: "tx_run h s (ins @ [i]) s'"

interpretation tx_runs: labelled_runs "\<lambda>s i s'. tx_step h s i (Some s')" "tx_run h" for h
  by (unfold_locales, auto intro: tx_run.intros) (erule tx_run.induct; blast)

lemma tx_run_single: "tx_step h s i (Some s') \<Longrightarrow> tx_run h s [i] s'"
  by (rule tx_runs.runs_single)

lemma tx_run_append: "tx_run h s' js s'' \<Longrightarrow> tx_run h s ins s' \<Longrightarrow> tx_run h s (ins @ js) s''"
  by (rule tx_runs.runs_append)

lemma tx_run_Cons: "tx_step h s i (Some s') \<Longrightarrow> tx_run h s' js s'' \<Longrightarrow> tx_run h s (i # js) s''"
  by (rule tx_runs.runs_Cons)

text \<open>Invariants of the runs whose inputs satisfy a condition.\<close>

lemma tx_run_invariant:
  assumes "tx_run h s ins s'" and "I s" and "\<forall>i \<in> set ins. ok i"
    and "\<And>s i s'. I s \<Longrightarrow> ok i \<Longrightarrow> tx_step h s i (Some s') \<Longrightarrow> I s'"
  shows "I s'"
  using assms by (rule tx_runs.runs_keep_ok)

end
