(* ===== verification/TransmitterInv.thy ===== *)
theory TransmitterInv
  imports TransmitterSteps
begin

text \<open>
  Invariants of the transmitter: the back-off delay and the resting states, which hold in all runs, and
  the link between the state and the outstanding operation, in runs without \<open>stop\<close>.
\<close>

section \<open>The back-off delay and the resting states\<close>

definition delay_ok :: "tx \<Rightarrow> bool" where
  "delay_ok s \<longleftrightarrow> (\<exists>k \<le> 6. m_errDelay s = 2 ^ k) \<and>
     (\<forall>t. OpTimer t \<in> set (pending s) \<union> set (cancelled s) \<longrightarrow> (\<exists>k \<le> 6. t = 100 * 2 ^ k))"

definition resting :: "tx \<Rightarrow> bool" where
  "resting s \<longleftrightarrow> m_state s \<noteq> eProcessingConfirmation \<and> m_state s \<noteq> eSuccess"

lemma le_6_cases: "(k :: nat) \<le> 6 \<Longrightarrow> k = 0 \<or> k = 1 \<or> k = 2 \<or> k = 3 \<or> k = 4 \<or> k = 5 \<or> k = 6"
  by presburger

lemma unat_power_delay: "k \<le> 6 \<Longrightarrow> unat ((2 :: u16) ^ k) = 2 ^ k"
  by (auto dest!: le_6_cases)

lemma delay_doubles: "k \<le> 6 \<Longrightarrow> (2 :: u16) ^ k < MaxDelay \<Longrightarrow> \<exists>j \<le> 6. (2 :: u16) ^ k * 2 = 2 ^ j"
proof -
  assume k: "k \<le> 6" and l: "(2 :: u16) ^ k < MaxDelay"
  then have "k \<noteq> 6" by (auto simp: MaxDelay_def)
  with k show ?thesis by (intro exI [of _ "Suc k"]) (auto simp: mult.commute)
qed

lemma StateMachine_delay_resting:
  "StateMachine h s = Some s' \<Longrightarrow> delay_ok s \<Longrightarrow> delay_ok s' \<and> resting s'"
proof (induction h s rule: StateMachine.induct)
  case (1 h s)
  show ?case
  proof (cases "m_state s")
    case eReceivingConfirmation
    then obtain b where "m_buf s = Some b"
      using "1.prems"(1) by (cases "m_buf s") (simp_all add: StateMachine.simps [of h s])
    with 1 eReceivingConfirmation show ?thesis
      by (auto simp: tx_simps launch_def enter_def resting_def delay_ok_def split: if_splits)
  next
    case eProcessingConfirmation
    with "1.prems"(1) obtain ok t where p: "process_confirmation h s = Some (ok, t)"
      and t: "StateMachine h (enter (if ok then eSuccess else eError) t) = Some s'"
      by (auto simp: tx_simps split: bind_splits prod.splits)
    from process_confirmation_processed [OF p] "1.prems"(2)
    have "delay_ok (enter (if ok then eSuccess else eError) t)"
      by cases (auto simp: delay_ok_def emit_def enter_def intro: exI [of _ 0])
    with "1.IH"(2) [OF eProcessingConfirmation p refl] t show ?thesis by blast
  next
    case eError
    from "1.prems"(2) obtain k where "k \<le> 6" "m_errDelay s = 2 ^ k"
      by (auto simp: delay_ok_def)
    with "1.prems" eError show ?thesis
      by (auto simp: tx_simps Let_def launch_def resting_def delay_ok_def Heartbeat_def unat_power_delay)
  qed (use 1 in \<open>auto simp: tx_simps launch_def emit_def enter_def resting_def delay_ok_def split: prod.splits\<close>)
qed

lemma delay_ok_remove1:
  "delay_ok s \<Longrightarrow> delay_ok (s\<lparr>pending := remove1 op (pending s)\<rparr>)"
  "delay_ok s \<Longrightarrow> delay_ok (s\<lparr>cancelled := remove1 op (cancelled s)\<rparr>)"
  using set_remove1_subset [of op "pending s"] set_remove1_subset [of op "cancelled s"]
  by (fastforce simp: delay_ok_def)+

lemma delay_ok_enter [simp]: "delay_ok (enter st s) = delay_ok s"
  by (simp add: enter_def delay_ok_def)

lemma delay_ok_fail [simp]: "delay_ok (fail err s) = delay_ok s"
  by (simp add: fail_def enter_def emit_def delay_ok_def)

lemma stop_socket_cases:
  "snd (stop_socket w e s) = s \<or> snd (stop_socket w e s) = cancel is_socket_op s"
  by (simp add: stop_socket_def split: option.splits)

lemma stop_cases:
  "snd (stop w te se s) \<in> {s, s\<lparr>m_shutdown := True\<rparr>, cancel is_socket_op (s\<lparr>m_shutdown := True\<rparr>),
     cancel is_timer_op (s\<lparr>m_shutdown := True\<rparr>),
     cancel is_socket_op (cancel is_timer_op (s\<lparr>m_shutdown := True\<rparr>))}"
  using stop_socket_cases [of w se "s\<lparr>m_shutdown := True\<rparr>"]
    stop_socket_cases [of w se "cancel is_timer_op (s\<lparr>m_shutdown := True\<rparr>)"]
  by (cases te; cases w) (auto simp: stop_def Let_def)

lemma delay_resting_calls:
  "delay_ok (post m s) = delay_ok s" "resting (post m s) = resting s"
  "delay_ok (dropMessages s) = delay_ok s" "resting (dropMessages s) = resting s"
  "delay_ok (start s) = delay_ok s" "resting (start s) = resting s"
  "delay_ok s \<Longrightarrow> delay_ok (worker_begin s)" "resting (worker_begin s)"
  "delay_ok (worker_check s) = delay_ok s" "resting (worker_check s) = resting s"
  "delay_ok (worker_wait t s) = delay_ok s" "resting (worker_wait t s) = resting s"
  by (auto simp: post_def dropMessages_def start_def worker_begin_def worker_check_def
      worker_wait_def delay_ok_def resting_def intro: exI [of _ 0])

lemma react_delay_resting:
  assumes "react h i s = Some s'" and d: "delay_ok s" and r: "resting s"
  shows "delay_ok s' \<and> resting s'"
proof -
  have sm: "StateMachine h t = Some s' \<Longrightarrow> delay_ok t \<Longrightarrow> delay_ok s' \<and> resting s'" for t
    by (rule StateMachine_delay_resting)
  have upd: "delay_ok (s\<lparr>m_rIterator := x\<rparr>)" "delay_ok (s\<lparr>m_buf := b\<rparr>)" "delay_ok (s\<lparr>sock_peer := p\<rparr>)"
    "delay_ok (s\<lparr>m_buf := b, m_confirmationLength := l\<rparr>)"
    "delay_ok (s\<lparr>sock_peer := p\<rparr>)"
    "resting (s\<lparr>m_buf := b\<rparr>)" "resting (s\<lparr>sock_peer := p\<rparr>)" for x b p l
    using d r by (simp_all add: delay_ok_def resting_def)
  show ?thesis
  proof (cases i)
    case (Stop w te se)
    with assms stop_cases [of w te se s] show ?thesis
      by (auto simp: cancel_def delay_ok_def resting_def)
  next
    case (Resolved x)
    with assms upd show ?thesis
      by (cases x) (auto split: if_splits dest!: sm)
  next
    case (Connected x)
    with assms upd show ?thesis
      by (cases x) (auto split: if_splits dest!: sm)
  next
    case (WriteDone x)
    with assms upd show ?thesis
      by (cases x) (auto simp: Let_def split: if_splits dest!: sm)
  next
    case (HeaderRead x)
    with assms upd show ?thesis
      by (cases x) (auto simp: Let_def split: if_splits bind_splits prod.splits dest!: sm)
  next
    case (ConfirmationRead x)
    with assms upd show ?thesis
      by (cases x) (auto simp: Let_def split: if_splits bind_splits prod.splits dest!: sm)
  next
    case (TimerFired x)
    have "delay_ok (s\<lparr>m_errDelay := m_errDelay s * 2\<rparr>)" if "m_errDelay s < MaxDelay"
      using d that delay_doubles by (auto simp: delay_ok_def)
    with TimerFired assms upd show ?thesis
      by (cases x) (auto split: if_splits dest!: sm)
  next
    case WorkerEnter
    have "delay_ok (s\<lparr>thread := Looping\<rparr>)" using d by (simp add: delay_ok_def)
    with WorkerEnter assms show ?thesis
      by (auto simp: worker_enter_def dest!: sm)
  qed (use assms upd in \<open>auto simp: delay_resting_calls\<close>)
qed

lemma tx_step_delay_resting:
  "tx_step h s i (Some s') \<Longrightarrow> delay_ok s \<and> resting s \<Longrightarrow> delay_ok s' \<and> resting s'"
proof (induction s i "Some s'" rule: tx_step.induct)
  case (completed op s i)
  with delay_ok_remove1(1) [of s op] show ?case
    by (intro react_delay_resting) (auto simp: resting_def)
next
  case (complete_cancelled op s i)
  with delay_ok_remove1(2) [of s op] show ?case
    by (intro react_delay_resting) (auto simp: resting_def)
qed (metis react_delay_resting)+

lemma new_delay_resting:
  "delay_ok (SbdTransmitter_new host port)" "resting (SbdTransmitter_new host port)"
  by (auto simp: SbdTransmitter_new_def delay_ok_def resting_def intro: exI [of _ 0])

section \<open>The outstanding operation\<close>

fun no_stop :: "tx_input \<Rightarrow> bool" where
  "no_stop (Stop woexcept timer_exc socket_exc) = False"
| "no_stop _ = True"

text \<open>The one operation that a resting state waits for, and what the buffer holds meanwhile.\<close>

definition outstanding :: "tx \<Rightarrow> async_op list" where
  "outstanding s = (case m_state s of
     eResolving \<Rightarrow> [OpResolve]
   | eConnecting \<Rightarrow> [OpConnect (m_rIterator s)]
   | eSending \<Rightarrow> [OpWrite (case m_buf s of Some buf \<Rightarrow> buf | None \<Rightarrow> [])]
   | eReceivingHeader \<Rightarrow> [OpReadHeader (unat MoMessage_MaxMessageSize)]
   | eReceivingConfirmation \<Rightarrow> [OpReadConfirmation (unat (m_confirmationLength s))]
   | eError \<Rightarrow> [OpTimer (Heartbeat * unat (m_errDelay s))]
   | _ \<Rightarrow> [])"

definition buffer_ok :: "tx \<Rightarrow> bool" where
  "buffer_ok s = (case m_state s of
     eNotConnected \<Rightarrow> m_buf s = None
   | eSending \<Rightarrow> m_buf s \<noteq> None
   | eReceivingHeader \<Rightarrow> m_buf s = Some []
   | eReceivingConfirmation \<Rightarrow>
       (case m_buf s of None \<Rightarrow> False | Some b \<Rightarrow> length b < unat (m_confirmationLength s))
   | _ \<Rightarrow> True)"

definition quiet :: "tx \<Rightarrow> bool" where
  "quiet s \<longleftrightarrow> resting s \<and> pending s = outstanding s \<and> cancelled s = [] \<and> \<not> m_shutdown s \<and> buffer_ok s \<and>
     (m_state s = eNotConnected \<or> thread s = Looping) \<and>
     (m_running s \<longleftrightarrow> thread s \<noteq> NoThread) \<and> (m_sentinel s \<longleftrightarrow> m_state s \<noteq> eNotConnected)"

text \<open>Between two states: the machine is about to be called and nothing is outstanding.\<close>

definition engaged :: "tx \<Rightarrow> bool" where
  "engaged s \<longleftrightarrow> pending s = [] \<and> cancelled s = [] \<and> \<not> m_shutdown s \<and> thread s = Looping \<and> m_running s \<and>
     (m_sentinel s \<or> m_state s = eNotConnected \<or> m_state s = eResolving)"

lemmas quiet_defs = quiet_def resting_def outstanding_def buffer_ok_def

lemma StateMachine_quiet: "StateMachine h s = Some s' \<Longrightarrow> engaged s \<Longrightarrow> quiet s'"
proof (induction h s rule: StateMachine.induct)
  case (1 h s)
  show ?case
  proof (cases "m_state s")
    case eReceivingConfirmation
    then obtain b where b: "m_buf s = Some b"
      using "1.prems"(1) by (cases "m_buf s") (simp_all add: StateMachine.simps [of h s])
    have e: "engaged (enter eProcessingConfirmation s)"
      using "1.prems"(2) eReceivingConfirmation by (simp add: engaged_def enter_def)
    show ?thesis
    proof (cases "length b < unat (m_confirmationLength s)")
      case True
      with 1 b eReceivingConfirmation show ?thesis
        by (auto simp: tx_simps launch_def engaged_def quiet_defs)
    next
      case False
      with "1.IH"(1) [OF eReceivingConfirmation b] e b eReceivingConfirmation "1.prems"(1)
      show ?thesis by (simp add: tx_simps)
    qed
  next
    case eProcessingConfirmation
    with "1.prems"(1) obtain ok t where p: "process_confirmation h s = Some (ok, t)"
      and t: "StateMachine h (enter (if ok then eSuccess else eError) t) = Some s'"
      by (auto simp: tx_simps split: bind_splits prod.splits)
    from process_confirmation_processed [OF p] "1.prems"(2) eProcessingConfirmation
    have "engaged (enter (if ok then eSuccess else eError) t)"
      by cases (auto simp: engaged_def emit_def enter_def)
    with "1.IH"(2) [OF eProcessingConfirmation p refl] t show ?thesis by blast
  next
    case eError
    with "1.prems" show ?thesis
      by (auto simp: tx_simps Let_def engaged_def quiet_defs)
  qed (use 1 in \<open>auto simp: tx_simps launch_def emit_def enter_def engaged_def quiet_defs
        split: prod.splits\<close>)
qed

text \<open>What completes an operation of a quiet transmitter.\<close>

lemma quiet_completion:
  assumes "quiet s" and "op \<in> set (pending s)" and "answers op i" and "\<not> aborted i"
  obtains r where "m_state s = eResolving" "i = Resolved r"
  | r where "m_state s = eConnecting" "i = Connected r"
  | r where "m_state s = eSending" "i = WriteDone r"
  | r where "m_state s = eReceivingHeader" "i = HeaderRead r" "m_buf s = Some []"
  | r b where "m_state s = eReceivingConfirmation" "i = ConfirmationRead r" "m_buf s = Some b"
      "length b < unat (m_confirmationLength s)"
  | r where "m_state s = eError" "i = TimerFired r"
proof -
  from assms have "outstanding s = [op]"
    by (auto simp: quiet_defs split: State.splits)
  with assms show thesis
    by (cases "m_state s"; cases i) (auto simp: quiet_defs split: option.splits intro: that)
qed

lemma quiet_engaged:
  assumes "quiet s" and "m_state s \<noteq> eNotConnected" and "op \<in> set (pending s)"
  shows "engaged (s\<lparr>pending := remove1 op (pending s)\<rparr>)"
  using assms by (auto simp: quiet_defs engaged_def split: State.splits)

lemma engaged_simps [simp]:
  "engaged (emit ev s) = engaged s" "engaged (s\<lparr>m_buf := b\<rparr>) = engaged s"
  "engaged (s\<lparr>m_confirmationLength := l\<rparr>) = engaged s" "engaged (s\<lparr>m_rIterator := x\<rparr>) = engaged s"
  "engaged (s\<lparr>m_errDelay := d\<rparr>) = engaged s" "engaged (s\<lparr>sock_peer := p\<rparr>) = engaged s"
  by (simp_all add: engaged_def emit_def)

lemma engaged_enter:
  "engaged s \<Longrightarrow> m_state s \<noteq> eNotConnected \<Longrightarrow> m_state s \<noteq> eResolving \<Longrightarrow> engaged (enter st s)"
  "engaged s \<Longrightarrow> m_sentinel s \<Longrightarrow> engaged (enter st s)"
  by (auto simp: engaged_def enter_def)

lemma engaged_fail: "engaged s \<Longrightarrow> m_sentinel s \<Longrightarrow> engaged (fail err s)"
  by (simp add: fail_def engaged_def enter_def emit_def)

lemma react_completion_quiet:
  assumes q: "quiet s" and "op \<in> set (pending s)" and "answers op i" and "\<not> aborted i"
    and r: "react h i (s\<lparr>pending := remove1 op (pending s)\<rparr>) = Some s'"
  shows "quiet s'"
proof -
  let ?s = "s\<lparr>pending := remove1 op (pending s)\<rparr>"
  have na: "m_state s \<noteq> eNotConnected"
    using q assms(2) by (auto simp: quiet_defs)
  with quiet_engaged [OF q] assms(2) have e: "engaged ?s" by simp
  have f: "m_sentinel ?s" "\<not> m_shutdown ?s" "m_sentinel s" "\<not> m_shutdown s"
    using q na by (simp_all add: quiet_def)
  note sm = StateMachine_quiet [of h _ s']
  from q assms(2-4) show ?thesis
  proof (cases rule: quiet_completion)
    case (1 x)
    with r e f assms(4) show ?thesis
      by (cases x) (auto dest!: sm intro!: engaged_fail engaged_enter split: if_splits)
  next
    case (2 x)
    with r e f assms(4) show ?thesis
      by (cases x) (auto dest!: sm intro!: engaged_fail engaged_enter split: if_splits)
  next
    case (3 x)
    with r e f assms(4) show ?thesis
      by (cases x) (auto simp: Let_def dest!: sm intro!: engaged_fail engaged_enter split: if_splits)
  next
    case (4 x)
    with r e f assms(4) show ?thesis
      by (cases x) (auto simp: Let_def dest!: sm intro!: engaged_fail engaged_enter
        split: if_splits bind_splits prod.splits)
  next
    case (5 x)
    with r e f assms(4) show ?thesis
      by (cases x) (auto simp: Let_def dest!: sm intro!: engaged_fail engaged_enter
        split: if_splits bind_splits prod.splits)
  next
    case (6 x)
    with r e f assms(4) show ?thesis
      by (cases x) (auto dest!: sm intro!: engaged_enter split: if_splits)
  qed
qed

lemma quiet_frame:
  "quiet (s\<lparr>m_messageQueue := q\<rparr>) = quiet s" "quiet (s\<lparr>sock_peer := p\<rparr>) = quiet s"
  by (simp_all add: quiet_defs cong: State.case_cong option.case_cong)

lemma quiet_calls:
  "quiet s \<Longrightarrow> quiet (start s)"
  "quiet s \<Longrightarrow> thread s = Starting \<Longrightarrow> quiet (worker_begin s)"
  "quiet s \<Longrightarrow> thread s = Looping \<Longrightarrow> quiet (worker_check s)"
  "quiet s \<Longrightarrow> thread s = Waiting \<Longrightarrow> quiet (worker_wait t s)"
proof -
  assume q: "quiet s"
  show "quiet (start s)"
    using q by (cases "m_state s") (simp_all add: start_def quiet_defs)
  show "quiet (worker_begin s)" if "thread s = Starting"
    using q that by (cases "m_state s") (simp_all add: worker_begin_def quiet_defs)
  show "quiet (worker_check s)" if "thread s = Looping"
    using q that by (cases "m_state s") (simp_all add: worker_check_def quiet_defs)
  show "quiet (worker_wait t s)" if "thread s = Waiting"
    using q that by (cases "m_state s") (simp_all add: worker_wait_def quiet_defs)
qed

lemma quiet_enter_Resolving:
  "quiet s \<Longrightarrow> thread s = Entering \<Longrightarrow> worker_enter h s = Some s' \<Longrightarrow> quiet s'"
  by (cases "m_state s") (auto simp: worker_enter_def tx_simps quiet_defs launch_def enter_def)

lemma tx_step_quiet: "tx_step h s i (Some s') \<Longrightarrow> no_stop i \<Longrightarrow> quiet s \<Longrightarrow> quiet s'"
proof (induction s i "Some s'" rule: tx_step.induct)
  case (client i s)
  then show ?case
    by (cases i) (auto simp: post_def dropMessages_def quiet_calls quiet_frame)
next
  case (completed op s i)
  then show ?case by (metis react_completion_quiet)
next
  case (complete_cancelled op s i)
  then show ?case by (simp add: quiet_def)
qed (auto simp: quiet_calls intro: quiet_enter_Resolving)

lemma new_quiet: "quiet (SbdTransmitter_new host port)"
  by (simp add: SbdTransmitter_new_def quiet_defs)

lemma tx_run_quiet:
  "tx_run h (SbdTransmitter_new host port) ins s \<Longrightarrow> \<forall>i \<in> set ins. no_stop i \<Longrightarrow> quiet s"
  using tx_run_invariant [of h _ ins s quiet no_stop] tx_step_quiet new_quiet by blast

end
