(* ===== verification/TransmitterFifo.thy ===== *)
theory TransmitterFifo
  imports TransmitterInv
begin

text \<open>
  The ledger of the transmitter. What it shows to the outside determines which frames the gateway has
  acknowledged; the ledger equation says that these, the frame under way and the queue are together
  what was posted, in the order of posting.
\<close>

section \<open>Frames and acknowledgements\<close>

definition sendable :: "MtMessage \<Rightarrow> bool" where
  "sendable m \<longleftrightarrow> (\<forall>e \<in> set (m_elements m). el_packs e)"

definition message_wire :: "MtMessage \<Rightarrow> byte list" where
  "message_wire m = SbdProtoNumber # be16 (of_nat (length (wire_elements (m_elements m)))) @
     wire_elements (m_elements m)"

definition empty_frame :: "byte list" where
  "empty_frame = [1, 0, 0]"

lemma serialize_sendable:
  assumes "sendable m"
  obtains m' where "MtMessage_serialize h m = (m', message_wire m)" "sendable m'"
    "message_wire m' = message_wire m"
proof (rule that)
  from assms have p: "\<forall>e \<in> set (m_elements m). el_packs e"
    by (simp add: sendable_def)
  show "MtMessage_serialize h m = (m\<lparr>m_elements := map el_sent (m_elements m)\<rparr>, message_wire m)"
    by (simp add: serialize_wire [OF p] message_wire_def)
  show "sendable (m\<lparr>m_elements := map el_sent (m_elements m)\<rparr>)"
    using map_el_sent_packs [OF p] by (simp add: sendable_def)
  show "message_wire (m\<lparr>m_elements := map el_sent (m_elements m)\<rparr>) = message_wire m"
    by (simp add: message_wire_def wire_elements_sent [OF p])
qed

lemma sendable_init: "sendable MtMessage_init" "message_wire MtMessage_init = empty_frame"
  by (simp_all add: sendable_def message_wire_def MtMessage_init_def empty_frame_def be16_def
      SbdProtoNumber_def)

lemma message_wire_not_empty: "m_elements m \<noteq> [] \<Longrightarrow> message_wire m \<noteq> empty_frame"
proof -
  assume "m_elements m \<noteq> []"
  then have "3 < length (message_wire m)"
    by (cases "m_elements m") (simp_all add: message_wire_def)
  then show ?thesis by (auto simp: empty_frame_def)
qed

text \<open>The frames that were acknowledged with a status that is no error, and the frame that was written
  last, unless its result has come already.\<close>

fun deliver :: "byte list list \<times> byte list option \<Rightarrow> tx_event \<Rightarrow> byte list list \<times> byte list option" where
  "deliver (acks, w0) (Written w) = (acks, Some w)"
| "deliver (acks, w0) (OnTransmitResult st) =
     (if 0 \<le> st then (acks @ (case w0 of Some w \<Rightarrow> [w] | None \<Rightarrow> []), None) else (acks, None))"
| "deliver a _ = a"

lemma deliver_eqs:
  "deliver a (Written w) = (fst a, Some w)"
  "deliver a (OnTransmitResult st) =
     (if 0 \<le> st then fst a @ (case snd a of Some w \<Rightarrow> [w] | None \<Rightarrow> []) else fst a, None)"
  "deliver a (OnError err) = a" "deliver a SocketClosed = a"
  by (cases a; simp)+

definition book :: "tx \<Rightarrow> byte list list \<times> byte list option" where
  "book s = foldl deliver ([], None) (log s)"

definition acknowledged :: "tx \<Rightarrow> byte list list" where
  "acknowledged s = fst (book s)"

definition real_frames :: "byte list list \<Rightarrow> byte list list" where
  "real_frames = filter (\<lambda>w. w \<noteq> empty_frame)"

definition under_way :: "tx \<Rightarrow> byte list list" where
  "under_way s = (if m_state s \<in> {eSending, eReceivingHeader, eReceivingConfirmation}
     then [message_wire (m_sendingMessage s)] else [])"

definition queued :: "tx \<Rightarrow> byte list list" where
  "queued s = map message_wire (jobs (m_messageQueue s))"

section \<open>The ledger equation\<close>

text \<open>\<open>fly\<close> is what is under way; \<open>sent\<close> tells that it was written and has no result yet.\<close>

definition ledger :: "byte list list \<Rightarrow> bool \<Rightarrow> byte list list \<Rightarrow> tx \<Rightarrow> bool" where
  "ledger fly sent posted s \<longleftrightarrow>
     real_frames (acknowledged s @ fly @ queued s) = real_frames posted \<and>
     (\<forall>m \<in> set (jobs (m_messageQueue s)). sendable m) \<and>
     (fly \<noteq> [] \<longrightarrow> fly = [message_wire (m_sendingMessage s)] \<and> sendable (m_sendingMessage s)) \<and>
     (sent \<longrightarrow> (\<exists>w. fly = [w] \<and> snd (book s) = Some w))"

text \<open>Before the machine runs in the given state.\<close>

definition ledger_pre :: "byte list list \<Rightarrow> tx \<Rightarrow> bool" where
  "ledger_pre posted s =
     (let sent = m_state s \<in> {eReceivingHeader, eReceivingConfirmation, eProcessingConfirmation};
          gives_back = m_state s = eError \<and> m_prevState s \<ge> eSending
      in ledger (if sent \<or> gives_back then [message_wire (m_sendingMessage s)] else []) sent posted s)"

definition ledger_rest :: "byte list list \<Rightarrow> tx \<Rightarrow> bool" where
  "ledger_rest posted s \<longleftrightarrow> ledger (under_way s) (under_way s \<noteq> []) posted s"

lemmas ledger_defs = deliver_eqs ledger_def ledger_pre_def ledger_rest_def under_way_def queued_def
  acknowledged_def book_def real_frames_def

lemma ledger_frame [simp]:
  "ledger fly sent posted (s\<lparr>m_buf := b\<rparr>) = ledger fly sent posted s"
  "ledger fly sent posted (s\<lparr>m_errDelay := d\<rparr>) = ledger fly sent posted s"
  "ledger fly sent posted (s\<lparr>m_confirmationLength := l\<rparr>) = ledger fly sent posted s"
  "ledger fly sent posted (s\<lparr>m_rIterator := x\<rparr>) = ledger fly sent posted s"
  "ledger fly sent posted (s\<lparr>sock_peer := p\<rparr>) = ledger fly sent posted s"
  "ledger fly sent posted (s\<lparr>thread := t\<rparr>) = ledger fly sent posted s"
  "ledger fly sent posted (s\<lparr>pending := ops\<rparr>) = ledger fly sent posted s"
  "ledger fly sent posted (enter st s) = ledger fly sent posted s"
  "ledger fly sent posted (emit (OnError err) s) = ledger fly sent posted s"
  by (simp_all add: ledger_defs enter_def emit_def)

lemma message_of_frame [simp]:
  "m_sendingMessage (s\<lparr>m_buf := b\<rparr>) = m_sendingMessage s" "m_sendingMessage (emit ev s) = m_sendingMessage s"
  "m_sendingMessage (enter st s) = m_sendingMessage s" "m_prevState (enter st s) = m_state s"
  "m_state (enter st s) = st" "m_state (emit ev s) = m_state s"
  by (simp_all add: enter_def emit_def)

lemma ledger_unsent: "ledger fly True posted s \<Longrightarrow> ledger fly False posted s"
  by (simp add: ledger_def)

lemma ledger_refused:
  "st < 0 \<Longrightarrow> ledger fly True posted s \<Longrightarrow> ledger fly False posted (emit (OnTransmitResult st) s)"
  by (simp add: ledger_defs emit_def)

lemma ledger_accepted:
  "0 \<le> st \<Longrightarrow> ledger fly True posted s \<Longrightarrow> ledger [] False posted (emit (OnTransmitResult st) s)"
  by (auto simp: ledger_defs emit_def)

lemma ledger_transfer:
  "ledger fly sent posted s \<Longrightarrow> book s' = book s \<Longrightarrow> m_messageQueue s' = m_messageQueue s \<Longrightarrow>
     m_sendingMessage s' = m_sendingMessage s \<Longrightarrow> ledger fly sent posted s'"
  by (simp add: ledger_def queued_def acknowledged_def)

lemma ledger_take:
  assumes "ledger [] False posted s" and "get MtMessage_init (m_messageQueue s) = (m, q)"
  shows "sendable m \<and> (\<forall>m \<in> set (jobs q). sendable m) \<and>
    real_frames (acknowledged s @ message_wire m # map message_wire (jobs q)) = real_frames posted"
proof (cases "jobs (m_messageQueue s) = []")
  case True
  with assms jq.items_deq [OF assms(2)] show ?thesis
    by (simp add: ledger_defs sendable_init)
next
  case False
  with assms jq.items_deq [OF assms(2)] show ?thesis
    by (simp add: ledger_defs)
qed

lemma StateMachine_ledger:
  "StateMachine h s = Some s' \<Longrightarrow> ledger_pre posted s \<Longrightarrow> ledger_rest posted s'"
proof (induction h s rule: StateMachine.induct)
  case (1 h s)
  show ?case
  proof (cases "m_state s")
    case eSending
    obtain m q where g: "get MtMessage_init (m_messageQueue s) = (m, q)"
      by fastforce
    from "1.prems"(2) eSending have l: "ledger [] False posted s"
      by (simp add: ledger_pre_def)
    with ledger_take [OF l g] have m: "sendable m" by simp
    obtain m' where ser: "MtMessage_serialize h m = (m', message_wire m)" "sendable m'"
        "message_wire m' = message_wire m"
      using serialize_sendable [OF m] by blast
    from eSending "1.prems"(1) have "s' = launch (OpWrite (message_wire m))
        (emit (Written (message_wire m)) (s\<lparr>m_messageQueue := q, m_sendingMessage := m',
          m_buf := Some (message_wire m)\<rparr>))"
      by (simp add: tx_simps g ser)
    with eSending have "m_state s' = eSending" "book s' = (acknowledged s, Some (message_wire m))"
      "m_messageQueue s' = q" "m_sendingMessage s' = m'"
      by (simp_all add: launch_def emit_def book_def acknowledged_def deliver_eqs)
    with ledger_take [OF l g] ser(2,3) show ?thesis
      by (simp add: ledger_rest_def ledger_def under_way_def queued_def acknowledged_def)
  next
    case eReceivingConfirmation
    then obtain b where b: "m_buf s = Some b"
      using "1.prems"(1) by (cases "m_buf s") (simp_all add: StateMachine.simps [of h s])
    from "1.prems"(2) eReceivingConfirmation have e: "ledger_pre posted (enter eProcessingConfirmation s)"
      by (simp add: ledger_pre_def)
    show ?thesis
    proof (cases "length b < unat (m_confirmationLength s)")
      case True
      with "1.prems"(1) b eReceivingConfirmation
      have "s' = launch (OpReadConfirmation (unat (m_confirmationLength s))) s"
        by (simp add: tx_simps)
      with "1.prems"(2) eReceivingConfirmation show ?thesis
        by (simp add: ledger_pre_def ledger_rest_def under_way_def launch_def)
    next
      case False
      with "1.IH"(1) [OF eReceivingConfirmation b] e b eReceivingConfirmation "1.prems"(1)
      show ?thesis by (simp add: tx_simps)
    qed
  next
    case eProcessingConfirmation
    with "1.prems"(1) obtain ok t where p: "process_confirmation h s = Some (ok, t)"
      and t: "StateMachine h (enter (if ok then eSuccess else eError) t) = Some s'"
      by (auto simp: tx_simps split: bind_splits prod.splits)
    from "1.prems"(2) eProcessingConfirmation
    have l: "ledger [message_wire (m_sendingMessage s)] True posted s"
      by (simp add: ledger_pre_def)
    note u = ledger_unsent [OF l]
    from process_confirmation_processed [OF p]
    have "ledger_pre posted (enter (if ok then eSuccess else eError) t)"
    proof cases
      case (unusable err)
      with u eProcessingConfirmation show ?thesis
        by (simp add: ledger_pre_def less_eq_State_def)
    next
      case (refused st b)
      with l eProcessingConfirmation show ?thesis
        by (simp add: ledger_pre_def less_eq_State_def ledger_refused)
    qed (use l in \<open>simp_all add: ledger_pre_def ledger_accepted\<close>)
    with "1.IH"(2) [OF eProcessingConfirmation p refl] t show ?thesis by blast
  next
    case eError
    let ?giving = "m_prevState s \<ge> eSending"
    have l: "ledger (if ?giving then [message_wire (m_sendingMessage s)] else []) False posted s"
      using "1.prems"(2) eError by (simp add: ledger_pre_def)
    have "m_state s' = eError" "book s' = book s"
      "jobs (m_messageQueue s') =
         (if ?giving then m_sendingMessage s # jobs (m_messageQueue s) else jobs (m_messageQueue s))"
      using "1.prems"(1) eError by (auto simp: tx_simps Let_def unget_def book_def deliver_eqs)
    with l show ?thesis
      by (simp add: ledger_rest_def ledger_def under_way_def queued_def acknowledged_def
          real_frames_def split: if_splits)
  next
    case eSuccess
    with "1.prems" have "ledger [] False posted s" "m_state s' = eNotConnected" "book s' = book s"
      "m_messageQueue s' = m_messageQueue s" "m_sendingMessage s' = m_sendingMessage s"
      by (auto simp: tx_simps ledger_pre_def book_def deliver_eqs)
    then show ?thesis
      by (auto simp: ledger_rest_def under_way_def elim: ledger_transfer)
  qed (use 1 in \<open>auto simp: tx_simps launch_def ledger_pre_def ledger_rest_def under_way_def book_def
        elim!: ledger_transfer\<close>)
qed

section \<open>Every step keeps the ledger\<close>

text \<open>The frames that an input posts, and the inputs of an orderly run: no \<open>stop\<close>, no \<open>dropMessages\<close>, and
  the client posts messages whose elements can be framed.\<close>

fun posts :: "tx_input \<Rightarrow> byte list list" where
  "posts (Post m) = [message_wire m]"
| "posts _ = []"

fun orderly :: "tx_input \<Rightarrow> bool" where
  "orderly (Post m) = sendable m"
| "orderly DropMessages = False"
| "orderly (Stop woexcept timer_exc socket_exc) = False"
| "orderly _ = True"

lemma orderly_no_stop: "orderly i \<Longrightarrow> no_stop i"
  by (cases i) simp_all

lemma ledger_fail [simp]: "ledger fly sent posted (fail err s) = ledger fly sent posted s"
  by (simp add: fail_def)

lemma fail_frame [simp]:
  "m_state (fail err s) = eError" "m_prevState (fail err s) = m_state s"
  "m_sendingMessage (fail err s) = m_sendingMessage s"
  by (simp_all add: fail_def)

lemma react_completion_ledger:
  assumes q: "quiet s" and "op \<in> set (pending s)" and "answers op i" and "\<not> aborted i"
    and l: "ledger_rest posted s"
    and r: "react h i (s\<lparr>pending := remove1 op (pending s)\<rparr>) = Some s'"
  shows "ledger_rest posted s'"
proof -
  have f: "\<not> m_shutdown s"
    using q by (simp add: quiet_def)
  note sm = StateMachine_ledger [of h _ s' posted]
  note pre = ledger_pre_def less_eq_State_def Let_def
  from q assms(2-4) show ?thesis
  proof (cases rule: quiet_completion)
    case (1 x)
    with l have k: "ledger [] False posted s"
      by (simp add: ledger_rest_def under_way_def)
    from r k f 1 assms(4) show ?thesis
      by (cases x) (auto simp: pre dest!: sm split: if_splits bind_splits prod.splits)
  next
    case (2 x)
    with l have k: "ledger [] False posted s"
      by (simp add: ledger_rest_def under_way_def)
    from r k f 2 assms(4) show ?thesis
      by (cases x) (auto simp: pre dest!: sm split: if_splits bind_splits prod.splits)
  next
    case (3 x)
    with l have k: "ledger [message_wire (m_sendingMessage s)] True posted s"
      by (simp add: ledger_rest_def under_way_def)
    note k' = ledger_unsent [OF k]
    from r k k' f 3 assms(4) show ?thesis
      by (cases x) (auto simp: pre dest!: sm split: if_splits bind_splits prod.splits)
  next
    case (4 x)
    with l have k: "ledger [message_wire (m_sendingMessage s)] True posted s"
      by (simp add: ledger_rest_def under_way_def)
    note k' = ledger_unsent [OF k]
    from r k k' f 4 assms(4) show ?thesis
      by (cases x) (auto simp: pre dest!: sm split: if_splits bind_splits prod.splits)
  next
    case (5 x)
    with l have k: "ledger [message_wire (m_sendingMessage s)] True posted s"
      by (simp add: ledger_rest_def under_way_def)
    note k' = ledger_unsent [OF k]
    from r k k' f 5 assms(4) show ?thesis
      by (cases x) (auto simp: pre dest!: sm split: if_splits bind_splits prod.splits)
  next
    case (6 x)
    with l have k: "ledger [] False posted s"
      by (simp add: ledger_rest_def under_way_def)
    from r k f 6 assms(4) show ?thesis
      by (cases x) (auto simp: pre dest!: sm split: if_splits bind_splits prod.splits)
  qed
qed

lemma ledger_rest_post:
  "ledger_rest posted s \<Longrightarrow> sendable m \<Longrightarrow> ledger_rest (posted @ [message_wire m]) (post m s)"
  by (auto simp: ledger_rest_def ledger_def under_way_def queued_def acknowledged_def book_def
      real_frames_def post_def jq.items_enq)

lemma ledger_rest_cong:
  assumes "ledger_rest posted s" and "m_state s' = m_state s" and "log s' = log s"
    and "m_messageQueue s' = m_messageQueue s" and "m_sendingMessage s' = m_sendingMessage s"
  shows "ledger_rest posted s'"
proof -
  have "under_way s' = under_way s" "book s' = book s"
    using assms by (simp_all add: under_way_def book_def)
  with assms show ?thesis
    by (simp add: ledger_rest_def ledger_transfer [of _ _ _ s s'])
qed

lemma tx_step_ledger:
  "tx_step h s i (Some s') \<Longrightarrow> orderly i \<Longrightarrow> quiet s \<Longrightarrow> ledger_rest posted s \<Longrightarrow>
     ledger_rest (posted @ posts i) s'"
proof (induction s i "Some s'" rule: tx_step.induct)
  case (client i s)
  then show ?case
    by (cases i) (auto simp: ledger_rest_post start_def elim!: ledger_rest_cong)
next
  case (started s)
  then have "m_state s = eNotConnected"
    by (auto simp: quiet_def)
  with started show ?case
    by (auto simp: worker_begin_def elim!: ledger_rest_cong)
next
  case (checked s)
  then show ?case
    by (auto simp: worker_check_def elim!: ledger_rest_cong)
next
  case (waited s t)
  then show ?case
    by (auto simp: worker_wait_def elim!: ledger_rest_cong)
next
  case (entered s)
  then have "m_state s = eNotConnected"
    by (auto simp: quiet_def)
  with entered show ?case
    by (auto simp: worker_enter_def ledger_pre_def ledger_rest_def under_way_def
        dest!: StateMachine_ledger [of h _ s' posted])
next
  case (completed op s i)
  then have "posts i = []"
    by (cases op; cases i) simp_all
  with completed show ?case by (metis append_Nil2 react_completion_ledger)
next
  case (complete_cancelled op s i)
  then show ?case by (simp add: quiet_def)
qed

lemma new_ledger: "ledger_rest [] (SbdTransmitter_new host port)"
  by (simp add: ledger_rest_def ledger_def under_way_def queued_def acknowledged_def book_def
      SbdTransmitter_new_def queue_new_def)

lemma tx_run_ledger:
  assumes "tx_run h (SbdTransmitter_new host port) ins s" and "\<forall>i \<in> set ins. orderly i"
  shows "ledger_rest (concat (map posts ins)) s \<and> quiet s"
  using assms
proof (induction rule: tx_run.induct)
  case nil
  then show ?case by (simp add: new_ledger new_quiet)
next
  case (snoc ins s' i s'')
  then have "orderly i" "ledger_rest (concat (map posts ins)) s'" "quiet s'"
    by simp_all
  with tx_step_ledger [OF snoc.hyps(2)] tx_step_quiet [OF snoc.hyps(2)] orderly_no_stop
  show ?case by simp
qed

end
