(* ===== verification/TransmitterExec.thy ===== *)
theory TransmitterExec
  imports TransmitterFifo CodecLemmas
begin

text \<open>
  The step relation as a function of the input, for runs that are written out: the sessions with the
  gateway, successful or not, and the back-off after failures.
\<close>

section \<open>Executing a list of inputs\<close>

fun worker_at :: "tx_input \<Rightarrow> worker_pc option" where
  "worker_at WorkerBegin = Some Starting"
| "worker_at WorkerCheck = Some Looping"
| "worker_at (WorkerWait t) = Some Waiting"
| "worker_at WorkerEnter = Some Entering"
| "worker_at _ = None"

text \<open>An input that answers several operations answers the first one that is not cancelled.\<close>

definition tx_do :: "host \<Rightarrow> tx_input \<Rightarrow> tx \<Rightarrow> tx option" where
  "tx_do h i s =
     (if from_client i then react h i s
      else case worker_at i of
        Some pc \<Rightarrow> if thread s = pc then react h i s else None
      | None \<Rightarrow>
        (case find (\<lambda>op. answers op i \<and> \<not> aborted i) (pending s) of
           Some op \<Rightarrow> react h i (s\<lparr>pending := remove1 op (pending s)\<rparr>)
         | None \<Rightarrow>
           (case find (\<lambda>op. answers op i) (cancelled s) of
              Some op \<Rightarrow> react h i (s\<lparr>cancelled := remove1 op (cancelled s)\<rparr>)
            | None \<Rightarrow> None)))"

fun tx_exec :: "host \<Rightarrow> tx_input list \<Rightarrow> tx \<Rightarrow> tx option" where
  "tx_exec h [] s = Some s"
| "tx_exec h (i # ins) s = tx_do h i s \<bind> tx_exec h ins"

lemma tx_step_completed:
  "react h i (s\<lparr>pending := remove1 op (pending s)\<rparr>) = Some s' \<Longrightarrow> op \<in> set (pending s) \<Longrightarrow>
     answers op i \<Longrightarrow> \<not> aborted i \<Longrightarrow> tx_step h s i (Some s')"
  using tx_step.completed [of op s i h] by simp

lemma tx_step_cancelled:
  "react h i (s\<lparr>cancelled := remove1 op (cancelled s)\<rparr>) = Some s' \<Longrightarrow> op \<in> set (cancelled s) \<Longrightarrow>
     answers op i \<Longrightarrow> tx_step h s i (Some s')"
  using tx_step.complete_cancelled [of op s i h] by simp

lemma tx_do_step: "tx_do h i s = Some s' \<Longrightarrow> tx_step h s i (Some s')"
proof -
  assume d: "tx_do h i s = Some s'"
  show ?thesis
  proof (cases "worker_at i")
    case (Some pc)
    then have "\<not> from_client i" by (cases i) simp_all
    with d Some have "thread s = pc" and r: "react h i s = Some s'"
      by (simp_all add: tx_do_def split: if_splits)
    with Some show ?thesis
      using tx_step.started [of s h] tx_step.checked [of s h] tx_step.waited [of s h]
        tx_step.entered [of s h]
      by (cases i) (simp_all flip: r del: react.simps)
  next
    case None
    show ?thesis
    proof (cases "from_client i")
      case True
      with d tx_step.client [of i h s] show ?thesis by (simp add: tx_do_def)
    next
      case False
      with d None show ?thesis
        by (auto simp: tx_do_def find_Some_iff intro: tx_step_completed tx_step_cancelled nth_mem
            split: option.splits)
    qed
  qed
qed

lemma tx_exec_run: "tx_exec h ins s = Some s' \<Longrightarrow> tx_run h s ins s'"
  by (induction ins arbitrary: s)
    (auto split: bind_splits intro: tx_run.nil tx_run_Cons tx_do_step)

lemma tx_exec_append: "tx_exec h (ins @ js) s = tx_exec h ins s \<bind> tx_exec h js"
  by (induction ins arbitrary: s) (simp_all split: bind_split)

section \<open>A confirmation of the gateway\<close>

text \<open>The body of the reply that carries one confirmation element, and what the codec makes of it in the
  string of the state machine, where a NUL follows it.\<close>

definition reply_body :: "IEMtConfirmationMsgDto ie \<Rightarrow> byte list" where
  "reply_body e = wire_elements [IEMtConfirmationMsg e]"

definition good_reply :: "IEMtConfirmationMsgDto ie \<Rightarrow> bool" where
  "good_reply e \<longleftrightarrow> MtConfirmation_good e \<and> m_id e = eMtConfirmationMsg"

definition reply_status :: "IEMtConfirmationMsgDto ie \<Rightarrow> int" where
  "reply_status e = sint (m_msgStatus (m_content e))"

lemma length_reply_body: "good_reply e \<Longrightarrow> length (reply_body e) = 28"
  by (simp add: reply_body_def good_reply_def MtConfirmation_length_body)

lemma reply_category:
  assumes "good_reply e"
  shows "messageCategory h (reply_body e @ rest) 28 = Some eMtConfirmMessage"
  using category_of_elements [of "[IEMtConfirmationMsg e]" h rest] assms length_reply_body [OF assms]
  by (simp add: reply_body_def good_reply_def category_spec_def IsMtConfirm_def IsMoElem_def
      IsMtElem_def id_defs)

lemma reply_parse:
  assumes "good_reply e"
  obtains m where "parse_MtConfirm h (reply_body e @ rest) 28 out = Some (Inr (), m)"
    and "MtConfirmMessage_status m = Some (reply_status e)"
  using parse_MtConfirm_wire [of "[IEMtConfirmationMsg e]" e h rest out] assms length_reply_body [OF assms]
  by (auto simp: good_reply_def typed_def reply_body_def reply_status_def)

text \<open>The end of a session that was confirmed.\<close>

definition finish :: "int \<Rightarrow> tx \<Rightarrow> tx" where
  "finish st s = s\<lparr>m_prevState := eSuccess, m_state := eNotConnected, m_buf := None,
     m_confirmationLength := 0, m_sentinel := False, m_errDelay := 1,
     sock_open := sock_open s \<and> \<not> sock_peer s, sock_peer := False,
     log := log s @ OnTransmitResult st # (if sock_peer s then [SocketClosed] else [])\<rparr>"

lemma confirmation_complete:
  assumes "good_reply e" and "0 \<le> reply_status e" and "m_state s = eReceivingConfirmation"
    and "m_buf s = Some (reply_body e)" and "m_confirmationLength s = 28"
  shows "StateMachine h s = Some (finish (reply_status e) s)"
proof -
  obtain m where "parse_MtConfirm h (reply_body e @ [0]) 28 MtConfirmMessage_init = Some (Inr (), m)"
    and "MtConfirmMessage_status m = Some (reply_status e)"
    using reply_parse [OF assms(1), of h "[0]"] by blast
  with assms(2-5) length_reply_body [OF assms(1)] reply_category [OF assms(1), of h "[0]"]
  show ?thesis
    by (simp add: tx_simps process_confirmation_def rd_def enter_def emit_def finish_def Let_def)
qed

text \<open>The confirmation may arrive in any segments.\<close>

lemma confirmation_segments:
  assumes "good_reply e" and "0 \<le> reply_status e" and "m_state s = eReceivingConfirmation"
    and "m_buf s = Some b" and "m_confirmationLength s = 28" and "pending s = [OpReadConfirmation 28]"
    and "\<not> m_shutdown s" and "b @ concat cs = reply_body e" and "\<forall>c \<in> set cs. c \<noteq> []"
    and "length b < 28"
  shows "tx_exec h (map (\<lambda>c. ConfirmationRead (Completed c)) cs) s =
    Some (finish (reply_status e) (s\<lparr>pending := []\<rparr>))"
  using assms(3-)
proof (induction cs arbitrary: s b)
  case Nil
  with length_reply_body [OF assms(1)] show ?case by simp
next
  case (Cons c cs)
  let ?t = "enter eReceivingConfirmation (s\<lparr>pending := [], m_buf := Some (b @ c)\<rparr>)"
  from Cons.prems length_reply_body [OF assms(1)] have len: "length (b @ c @ concat cs) = 28"
    by simp
  then have "length c \<le> 28" by simp
  with Cons.prems have step: "tx_do h (ConfirmationRead (Completed c)) s = StateMachine h ?t"
    by (simp add: tx_do_def)
  show ?case
  proof (cases "cs = []")
    case True
    with Cons.prems confirmation_complete [OF assms(1,2), of ?t h] step show ?thesis
      by (simp add: enter_def finish_def)
  next
    case False
    with Cons.prems(7) obtain x xs ys where "cs = (x # xs) # ys"
      by (metis list.exhaust list.set_intros(1) list.set_intros(2))
    with len have l: "length (b @ c) < 28" by simp
    with Cons.prems step
    have "tx_do h (ConfirmationRead (Completed c)) s =
      Some (launch (OpReadConfirmation 28) ?t)"
      by (simp add: tx_simps enter_def)
    moreover have "tx_exec h (map (\<lambda>c. ConfirmationRead (Completed c)) cs)
        (launch (OpReadConfirmation 28) ?t) = Some (finish (reply_status e) (?t\<lparr>pending := []\<rparr>))"
      using Cons.IH [of "launch (OpReadConfirmation 28) ?t" "b @ c"] Cons.prems l
      by (simp add: launch_def enter_def)
    ultimately show ?thesis
      by (simp add: enter_def finish_def)
  qed
qed

section \<open>A whole session\<close>

text \<open>From the decision to send up to the written frame.\<close>

definition session_prefix :: "string list \<Rightarrow> string \<Rightarrow> string list \<Rightarrow> nat \<Rightarrow> tx_input list" where
  "session_prefix eps msg at n =
     [WorkerEnter, Resolved (Completed eps), Connected (Completed (msg, at)), WriteDone (Completed n)]"

definition awaiting_reply :: "MtMessage \<Rightarrow> string list \<Rightarrow> MtMessage job_queue \<Rightarrow> byte list \<Rightarrow> tx \<Rightarrow> tx" where
  "awaiting_reply m eps q w s = s\<lparr>thread := Looping, m_prevState := eSending, m_state := eReceivingHeader,
     m_sentinel := True, m_rIterator := eps, sock_open := True, sock_peer := True,
     m_messageQueue := q, m_sendingMessage := m, m_buf := Some [],
     pending := [OpReadHeader (unat MoMessage_MaxMessageSize)], log := log s @ [Written w]\<rparr>"

lemma session_to_reply:
  assumes "quiet s" and "thread s = Entering" and "get MtMessage_init (m_messageQueue s) = (m, q)"
    and "MtMessage_serialize h m = (m', w)" and "at \<noteq> []"
  shows "tx_exec h (session_prefix eps msg at (length w)) s = Some (awaiting_reply m' eps q w s)"
proof -
  from assms(1,2) have "m_state s = eNotConnected" "pending s = []" "cancelled s = []" "\<not> m_shutdown s"
    by (auto simp: quiet_defs)
  with assms(2-5) show ?thesis
    by (simp add: session_prefix_def tx_do_def worker_enter_def tx_simps enter_def launch_def emit_def
        awaiting_reply_def Let_def)
qed

lemma session_reply:
  assumes e: "good_reply e" "0 \<le> reply_status e" and s: "m_state s = eReceivingHeader" "m_buf s = Some []"
    and p: "pending s = [OpReadHeader (unat MoMessage_MaxMessageSize)]" and sd: "\<not> m_shutdown s"
    and c: "c0 @ concat cs = SbdProtoNumber # be16 28 @ reply_body e" "3 \<le> length c0" "\<forall>c \<in> set cs. c \<noteq> []"
  shows "tx_exec h (HeaderRead (Completed c0) # map (\<lambda>c. ConfirmationRead (Completed c)) cs) s =
    Some (finish (reply_status e) (s\<lparr>pending := []\<rparr>))"
proof -
  define b where "b = drop 3 c0"
  have t3: "take 3 (SbdProtoNumber # be16 28 @ reply_body e) = SbdProtoNumber # be16 28"
    by (simp add: be16_def)
  from c(2) have "take 3 c0 = take 3 (c0 @ concat cs)" by simp
  then have c0: "c0 = SbdProtoNumber # be16 28 @ b"
    using append_take_drop_id [of 3 c0] t3 unfolding c(1) b_def by simp
  with c(1) have bw: "b @ concat cs = reply_body e" by simp
  with length_reply_body [OF e(1)] have len: "length b + length (concat cs) = 28"
    by (metis length_append)
  let ?t = "enter eReceivingConfirmation (s\<lparr>pending := [], m_buf := Some b, m_confirmationLength := 28\<rparr>)"
  have max: "unat MoMessage_MaxMessageSize = 2008"
    by (rule MoMessage_MaxMessageSize_value)
  from len c0 have "length c0 \<le> 2008" "c0 \<noteq> []" by simp_all
  then have step: "tx_do h (HeaderRead (Completed c0)) s = StateMachine h ?t"
    using s p sd max by (simp add: tx_do_def c0 take_header_wire uint_SbdProtoNumber Let_def)
  show ?thesis
  proof (cases "cs = []")
    case True
    with bw confirmation_complete [OF e, of ?t h] step show ?thesis
      by (simp add: enter_def finish_def)
  next
    case False
    with c(3) obtain x xs ys where "cs = (x # xs) # ys"
      by (metis list.exhaust list.set_intros(1))
    with len have l: "length b < 28" by simp
    with step have "tx_do h (HeaderRead (Completed c0)) s = Some (launch (OpReadConfirmation 28) ?t)"
      by (simp add: tx_simps enter_def)
    moreover have "tx_exec h (map (\<lambda>c. ConfirmationRead (Completed c)) cs)
        (launch (OpReadConfirmation 28) ?t) = Some (finish (reply_status e) (?t\<lparr>pending := []\<rparr>))"
      using confirmation_segments [OF e, of "launch (OpReadConfirmation 28) ?t" b cs h] bw l c(3) sd
      by (simp add: launch_def enter_def)
    ultimately show ?thesis
      by (simp add: enter_def finish_def)
  qed
qed

end
