(* ===== verification/TransmitterProps.thy ===== *)
theory TransmitterProps
  imports TransmitterExec FactoryProps
begin

text \<open>
  The properties of the transmitter: delivery in order, one operation at a time, the back-off, the
  successful and the failed session, and where it loses a message, sends an empty one or leaves the
  defined behaviour of C++.
\<close>

section \<open>Sample runs\<close>

definition sample_message :: MtMessage where
  "sample_message = MtMessage_init\<lparr>m_elements := factory_elements 1 sample_imei [104] sample_flags 5\<rparr>"

lemma sample_sendable: "sendable sample_message" "m_elements sample_message \<noteq> []"
  using factory_elements_packs [of sample_imei "[104]" 1 sample_flags 5]
  by (simp_all add: sendable_def sample_message_def sample_imei_def factory_elements_def)

text \<open>From the creation of a transmitter up to the point where a session begins.\<close>

definition startup :: "tx_input list" where
  "startup = [Start, WorkerBegin, WorkerCheck, WorkerWait False]"

definition opened :: "MtMessage list \<Rightarrow> tx" where
  "opened ms = (SbdTransmitter_new ''gw'' ''10800'')\<lparr>m_running := True, thread := Entering,
     m_messageQueue := \<lparr>jobs = ms\<rparr>\<rparr>"

lemma tx_exec_posts:
  "tx_exec h (map Post ms) s =
     Some (s\<lparr>m_messageQueue := \<lparr>jobs = jobs (m_messageQueue s) @ ms\<rparr>\<rparr>)"
  by (induction ms arbitrary: s) (simp_all add: tx_do_def post_def put_def)

lemma tx_exec_startup:
  "tx_exec h (map Post ms @ startup) (SbdTransmitter_new ''gw'' ''10800'') = Some (opened ms)"
  by (simp add: tx_exec_append tx_exec_posts startup_def tx_do_def start_def SbdTransmitter_new_def
      worker_begin_def worker_check_def worker_wait_def wait_for_def opened_def queue_new_def)

lemma opened_quiet: "quiet (opened ms)" "thread (opened ms) = Entering"
  by (simp_all add: opened_def SbdTransmitter_new_def quiet_defs)

lemma run_opened: "tx_run h (SbdTransmitter_new ''gw'' ''10800'') (map Post ms @ startup) (opened ms)"
  by (rule tx_exec_run) (rule tx_exec_startup)

section \<open>Delivery\<close>

lemma tx_run_real_frames:
  assumes "tx_run h (SbdTransmitter_new host port) ins s" and "\<forall>i \<in> set ins. orderly i"
    and "\<forall>w \<in> set (concat (map posts ins)). w \<noteq> empty_frame"
  shows "real_frames (acknowledged s @ under_way s @ queued s) = concat (map posts ins)"
proof -
  have "real_frames (acknowledged s @ under_way s @ queued s) = real_frames (concat (map posts ins))"
    using tx_run_ledger [OF assms(1,2)] by (simp add: ledger_rest_def ledger_def)
  moreover have "real_frames (concat (map posts ins)) = concat (map posts ins)"
    using assms(3) by (auto simp: real_frames_def intro!: filter_True)
  ultimately show ?thesis by simp
qed

lemma posts_not_empty:
  assumes "\<forall>m. Post m \<in> set ins \<longrightarrow> m_elements m \<noteq> []"
  shows "\<forall>w \<in> set (concat (map posts ins)). w \<noteq> empty_frame"
proof -
  have "\<forall>w \<in> set (posts i). w \<noteq> empty_frame" if "i \<in> set ins" for i
  proof (cases i)
    case (Post m)
    with that assms message_wire_not_empty [of m] show ?thesis by auto
  qed simp_all
  then show ?thesis by auto
qed

text \<open>C1 (invariant). Delivery in order, at least once, exactly once as far as the gateway has
  confirmed. In every run in which the client neither stops the transmitter nor drops messages and
  posts messages of packing elements, whatever the network does and however the threads interleave:
  the frames confirmed so far, then the frame under way, then the queue, are the posted messages in
  the order of posting (apart from empty frames, which a spurious wake-up makes the transmitter
  send).\<close>

theorem posted_messages_in_order:
  assumes "tx_run h (SbdTransmitter_new host port) ins s" and "\<forall>i \<in> set ins. orderly i"
    and "\<forall>m. Post m \<in> set ins \<longrightarrow> m_elements m \<noteq> []"
  shows "real_frames (acknowledged s @ under_way s @ queued s) = concat (map posts ins)"
  using tx_run_real_frames [OF assms(1,2) posts_not_empty [OF assms(3)]] .

theorem posted_messages_in_order_witness:
  "real_frames (acknowledged (opened [sample_message]) @ under_way (opened [sample_message]) @
     queued (opened [sample_message])) = [message_wire sample_message]"
  using posted_messages_in_order [OF run_opened [of sample_host "[sample_message]"]] sample_sendable
  by (auto simp: startup_def)

text \<open>C13 (invariant). Without \<open>stop\<close> the transmitter has at most one asynchronous operation outstanding,
  the one its state waits for; it is idle only in \<open>eNotConnected\<close>, never rests in the two transient
  states, holds the io service (\<open>m_sentinel\<close>) exactly while a session is open, and the buffers that its
  handlers dereference exist.\<close>

theorem one_operation_at_a_time:
  assumes "tx_run h (SbdTransmitter_new host port) ins s" and "\<forall>i \<in> set ins. no_stop i"
  shows "pending s = outstanding s \<and> cancelled s = [] \<and>
    (if m_state s = eNotConnected then pending s = [] else \<exists>op. pending s = [op]) \<and>
    m_state s \<noteq> eProcessingConfirmation \<and> m_state s \<noteq> eSuccess \<and>
    (m_sentinel s \<longleftrightarrow> m_state s \<noteq> eNotConnected) \<and>
    (m_state s \<in> {eSending, eReceivingHeader, eReceivingConfirmation} \<longrightarrow> m_buf s \<noteq> None)"
proof -
  from tx_run_quiet [OF assms] show ?thesis
    by (auto simp: quiet_defs split: State.splits option.splits)
qed

theorem one_operation_at_a_time_witness:
  "pending (opened [sample_message]) = outstanding (opened [sample_message])"
  using one_operation_at_a_time [OF run_opened [of sample_host "[sample_message]"]]
  by (simp add: startup_def)

section \<open>Back-off\<close>

text \<open>C21 (bounds). In every run at all, with \<open>stop\<close> and stale completions: the delay factor is a power of
  two between 1 and 64, and every delay the transmitter asks for is 100 ms times such a power, so at
  most 6.4 s; the machine always comes to rest in a state that waits.\<close>

theorem backoff_bounded:
  assumes "tx_run h (SbdTransmitter_new host port) ins s"
  shows "(\<exists>k \<le> 6. unat (m_errDelay s) = 2 ^ k) \<and>
    (\<forall>t. OpTimer t \<in> set (pending s) \<longrightarrow> (\<exists>k \<le> 6. t = 100 * 2 ^ k) \<and> 100 \<le> t \<and> t \<le> 6400) \<and>
    m_state s \<noteq> eProcessingConfirmation \<and> m_state s \<noteq> eSuccess"
proof -
  have "delay_ok s \<and> resting s"
    using tx_run_invariant [OF assms, of "\<lambda>s. delay_ok s \<and> resting s" "\<lambda>i. True"]
      tx_step_delay_resting new_delay_resting by blast
  then have k: "\<exists>k \<le> 6. m_errDelay s = 2 ^ k" and "resting s"
    and t: "\<And>t. OpTimer t \<in> set (pending s) \<Longrightarrow> \<exists>k \<le> 6. t = 100 * 2 ^ k"
    by (auto simp: delay_ok_def)
  moreover from k have "\<exists>k \<le> 6. unat (m_errDelay s) = 2 ^ k"
    by (metis unat_power_delay)
  moreover have "100 \<le> t \<and> t \<le> 6400" if "OpTimer t \<in> set (pending s)" for t
    using t [OF that] by (auto dest!: le_6_cases)
  ultimately show ?thesis by (auto simp: resting_def)
qed

theorem backoff_bounded_witness: "\<exists>k \<le> 6. unat (m_errDelay (opened [])) = 2 ^ k"
  using backoff_bounded [OF run_opened [of sample_host "[]"]] by blast

text \<open>A session that fails to resolve the name, from the expiry of the previous delay on.\<close>

definition failing_cycle :: "string \<Rightarrow> tx_input list" where
  "failing_cycle msg = [TimerFired (Completed ()), WorkerCheck, WorkerWait False, WorkerEnter,
     Resolved (Failed msg)]"

lemma failing_cycle_exec:
  assumes "quiet s" and "m_state s = eError" and "m_errDelay s = 2 ^ k" and "k \<le> 6"
  shows "\<exists>s'. tx_exec h (failing_cycle msg) s = Some s' \<and> quiet s' \<and> m_state s' = eError \<and>
    m_errDelay s' = 2 ^ (min 6 (Suc k)) \<and> m_messageQueue s' = m_messageQueue s"
proof -
  from assms(1,2) have p: "pending s = [OpTimer (Heartbeat * unat (m_errDelay s))]" and t: "thread s = Looping"
    and c: "cancelled s = []" "\<not> m_shutdown s"
    by (auto simp: quiet_defs)
  define d where "d = (if m_errDelay s < MaxDelay then m_errDelay s * 2 else m_errDelay s)"
  from assms(3) le_6_cases [OF assms(4)] have d: "d = 2 ^ (min 6 (Suc k))"
    by (auto simp: d_def MaxDelay_def)
  have "\<exists>s'. tx_exec h (failing_cycle msg) s = Some s' \<and> m_state s' = eError \<and> m_errDelay s' = d \<and>
      m_messageQueue s' = m_messageQueue s"
    using p t c assms(2)
    by (simp add: failing_cycle_def tx_do_def d_def tx_simps enter_def worker_check_def worker_wait_def
        wait_for_def worker_enter_def launch_def fail_def emit_def less_State_def less_eq_State_def)
  then obtain s' where s': "tx_exec h (failing_cycle msg) s = Some s'" "m_state s' = eError"
      "m_errDelay s' = d" "m_messageQueue s' = m_messageQueue s"
    by blast
  have "quiet s'"
    by (rule tx_run_invariant [OF tx_exec_run [OF s'(1)], of quiet no_stop])
      (use assms(1) tx_step_quiet in \<open>auto simp: failing_cycle_def\<close>)
  with s' d show ?thesis by blast
qed

text \<open>The back-off: after \<open>n\<close> further failed attempts the delay factor has doubled \<open>n\<close>
  times, up to 64, the timer that is running has that factor, and the queue has not changed.\<close>

theorem backoff_doubles:
  assumes "quiet s" and "m_state s = eError" and "m_errDelay s = 2 ^ k" and "k \<le> 6"
  shows "\<exists>s'. tx_run h s (concat (replicate n (failing_cycle msg))) s' \<and>
    m_errDelay s' = 2 ^ (min 6 (k + n)) \<and> pending s' = [OpTimer (100 * 2 ^ (min 6 (k + n)))] \<and>
    m_messageQueue s' = m_messageQueue s"
proof -
  have "\<exists>s'. tx_exec h (concat (replicate n (failing_cycle msg))) s = Some s' \<and> quiet s' \<and>
    m_state s' = eError \<and> m_errDelay s' = 2 ^ (min 6 (k + n)) \<and> m_messageQueue s' = m_messageQueue s"
    using assms
  proof (induction n arbitrary: s k)
    case 0
    then show ?case by (simp add: min_absorb2)
  next
    case (Suc n)
    obtain t where t: "tx_exec h (failing_cycle msg) s = Some t" "quiet t" "m_state t = eError"
        "m_errDelay t = 2 ^ (min 6 (Suc k))" "m_messageQueue t = m_messageQueue s"
      using failing_cycle_exec [OF Suc.prems, of h msg] by blast
    have "min 6 (min 6 (Suc k) + n) = min 6 (k + Suc n)" by simp
    with Suc.IH [OF t(2,3,4)] t show ?case
      by (simp add: tx_exec_append)
  qed
  then obtain s' where s': "tx_exec h (concat (replicate n (failing_cycle msg))) s = Some s'"
      "quiet s'" "m_state s' = eError" "m_errDelay s' = 2 ^ (min 6 (k + n))"
      "m_messageQueue s' = m_messageQueue s"
    by blast
  have "pending s' = [OpTimer (100 * 2 ^ (min 6 (k + n)))]"
    using s'(2,3) unat_power_delay [of "min 6 (k + n)"] by (simp add: quiet_defs s'(4) Heartbeat_def)
  with s' tx_exec_run [OF s'(1)] show ?thesis by blast
qed

definition resolve_failed :: tx where
  "resolve_failed = (opened [sample_message])\<lparr>thread := Looping, m_prevState := eResolving,
     m_state := eError, m_sentinel := True, pending := [OpTimer 100], log := [OnError ''no such host'']\<rparr>"

theorem backoff_doubles_witness:
  "\<exists>s'. tx_run sample_host resolve_failed (concat (replicate 9 (failing_cycle ''no such host''))) s' \<and>
     m_errDelay s' = 64 \<and> pending s' = [OpTimer 6400]"
  using backoff_doubles [of resolve_failed 0 sample_host 9 "''no such host''"]
  by (auto simp: resolve_failed_def opened_def SbdTransmitter_new_def quiet_defs Heartbeat_def)

section \<open>Sessions\<close>

text \<open>The handler of the first read copies the header from what has arrived.\<close>

lemma short_header_step:
  assumes "m_state s = eReceivingHeader" and "m_buf s = Some []" and "\<not> m_shutdown s"
    and "pending s = [OpReadHeader (unat MoMessage_MaxMessageSize)]" and "bs \<noteq> []" and "length bs < 3"
  shows "tx_step h s (HeaderRead (Completed bs)) None"
proof -
  let ?op = "OpReadHeader (unat MoMessage_MaxMessageSize)"
  have "react h (HeaderRead (Completed bs)) (s\<lparr>pending := remove1 ?op (pending s)\<rparr>) = None"
    using assms by (simp add: take_header_def rd_def MessageHeader_size_def)
  moreover have "tx_step h s (HeaderRead (Completed bs))
      (react h (HeaderRead (Completed bs)) (s\<lparr>pending := remove1 ?op (pending s)\<rparr>))"
    by (rule tx_step.completed) (use assms in \<open>simp_all add: MoMessage_MaxMessageSize_value\<close>)
  ultimately show ?thesis by simp
qed

text \<open>C11 (liveness). A session with a gateway that answers: the connection is made and the gateway confirms
  with a status that is no error, in whatever segments. If the first of them has at least the three bytes
  of the header, the head of the queue is delivered: it is written once, its status is reported, the socket
  is closed, the back-off is reset and the machine is idle again with the rest of the queue. If it
  has fewer, the handler of the read has undefined behaviour.\<close>

theorem confirmed_session:
  assumes "quiet s" and "thread s = Entering" and "jobs (m_messageQueue s) = m # js" and "sendable m"
    and "good_reply e" and "0 \<le> reply_status e" and "at \<noteq> []"
    and "c0 @ concat cs = 1 # be16 28 @ reply_body e" and "\<forall>c \<in> set (c0 # cs). c \<noteq> []"
  shows "(3 \<le> length c0 \<longrightarrow>
      (\<exists>s'. tx_run h s (session_prefix eps msg at (length (message_wire m)) @
          HeaderRead (Completed c0) # map (\<lambda>c. ConfirmationRead (Completed c)) cs) s' \<and>
        m_state s' = eNotConnected \<and> thread s' = Looping \<and> jobs (m_messageQueue s') = js \<and>
        log s' = log s @ [Written (message_wire m), OnTransmitResult (reply_status e), SocketClosed] \<and>
        m_errDelay s' = 1 \<and> pending s' = [] \<and> \<not> sock_open s')) \<and>
    (length c0 < 3 \<longrightarrow>
      (\<exists>s'. tx_run h s (session_prefix eps msg at (length (message_wire m))) s' \<and>
        log s' = log s @ [Written (message_wire m)] \<and> tx_step h s' (HeaderRead (Completed c0)) None))"
proof -
  obtain m' where m': "MtMessage_serialize h m = (m', message_wire m)"
    using serialize_sendable [OF assms(4)] by blast
  let ?q = "m_messageQueue s\<lparr>jobs := js\<rparr>"
  let ?t = "awaiting_reply m' eps ?q (message_wire m) s"
  have g: "get MtMessage_init (m_messageQueue s) = (m, ?q)"
    using assms(3) by (simp add: get_def)
  have sd: "\<not> m_shutdown s" using assms(1) by (simp add: quiet_def)
  note to_reply = session_to_reply [OF assms(1,2) g m' assms(7)]
  have "tx_exec h (session_prefix eps msg at (length (message_wire m)) @
      HeaderRead (Completed c0) # map (\<lambda>c. ConfirmationRead (Completed c)) cs) s =
    Some (finish (reply_status e) (?t\<lparr>pending := []\<rparr>))" if "3 \<le> length c0"
    using to_reply session_reply [OF assms(5,6), of ?t c0 cs h] assms(8,9) that sd
    by (simp add: tx_exec_append awaiting_reply_def SbdProtoNumber_def)
  note run = tx_exec_run [OF this]
  have "tx_step h ?t (HeaderRead (Completed c0)) None" if "length c0 < 3"
    by (rule short_header_step) (use assms(9) that sd in \<open>simp_all add: awaiting_reply_def\<close>)
  with run tx_exec_run [OF to_reply, of eps msg] show ?thesis
    by (fastforce simp: finish_def awaiting_reply_def)
qed

definition sample_reply :: "IEMtConfirmationMsgDto ie" where
  "sample_reply = IEMtConfirmationMsg_new\<lparr>m_content := (m_content IEMtConfirmationMsg_new)\<lparr>
     m_imei_conf := sample_imei @ [0], m_msgStatus := 3\<rparr>\<rparr>"

lemma sample_reply_good: "good_reply sample_reply" "reply_status sample_reply = 3"
proof -
  have "imei_good (sample_imei @ [0])"
    by (rule imei_good_snoc) (simp add: sample_imei_def)
  then show "good_reply sample_reply"
    by (simp add: good_reply_def sample_reply_def IEMtConfirmationMsg_new_def new_ie_def
        MtConfirmation_good_def)
  show "reply_status sample_reply = 3"
    by (simp add: sample_reply_def reply_status_def)
qed

theorem confirmed_session_witness:
  "\<exists>s'. tx_run sample_host (opened [sample_message])
     (session_prefix [''gw''] [] [''gw''] (length (message_wire sample_message)) @
       [HeaderRead (Completed [1, 0, 28]), ConfirmationRead (Completed (reply_body sample_reply))]) s' \<and>
     log s' = [Written (message_wire sample_message), OnTransmitResult 3, SocketClosed]"
proof -
  have "jobs (m_messageQueue (opened [sample_message])) = [sample_message]" "thread (opened [sample_message]) = Entering"
      "log (opened [sample_message]) = []" "reply_body sample_reply \<noteq> []"
    using length_reply_body [OF sample_reply_good(1)] by (auto simp: opened_def SbdTransmitter_new_def)
  with confirmed_session [OF opened_quiet, of "[sample_message]" sample_message "[]" sample_reply "[''gw'']" "[1, 0, 28]"
      "[reply_body sample_reply]" sample_host "[''gw'']" "[]"] sample_sendable sample_reply_good
  show ?thesis by (auto simp: be16_def)
qed

text \<open>C12 (error). When the write or one of the reads of an exchange fails, the message goes back to the
  front of the queue, the failure is reported, a socket that still has its peer is closed, and the
  timer is started with the unchanged delay; nothing else is outstanding.\<close>

theorem failed_exchange:
  assumes "quiet s" and "tx_step h s i r"
    and "i = WriteDone (Failed msg) \<or> i = HeaderRead (Failed msg) \<or> i = ConfirmationRead (Failed msg)"
  shows "\<exists>s'. r = Some s' \<and> m_state s' = eError \<and>
    jobs (m_messageQueue s') = m_sendingMessage s # jobs (m_messageQueue s) \<and>
    log s' = log s @ OnError ((if i = WriteDone (Failed msg) then ''transmit error: ''
        else ''receive confirmation error: '') @ msg) # (if sock_peer s then [SocketClosed] else []) \<and>
    \<not> sock_peer s' \<and> m_errDelay s' = m_errDelay s \<and> pending s' = [OpTimer (100 * unat (m_errDelay s))]"
  using assms(2)
proof cases
  case (completed op)
  from assms(1) completed(2) have o: "pending s = [op]" "\<not> m_shutdown s"
    by (auto simp: quiet_defs split: State.splits)
  from assms(1) completed(2-4) show ?thesis
    by (cases rule: quiet_completion)
      (use assms(3) o completed(1) in \<open>auto simp: Let_def fail_def enter_def emit_def tx_simps
        less_State_def less_eq_State_def unget_def Heartbeat_def\<close>)
next
  case (complete_cancelled op)
  with assms(1) show ?thesis by (simp add: quiet_def)
qed (use assms(3) in auto)

theorem failed_exchange_witness:
  "\<exists>s s'. tx_step sample_host s (WriteDone (Failed ''broken pipe'')) (Some s') \<and>
     jobs (m_messageQueue s') = [m_sendingMessage s] \<and> m_state s' = eError"
proof -
  let ?s = "(opened [])\<lparr>thread := Looping, m_state := eSending, m_sentinel := True, m_buf := Some [1],
    sock_open := True, sock_peer := True, pending := [OpWrite [1]]\<rparr>"
  let ?i = "WriteDone (Failed ''broken pipe'')"
  have q: "quiet ?s"
    by (simp add: opened_def SbdTransmitter_new_def quiet_defs)
  have "tx_step sample_host ?s ?i
      (react sample_host ?i (?s\<lparr>pending := remove1 (OpWrite [1]) (pending ?s)\<rparr>))"
    by (rule tx_step.completed) simp_all
  from failed_exchange [OF q this, of "''broken pipe''"] this show ?thesis
    by (fastforce simp: opened_def)
qed

section \<open>Undefined behaviour\<close>

text \<open>The first \<open>n\<close> received bytes, with the NUL of the string that holds them, can be classified and
  parsed without leaving the string.\<close>

definition reply_safe :: "host \<Rightarrow> byte list \<Rightarrow> nat \<Rightarrow> bool" where
  "reply_safe h received n \<longleftrightarrow> messageCategory h (take n received @ [0]) n \<noteq> None \<and>
     parse_MtConfirm h (take n received @ [0]) n MtConfirmMessage_init \<noteq> None"

lemma process_confirmation_None:
  assumes "process_confirmation h s = None" and "m_buf s = Some b"
    and "unat (m_confirmationLength s) \<le> length b"
  shows "\<not> reply_safe h b (unat (m_confirmationLength s))"
proof
  assume "reply_safe h b (unat (m_confirmationLength s))"
  then obtain c r m where "messageCategory h (take (unat (m_confirmationLength s)) b @ [0])
        (unat (m_confirmationLength s)) = Some c"
      and p: "parse_MtConfirm h (take (unat (m_confirmationLength s)) b @ [0])
        (unat (m_confirmationLength s)) MtConfirmMessage_init = Some (r, m)"
    by (auto simp: reply_safe_def)
  moreover have "MtConfirmMessage_status m \<noteq> None" if r: "r = Inr ()"
  proof -
    from parse_MtConfirm_Inr [OF p [unfolded r]] obtain es
      where "parse_elements h (take (unat (m_confirmationLength s)) b @ [0])
          (unat (m_confirmationLength s)) 0 [] = Some (Inr es)"
        and m: "m_elements_conf m = es" "m_confirmation m < length es"
          "m_confirmation m = find_index (\<lambda>e. getId e = eMtConfirmationMsg) es" by blast
    from parse_elements_wf [OF this(1)] have "typed (es ! m_confirmation m)"
      using m(2) by simp
    moreover from m(2,3) have "getId (es ! m_confirmation m) = eMtConfirmationMsg"
      using find_index_nth [of "\<lambda>e. getId e = eMtConfirmationMsg" es] by simp
    ultimately obtain x where "es ! m_confirmation m = IEMtConfirmationMsg x"
      using typed_MtConfirmation by blast
    with m show ?thesis
      by (simp add: MtConfirmMessage_status_def confirmation_of_def deref_def)
  qed
  ultimately show False
    using assms by (auto simp: process_confirmation_def rd_def Let_def
        split: if_splits sum.splits bind_splits)
qed

lemma StateMachine_None:
  assumes "StateMachine h s = None"
  shows "m_state s = eReceivingConfirmation \<or> m_state s = eProcessingConfirmation"
  using assms by (cases "m_state s") (simp_all add: tx_simps Let_def split: prod.splits)

lemma receiving_None:
  assumes "StateMachine h s = None" and "m_state s = eReceivingConfirmation" and "m_buf s = Some b"
  shows "unat (m_confirmationLength s) \<le> length b \<and> \<not> reply_safe h b (unat (m_confirmationLength s))"
proof -
  let ?t = "enter eProcessingConfirmation s"
  from assms have "unat (m_confirmationLength s) \<le> length b" and n: "StateMachine h ?t = None"
    by (auto simp: tx_simps split: if_splits)
  moreover have "process_confirmation h ?t = None"
  proof (rule ccontr)
    assume "process_confirmation h ?t \<noteq> None"
    then obtain ok u where "process_confirmation h ?t = Some (ok, u)" by auto
    with n StateMachine_None [of h "enter (if ok then eSuccess else eError) u"] show False
      by (simp add: tx_simps enter_def split: if_splits)
  qed
  ultimately show ?thesis
    using process_confirmation_None [of h ?t b] assms(3) by (simp add: enter_def)
qed

lemma react_completion_None:
  assumes "quiet s" and "op \<in> set (pending s)" and "answers op i" and "\<not> aborted i"
    and r: "react h i (s\<lparr>pending := remove1 op (pending s)\<rparr>) = None"
  shows "(\<exists>bs. i = HeaderRead (Completed bs) \<and> (length bs < 3 \<or>
      (let n = unat (ntohs h (load h (take 2 (drop 1 bs)))) in
         n + 3 \<le> length bs \<and> \<not> reply_safe h (drop 3 bs) n))) \<or>
    (\<exists>bs b. i = ConfirmationRead (Completed bs) \<and> m_buf s = Some b \<and>
      (let n = unat (m_confirmationLength s) in
         n \<le> length (b @ bs) \<and> \<not> reply_safe h (b @ bs) n))"
proof -
  have f: "\<not> m_shutdown s" using assms(1) by (simp add: quiet_def)
  note sm = StateMachine_None [of h]
  from assms(1) assms(2-4) show ?thesis
  proof (cases rule: quiet_completion)
    case (4 x)
    show ?thesis
    proof (cases x)
      case (Completed bs)
      have t: "take_header h bs = (if length bs < 3 then None else
          Some (sint (bs ! 0), ntohs h (load h (take 2 (drop 1 bs))), drop 3 bs))"
        by (simp add: take_header_None_iff take_header_Some)
      from r 4 Completed f t show ?thesis
        by (auto simp: Let_def enter_def add.commute dest: receiving_None sm split: if_splits)
    qed (use r 4 f assms(4) in \<open>auto dest: sm\<close>)
  next
    case (5 x b)
    show ?thesis
    proof (cases x)
      case (Completed bs)
      with r 5 f show ?thesis
        by (auto simp: Let_def enter_def dest: receiving_None)
    qed (use r 5 f assms(4) in \<open>auto dest: sm\<close>)
  next
    case (1 x)
    with r f assms(4) show ?thesis by (cases x) (auto simp: enter_def dest!: sm)
  next
    case (2 x)
    with r f assms(4) show ?thesis
      by (cases x) (auto simp: enter_def dest!: sm split: if_splits)
  next
    case (3 x)
    with r f assms(4) show ?thesis by (cases x) (auto simp: Let_def enter_def dest!: sm)
  next
    case (6 x)
    with r f assms(4) show ?thesis by (cases x) (auto simp: enter_def dest!: sm)
  qed
qed

text \<open>C14 (safety). Where a transmitter that is not stopped can reach undefined behaviour: only when the
  first read of a reply returns fewer than the three bytes of the header, or when the announced body
  of the reply is one that the codec reads past its end. No other step, in any run, dereferences a
  missing buffer or an invalid iterator.\<close>

theorem transmitter_undefined_behaviour:
  assumes "tx_run h (SbdTransmitter_new host port) ins s" and "\<forall>i \<in> set ins. no_stop i"
    and "tx_step h s i None"
  shows "(\<exists>bs. i = HeaderRead (Completed bs) \<and> (length bs < 3 \<or>
      (let n = unat (ntohs h (load h (take 2 (drop 1 bs)))) in
         n + 3 \<le> length bs \<and> \<not> reply_safe h (drop 3 bs) n))) \<or>
    (\<exists>bs b. i = ConfirmationRead (Completed bs) \<and> m_buf s = Some b \<and>
      (let n = unat (m_confirmationLength s) in
         n \<le> length (b @ bs) \<and> \<not> reply_safe h (b @ bs) n))"
proof -
  have q: "quiet s" by (rule tx_run_quiet [OF assms(1,2)])
  from assms(3) show ?thesis
  proof cases
    case client
    then show ?thesis by (cases i) simp_all
  next
    case entered
    then show ?thesis by (simp add: worker_enter_def tx_simps enter_def)
  next
    case (completed op)
    then show ?thesis
      using react_completion_None [OF q completed(2-4) completed(1) [symmetric]] by simp
  next
    case (complete_cancelled op)
    with q show ?thesis by (simp add: quiet_def)
  qed simp_all
qed

lemma run_to_reply:
  assumes "sendable m"
  shows "\<exists>s. tx_run h (SbdTransmitter_new ''gw'' ''10800'')
      ((map Post [m] @ startup) @ session_prefix [''gw''] [] [''gw''] (length (message_wire m))) s \<and>
    m_state s = eReceivingHeader \<and> m_buf s = Some [] \<and> \<not> m_shutdown s \<and> m_running s \<and>
    pending s = [OpReadHeader (unat MoMessage_MaxMessageSize)] \<and> jobs (m_messageQueue s) = [] \<and>
    log s = [Written (message_wire m)]"
proof -
  obtain m' where m': "MtMessage_serialize h m = (m', message_wire m)"
    using serialize_sendable [OF assms] by blast
  have g: "get MtMessage_init (m_messageQueue (opened [m])) = (m, \<lparr>jobs = []\<rparr>)"
    by (simp add: opened_def get_def)
  show ?thesis
    using tx_run_append [OF tx_exec_run [OF session_to_reply [OF opened_quiet g m']] run_opened,
        of "[''gw'']" "[''gw'']" "[]"]
    by (auto simp: awaiting_reply_def opened_def SbdTransmitter_new_def)
qed

theorem transmitter_undefined_behaviour_witness:
  "\<exists>s. tx_step sample_host s (HeaderRead (Completed [1, 0])) None \<and> length [1, 0 :: byte] < 3"
proof -
  obtain s where r: "tx_run sample_host (SbdTransmitter_new ''gw'' ''10800'') ((map Post [sample_message] @
        startup) @ session_prefix [''gw''] [] [''gw''] (length (message_wire sample_message))) s"
    and s: "tx_step sample_host s (HeaderRead (Completed [1, 0])) None"
    using run_to_reply [OF sample_sendable(1), of sample_host] short_header_step [of _ "[1, 0]" sample_host]
    by fastforce
  from transmitter_undefined_behaviour [OF r _ s] s show ?thesis
    by (auto simp: startup_def session_prefix_def)
qed

text \<open>A TCP segment that carries one or two bytes of the reply's header is enough for
  undefined behaviour, in a run without \<open>stop\<close> in which nothing else went wrong: the header is copied
  before it is known to have arrived.\<close>

theorem short_header_is_undefined:
  assumes "sendable m" and "bs \<noteq> []" and "length bs < 3"
  shows "\<exists>ins s. tx_run h (SbdTransmitter_new ''gw'' ''10800'') (Post m # ins) s \<and>
    (\<forall>i \<in> set ins. no_stop i) \<and> log s = [Written (message_wire m)] \<and>
    tx_step h s (HeaderRead (Completed bs)) None"
proof -
  from run_to_reply [OF assms(1), of h] obtain s where
    s: "tx_run h (SbdTransmitter_new ''gw'' ''10800'')
      (Post m # startup @ session_prefix [''gw''] [] [''gw''] (length (message_wire m))) s"
      "m_state s = eReceivingHeader" "m_buf s = Some []" "\<not> m_shutdown s"
      "pending s = [OpReadHeader (unat MoMessage_MaxMessageSize)]" "log s = [Written (message_wire m)]"
    by auto
  moreover have "\<forall>i \<in> set (startup @ session_prefix [''gw''] [] [''gw''] (length (message_wire m))). no_stop i"
    by (simp add: startup_def session_prefix_def)
  ultimately show ?thesis
    using short_header_step [OF s(2-5) assms(2,3), of h] by blast
qed

theorem short_header_is_undefined_witness:
  "\<exists>ins s. tx_run sample_host (SbdTransmitter_new ''gw'' ''10800'') (Post sample_message # ins) s \<and>
     tx_step sample_host s (HeaderRead (Completed [1])) None"
  using short_header_is_undefined [OF sample_sendable(1), of "[1]" sample_host] by auto

section \<open>Lost and empty messages\<close>

text \<open>\<open>stop\<close> in the middle of an exchange loses the message: the cancelled operation ends
  without putting it back, so when the transmitter is started again the message is neither confirmed
  nor in the queue, although the class promises that a message whose transmission failed returns to
  the front of the queue.\<close>

theorem stop_loses_message:
  assumes "sendable m"
  shows "\<exists>ins s. tx_run h (SbdTransmitter_new ''gw'' ''10800'') (Post m # ins @ [Stop woexcept None None,
      HeaderRead Aborted, WorkerCheck, Start, WorkerBegin]) s \<and>
    m_running s \<and> m_state s = eNotConnected \<and> pending s = [] \<and> cancelled s = [] \<and>
    acknowledged s = [] \<and> queued s = [] \<and> under_way s = []"
proof -
  obtain m' where m': "MtMessage_serialize h m = (m', message_wire m)"
    using serialize_sendable [OF assms] by blast
  have g: "get MtMessage_init (m_messageQueue (opened [m])) = (m, \<lparr>jobs = []\<rparr>)"
    by (simp add: opened_def get_def)
  let ?s = "awaiting_reply m' [''gw''] \<lparr>jobs = []\<rparr> (message_wire m) (opened [m])"
  have r: "tx_run h (SbdTransmitter_new ''gw'' ''10800'')
      (Post m # startup @ session_prefix [''gw''] [] [''gw''] (length (message_wire m))) ?s"
    using tx_run_append [OF tx_exec_run [OF session_to_reply [OF opened_quiet g m']] run_opened,
        of "[''gw'']" "[''gw'']" "[]"] by simp
  have "\<exists>s. tx_exec h [Stop woexcept None None, HeaderRead Aborted, WorkerCheck, Start, WorkerBegin] ?s
      = Some s \<and> m_running s \<and> m_state s = eNotConnected \<and> pending s = [] \<and> cancelled s = [] \<and>
    acknowledged s = [] \<and> queued s = [] \<and> under_way s = []"
    by (simp add: awaiting_reply_def opened_def SbdTransmitter_new_def tx_do_def stop_def stop_socket_def
        cancel_def worker_check_def start_def worker_begin_def acknowledged_def book_def queued_def
        under_way_def)
  then obtain s where "tx_exec h [Stop woexcept None None, HeaderRead Aborted, WorkerCheck, Start,
      WorkerBegin] ?s = Some s" and "m_running s \<and> m_state s = eNotConnected \<and> pending s = [] \<and>
      cancelled s = [] \<and> acknowledged s = [] \<and> queued s = [] \<and> under_way s = []" by blast
  with tx_run_append [OF tx_exec_run r] show ?thesis
    by (metis append_Cons)
qed

theorem stop_loses_message_witness:
  "\<exists>ins s. tx_run sample_host (SbdTransmitter_new ''gw'' ''10800'') (Post sample_message # ins) s \<and>
     acknowledged s = [] \<and> queued s = [] \<and> under_way s = []"
  using stop_loses_message [OF sample_sendable(1), of sample_host True] by blast

text \<open>An empty message goes to the gateway when \<open>dropMessages\<close> comes between the decision
  to send and the connection, and when the wait for a job ends by a spurious wake-up: the queue hands
  out a default constructed message and its three byte frame is written.\<close>

theorem empty_message_sent:
  "(\<exists>s. tx_run h (SbdTransmitter_new ''gw'' ''10800'') (Post m # startup @ [WorkerEnter, DropMessages,
      Resolved (Completed [''gw'']), Connected (Completed ([], [''gw'']))]) s \<and> log s = [Written [1, 0, 0]]) \<and>
   (\<exists>s. tx_run h (SbdTransmitter_new ''gw'' ''10800'') (startup @ [WorkerEnter,
      Resolved (Completed [''gw'']), Connected (Completed ([], [''gw'']))]) s \<and> log s = [Written [1, 0, 0]])"
proof -
  obtain m' where e: "MtMessage_serialize h MtMessage_init = (m', [1, 0, 0])"
    using serialize_sendable [OF sendable_init(1), of h] sendable_init(2) by (metis empty_frame_def)
  note defs = tx_do_def worker_enter_def tx_simps enter_def launch_def emit_def opened_def
    SbdTransmitter_new_def dropMessages_def clear_def get_def
  have "\<exists>s. tx_exec h [WorkerEnter, DropMessages, Resolved (Completed [''gw'']),
      Connected (Completed ([], [''gw'']))] (opened [m]) = Some s \<and> log s = [Written [1, 0, 0]]"
    by (simp add: defs e)
  moreover have "\<exists>s. tx_exec h [WorkerEnter, Resolved (Completed [''gw'']),
      Connected (Completed ([], [''gw'']))] (opened []) = Some s \<and> log s = [Written [1, 0, 0]]"
    by (simp add: defs e)
  ultimately show ?thesis
    using tx_run_append [OF tx_exec_run run_opened [of h "[m]"]]
      tx_run_append [OF tx_exec_run run_opened [of h "[]"]]
    by fastforce
qed

text \<open>Stopping and starting again while the expired timer's handler is still queued lets
  the handler, which checks neither the state nor a stop, reset the new session: the machine goes idle
  while that session's operation is outstanding, and the next session starts a second one.\<close>

theorem stale_timer_breaks_session:
  "\<exists>ins s. tx_run h (SbdTransmitter_new ''gw'' ''10800'') (Post m # ins) s \<and>
     m_state s = eResolving \<and> pending s = [OpResolve, OpResolve]"
proof -
  let ?ins = "[WorkerEnter, Resolved (Failed []), Stop True None None, WorkerCheck, Start, WorkerBegin,
    WorkerCheck, WorkerWait False, WorkerEnter, TimerFired (Completed ()), WorkerCheck, WorkerWait False,
    WorkerEnter]"
  have "\<exists>s. tx_exec h ?ins (opened [m]) = Some s \<and> m_state s = eResolving \<and>
      pending s = [OpResolve, OpResolve]"
    by (simp add: tx_do_def worker_enter_def tx_simps enter_def launch_def emit_def opened_def fail_def
        SbdTransmitter_new_def stop_def stop_socket_def cancel_def worker_check_def start_def
        worker_begin_def worker_wait_def wait_for_def MaxDelay_def less_State_def less_eq_State_def)
  with tx_run_append [OF tx_exec_run run_opened [of h "[m]"]] show ?thesis
    by fastforce
qed

text \<open>The smallest replies that the codec reads past their end: a body of one byte, exactly
  when that byte is accepted as an identifier (the two bytes of the length are then read from a string
  that holds only its NUL).\<close>

theorem one_byte_reply_overread: "\<not> reply_safe h [i] 1 \<longleftrightarrow> IsMoElem i \<or> IsMtElem i"
proof -
  have "messageCategory h [i, 0] 1 = (if IsMoElem i \<or> IsMtElem i then None else Some eUnknownMessage)"
    unfolding messageCategory_def
    by (subst category_loop.simps) (auto simp: rd_def next_category_def)
  moreover have "IEFactory h i = None" if "\<not> (IsMoElem i \<or> IsMtElem i)"
    using that by (auto simp: IEFactory_None IsMoElem_def IsMtElem_def id_defs)
  then have "parse_MtConfirm h [i, 0] 1 MtConfirmMessage_init \<noteq> None" if "\<not> (IsMoElem i \<or> IsMtElem i)"
    using that by (subst parse_MtConfirm_def, subst parse_elements.simps) (simp add: rd_def Let_def)
  ultimately show ?thesis
    by (auto simp: reply_safe_def)
qed

end
