(* ===== verification/TransmitterChannel.thy ===== *)
theory TransmitterChannel
  imports TransmitterProps
begin

text \<open>
  Two views of the transmitter as a whole. As a refinement of a channel: what its steps do to the
  frames is what a channel does that takes the oldest frame, and then either delivers it or puts it back
  in front. And as a terminating process: every completion brings a session nearer to its end.
\<close>

section \<open>The channel\<close>

record channel =
  delivered :: "byte list list"
  transit :: "byte list list"
  waiting :: "byte list list"

text \<open>A step is labelled with the frames that enter.\<close>

inductive ch_step :: "channel \<Rightarrow> byte list list \<Rightarrow> channel \<Rightarrow> bool" where
  idle: "ch_step c [] c"
| enter: "ch_step \<lparr>delivered = d, transit = t, waiting = ws\<rparr> [w] \<lparr>delivered = d, transit = t, waiting = ws @ [w]\<rparr>"
| take: "ch_step \<lparr>delivered = d, transit = [], waiting = w # ws\<rparr> [] \<lparr>delivered = d, transit = [w], waiting = ws\<rparr>"
| deliver: "ch_step \<lparr>delivered = d, transit = [w], waiting = ws\<rparr> [] \<lparr>delivered = d @ [w], transit = [], waiting = ws\<rparr>"
| put_back: "ch_step \<lparr>delivered = d, transit = [w], waiting = ws\<rparr> [] \<lparr>delivered = d, transit = [], waiting = w # ws\<rparr>"

definition abs_channel :: "tx \<Rightarrow> channel" where
  "abs_channel s = \<lparr>delivered = real_frames (acknowledged s), transit = real_frames (under_way s),
     waiting = real_frames (queued s)\<rparr>"

text \<open>The equation of the ledger leaves only these steps, if at most the frame in transit is delivered.\<close>

lemma ch_step_by_ledger:
  assumes "d' = d \<or> t' = [] \<and> d' = d @ t" and "length t \<le> 1" "length t' \<le> 1"
    and "d @ t @ q = d' @ t' @ q'"
  shows "ch_step \<lparr>delivered = d, transit = t, waiting = q\<rparr> [] \<lparr>delivered = d', transit = t', waiting = q'\<rparr>"
  using assms
  by (cases t; cases t') (auto intro: ch_step.intros)

section \<open>What a step acknowledges\<close>

text \<open>Whether the frame that was written last is acknowledged by the way from \<open>s\<close> to \<open>s'\<close>, which then ends
  without a frame under way.\<close>

definition ack_step :: "tx \<Rightarrow> tx \<Rightarrow> bool" where
  "ack_step s s' \<longleftrightarrow> book s' = book s \<or> acknowledged s' = acknowledged s \<or>
     under_way s' = [] \<and> acknowledged s' = acknowledged s @ (case snd (book s) of Some w \<Rightarrow> [w] | None \<Rightarrow> [])"

lemma book_emit:
  "book (emit ev s) = deliver (book s) ev" "book (enter st s) = book s" "book (s\<lparr>m_buf := b\<rparr>) = book s"
  "book (s\<lparr>m_errDelay := d\<rparr>) = book s" "book (s\<lparr>pending := ops\<rparr>) = book s"
  "book (s\<lparr>m_rIterator := x\<rparr>) = book s" "book (s\<lparr>m_confirmationLength := l\<rparr>) = book s"
  "book (s\<lparr>sock_peer := p\<rparr>) = book s" "book (s\<lparr>thread := th\<rparr>) = book s"
  by (simp_all add: book_def emit_def enter_def)

lemma StateMachine_book:
  "StateMachine h s = Some s' \<Longrightarrow>
     (case m_state s of
        eSending \<Rightarrow> acknowledged s' = acknowledged s
      | eReceivingConfirmation \<Rightarrow> ack_step s s'
      | eProcessingConfirmation \<Rightarrow> ack_step s s'
      | eSuccess \<Rightarrow> book s' = book s \<and> under_way s' = []
      | _ \<Rightarrow> book s' = book s)"
proof (induction h s rule: StateMachine.induct)
  case (1 h s)
  show ?case
  proof (cases "m_state s")
    case eSending
    obtain m q where g: "get MtMessage_init (m_messageQueue s) = (m, q)" by fastforce
    obtain m' b where ser: "MtMessage_serialize h m = (m', b)" by fastforce
    from eSending "1.prems" show ?thesis
      by (auto simp: tx_simps g ser launch_def emit_def book_def acknowledged_def deliver_eqs)
  next
    case eReceivingConfirmation
    then obtain b where b: "m_buf s = Some b"
      using "1.prems" by (cases "m_buf s") (simp_all add: StateMachine.simps [of h s])
    show ?thesis
    proof (cases "length b < unat (m_confirmationLength s)")
      case True
      with "1.prems" b eReceivingConfirmation show ?thesis
        by (auto simp: tx_simps launch_def ack_step_def book_def)
    next
      case False
      with "1.IH"(1) [OF eReceivingConfirmation b] b eReceivingConfirmation "1.prems"
      show ?thesis by (auto simp: tx_simps ack_step_def book_emit acknowledged_def)
    qed
  next
    case eProcessingConfirmation
    with "1.prems" obtain ok t where p: "process_confirmation h s = Some (ok, t)"
      and t: "StateMachine h (enter (if ok then eSuccess else eError) t) = Some s'"
      by (auto simp: tx_simps split: bind_splits prod.splits)
    from "1.IH"(2) [OF eProcessingConfirmation p refl] t
    have r: "book s' = book t" "ok \<Longrightarrow> under_way s' = []"
      by (auto simp: book_emit split: if_splits)
    from process_confirmation_processed [OF p] r eProcessingConfirmation show ?thesis
      by cases (auto simp: ack_step_def book_emit acknowledged_def deliver_eqs split: option.splits)
  next
    case eSuccess
    with "1.prems" show ?thesis
      by (auto simp: tx_simps book_def deliver_eqs under_way_def)
  next
    case eError
    with "1.prems" show ?thesis
      by (auto simp: tx_simps Let_def book_def deliver_eqs)
  qed (use 1 in \<open>auto simp: tx_simps launch_def book_def\<close>)
qed

lemma react_completion_ack:
  assumes "quiet s" and "op \<in> set (pending s)" and "answers op i" and "\<not> aborted i"
    and r: "react h i (s\<lparr>pending := remove1 op (pending s)\<rparr>) = Some s'"
  shows "acknowledged s' = acknowledged s \<or> under_way s \<noteq> [] \<and> ack_step s s'"
proof -
  note sm = StateMachine_book [of h _ s']
  note eqs = ack_step_def acknowledged_def book_emit fail_def under_way_def
  have f: "\<not> m_shutdown s" using assms(1) by (simp add: quiet_def)
  from assms(1-4) show ?thesis
  proof (cases rule: quiet_completion)
    case (1 x)
    with r f assms(4) show ?thesis
      by (cases x) (auto simp: eqs dest!: sm split: if_splits)
  next
    case (2 x)
    with r f assms(4) show ?thesis
      by (cases x) (auto simp: eqs dest!: sm split: if_splits)
  next
    case (3 x)
    with r f assms(4) show ?thesis
      by (cases x) (auto simp: eqs Let_def dest!: sm split: if_splits)
  next
    case (4 x)
    with r f assms(4) show ?thesis
      by (cases x) (auto simp: eqs Let_def dest!: sm split: if_splits bind_splits prod.splits)
  next
    case (5 x)
    with r f assms(4) show ?thesis
      by (cases x) (auto simp: eqs dest!: sm split: if_splits bind_splits prod.splits)
  next
    case (6 x)
    with r f assms(4) show ?thesis
      by (cases x) (auto simp: eqs dest!: sm split: if_splits)
  qed
qed

lemma silent_calls [simp]:
  "log (post m s) = log s" "log (dropMessages s) = log s" "log (start s) = log s"
  "log (worker_begin s) = log s" "log (worker_check s) = log s" "log (worker_wait t s) = log s"
  by (simp_all add: post_def dropMessages_def start_def worker_begin_def worker_check_def worker_wait_def)

lemma tx_step_ack:
  "tx_step h s i (Some s') \<Longrightarrow> no_stop i \<Longrightarrow> quiet s \<Longrightarrow>
     acknowledged s' = acknowledged s \<or> under_way s \<noteq> [] \<and> ack_step s s'"
proof (induction s i "Some s'" rule: tx_step.induct)
  case (client i s)
  then show ?case
    by (cases i) (auto simp: acknowledged_def book_def)
next
  case (completed op s i)
  then show ?case by (metis react_completion_ack)
next
  case (complete_cancelled op s i)
  then show ?case by (simp add: quiet_def)
next
  case (entered s)
  then show ?case
    by (auto simp: worker_enter_def tx_simps launch_def acknowledged_def book_def enter_def)
qed (auto simp: acknowledged_def book_def)

section \<open>The refinement\<close>

lemma real_frames_append: "real_frames (xs @ ys) = real_frames xs @ real_frames ys"
  by (simp add: real_frames_def)

lemma under_way_short: "length (real_frames (under_way s)) \<le> 1"
  by (simp add: real_frames_def under_way_def)

lemma tx_step_channel:
  assumes step: "tx_step h s i (Some s')" and "orderly i" and m: "\<forall>m. i = Post m \<longrightarrow> m_elements m \<noteq> []"
    and "quiet s" and l: "ledger_rest posted s"
  shows "ch_step (abs_channel s) (posts i) (abs_channel s')"
proof (cases "posts i")
  case (Cons w ws)
  then obtain m where i: "i = Post m" "w = message_wire m" "ws = []" by (cases i) auto
  from step i(1) have s': "s' = post m s"
    by (cases rule: tx_step.cases) (auto elim: answers.elims)
  with i m message_wire_not_empty [of m] Cons show ?thesis
    by (auto simp: abs_channel_def acknowledged_def book_def under_way_def queued_def post_def jq.items_enq
        real_frames_def intro: ch_step.enter)
next
  case Nil
  from tx_step_ledger [OF step assms(2,4) l] Nil have l': "ledger_rest posted s'" by simp
  have "real_frames (acknowledged s @ under_way s @ queued s) = real_frames (acknowledged s' @ under_way s' @ queued s')"
    using l l' by (simp add: ledger_rest_def ledger_def)
  moreover have "acknowledged s' = acknowledged s \<or> under_way s' = [] \<and> acknowledged s' = acknowledged s @ under_way s"
    using tx_step_ack [OF step orderly_no_stop [OF assms(2)] assms(4)] l
    by (auto simp: ack_step_def acknowledged_def ledger_rest_def ledger_def)
  ultimately show ?thesis
    unfolding abs_channel_def Nil
    by (intro ch_step_by_ledger under_way_short) (auto simp: real_frames_append real_frames_def)
qed

inductive ch_run :: "channel \<Rightarrow> byte list list list \<Rightarrow> channel \<Rightarrow> bool" for c :: channel where
  nil: "ch_run c [] c"
| snoc: "ch_run c ls c' \<Longrightarrow> ch_step c' l c'' \<Longrightarrow> ch_run c (ls @ [l]) c''"

interpretation ch_runs: labelled_runs ch_step ch_run
  by (unfold_locales, auto intro: ch_run.intros) (erule ch_run.induct; blast)

definition empty_channel :: channel where
  "empty_channel = \<lparr>delivered = [], transit = [], waiting = []\<rparr>"

text \<open>What the channel itself guarantees.\<close>

lemma ch_step_content:
  "ch_step c l c' \<Longrightarrow> delivered c' @ transit c' @ waiting c' = (delivered c @ transit c @ waiting c) @ l"
  by (induction rule: ch_step.induct) simp_all

lemma ch_run_content:
  "ch_run c ls c' \<Longrightarrow> delivered c' @ transit c' @ waiting c' = (delivered c @ transit c @ waiting c) @ concat ls"
  by (induction rule: ch_run.induct) (simp_all add: ch_step_content)

lemma abs_channel_new: "abs_channel (SbdTransmitter_new host port) = empty_channel"
  by (simp add: abs_channel_def empty_channel_def acknowledged_def book_def under_way_def queued_def
      SbdTransmitter_new_def queue_new_def real_frames_def)

text \<open>The simulation: what a step does to the frames is a step of the channel.\<close>

interpretation channel: simulation "\<lambda>s i s'. tx_step h s i (Some s')" "tx_run h" ch_step ch_run
  "SbdTransmitter_new host port"
  "\<lambda>ins s. (\<forall>i \<in> set ins. orderly i) \<and> (\<forall>m. Post m \<in> set ins \<longrightarrow> m_elements m \<noteq> [])"
  "map posts" abs_channel
  for h host port
proof unfold_locales
  fix ins s i s'
  assume run: "tx_run h (SbdTransmitter_new host port) ins s" and st: "tx_step h s i (Some s')"
    and ok: "(\<forall>i \<in> set (ins @ [i]). orderly i) \<and> (\<forall>m. Post m \<in> set (ins @ [i]) \<longrightarrow> m_elements m \<noteq> [])"
  then show "(\<forall>i \<in> set ins. orderly i) \<and> (\<forall>m. Post m \<in> set ins \<longrightarrow> m_elements m \<noteq> [])" by simp
  have "ch_step (abs_channel s) (posts i) (abs_channel s')"
    by (rule tx_step_channel [OF st]) (use ok tx_run_ledger [OF run] in auto)
  then show "ch_run (abs_channel s) (map posts [i]) (abs_channel s')"
    using ch_runs.runs_single by simp
qed simp_all

text \<open>C5 (refinement). Every run without \<open>stop\<close> and \<open>dropMessages\<close> in which the client posts messages of
  packing elements is a run of the channel, step by step: a completion or a step of the worker does
  nothing to the frames, or takes the oldest one, or delivers the one in transit, or puts it back in front
  of the queue; only \<open>post\<close> lets a frame in. Empty frames are not counted.\<close>

theorem transmitter_refines_channel:
  assumes "tx_run h (SbdTransmitter_new host port) ins s" and "\<forall>i \<in> set ins. orderly i"
    and "\<forall>m. Post m \<in> set ins \<longrightarrow> m_elements m \<noteq> []"
  shows "ch_run empty_channel (map posts ins) (abs_channel s)"
  using channel.refines [OF assms(1)] assms(2,3) by (simp add: abs_channel_new)

theorem transmitter_refines_channel_witness:
  "ch_run empty_channel (map posts (map Post [sample_message] @ startup)) (abs_channel (opened [sample_message])) \<and>
   waiting (abs_channel (opened [sample_message])) = [message_wire sample_message]"
  using transmitter_refines_channel [OF run_opened [of sample_host "[sample_message]"]] sample_sendable
    message_wire_not_empty [of sample_message]
  by (auto simp: startup_def abs_channel_def opened_def queued_def real_frames_def)

section \<open>Termination of sessions\<close>

text \<open>An upper bound on the completions until the machine is idle: a reply may come in as many pieces as
  it has bytes.\<close>

definition work :: "tx \<Rightarrow> nat" where
  "work s = (case m_state s of
     eNotConnected \<Rightarrow> 0
   | eResolving \<Rightarrow> 65540
   | eConnecting \<Rightarrow> 65539
   | eSending \<Rightarrow> 65538
   | eReceivingHeader \<Rightarrow> 65537
   | eReceivingConfirmation \<Rightarrow> 1 + (unat (m_confirmationLength s) - length (the (m_buf s)))
   | eProcessingConfirmation \<Rightarrow> 1
   | eError \<Rightarrow> 1
   | eSuccess \<Rightarrow> 0)"

lemma process_confirmation_state: "process_confirmation h s = Some (ok, t) \<Longrightarrow> m_state t = m_state s"
  by (drule process_confirmation_processed, erule processed.cases) (simp_all add: emit_def)

lemma StateMachine_work: "StateMachine h s = Some s' \<Longrightarrow> work s' \<le> work s"
proof (induction h s rule: StateMachine.induct)
  case (1 h s)
  show ?case
  proof (cases "m_state s")
    case eReceivingConfirmation
    then obtain b where b: "m_buf s = Some b"
      using "1.prems" by (cases "m_buf s") (simp_all add: StateMachine.simps [of h s])
    show ?thesis
    proof (cases "length b < unat (m_confirmationLength s)")
      case True
      with "1.prems" b eReceivingConfirmation show ?thesis
        by (auto simp: tx_simps launch_def work_def)
    next
      case False
      with "1.IH"(1) [OF eReceivingConfirmation b] b eReceivingConfirmation "1.prems"
      show ?thesis by (auto simp: tx_simps work_def)
    qed
  next
    case eProcessingConfirmation
    with "1.prems" obtain ok t where p: "process_confirmation h s = Some (ok, t)"
      and t: "StateMachine h (enter (if ok then eSuccess else eError) t) = Some s'"
      by (auto simp: tx_simps split: bind_splits prod.splits)
    from "1.IH"(2) [OF eProcessingConfirmation p refl] t eProcessingConfirmation show ?thesis
      by (auto simp: work_def split: if_splits)
  next
    case eSuccess
    with "1.prems" show ?thesis by (auto simp: tx_simps work_def)
  next
    case eError
    with "1.prems" show ?thesis by (auto simp: tx_simps Let_def work_def)
  qed (use 1 in \<open>auto simp: tx_simps launch_def work_def emit_def split: prod.splits\<close>)
qed

lemma enter_frame [simp]:
  "m_confirmationLength (enter st s) = m_confirmationLength s" "m_buf (enter st s) = m_buf s"
  by (simp_all add: enter_def)

lemma work_in:
  "m_state s = eNotConnected \<Longrightarrow> work s = 0" "m_state s = eResolving \<Longrightarrow> work s = 65540"
  "m_state s = eConnecting \<Longrightarrow> work s = 65539" "m_state s = eSending \<Longrightarrow> work s = 65538"
  "m_state s = eReceivingHeader \<Longrightarrow> work s = 65537" "m_state s = eError \<Longrightarrow> work s = 1"
  "m_state s = eReceivingConfirmation \<Longrightarrow>
     work s = 1 + (unat (m_confirmationLength s) - length (the (m_buf s)))"
  by (simp_all add: work_def)

lemma react_completion_work:
  assumes q: "quiet s" and "op \<in> set (pending s)" and a: "answers op i" and "\<not> aborted i"
    and r: "react h i (s\<lparr>pending := remove1 op (pending s)\<rparr>) = Some s'"
  shows "work s' < work s"
proof -
  note sm = StateMachine_work [of h _ s']
  have f: "\<not> m_shutdown s" using q by (simp add: quiet_def)
  have len: "Suc (unat (l :: u16) - n) < 65537" for l n
    using unsigned_less [of l, where ?'a = nat] by simp
  from q assms(2,3,4) show ?thesis
  proof (cases rule: quiet_completion)
    case (1 x)
    with r f assms(4) show ?thesis
      by (cases x) (auto simp: work_in fail_def dest!: sm split: if_splits)
  next
    case (2 x)
    with r f assms(4) show ?thesis
      by (cases x) (auto simp: work_in fail_def dest!: sm split: if_splits)
  next
    case (3 x)
    with r f assms(4) show ?thesis
      by (cases x) (auto simp: work_in fail_def Let_def dest!: sm split: if_splits)
  next
    case (4 x)
    with r f assms(4) show ?thesis
      by (cases x) (auto simp: work_in fail_def Let_def dest!: sm intro: le_less_trans [OF _ len]
        split: if_splits bind_splits prod.splits)
  next
    case (5 x b)
    have "bs \<noteq> []" if "x = Completed bs" for bs
      using a 5(2) that by (cases op) simp_all
    moreover have "Suc (n - (a + length bs)) < Suc (n - a)" if "bs \<noteq> []" "a < n" for n a and bs :: "byte list"
      using that by (cases bs) auto
    ultimately show ?thesis
      using r f 5 assms(4)
      by (cases x) (auto simp: work_in fail_def dest!: sm intro: le_less_trans split: if_splits bind_splits)
  next
    case (6 x)
    with r f assms(4) show ?thesis
      by (cases x) (auto simp: work_in dest!: sm split: if_splits)
  qed
qed

fun completion :: "tx_input \<Rightarrow> bool" where
  "completion (Resolved r) = True"
| "completion (Connected r) = True"
| "completion (WriteDone r) = True"
| "completion (HeaderRead r) = True"
| "completion (ConfirmationRead r) = True"
| "completion (TimerFired r) = True"
| "completion _ = False"

lemma tx_step_work:
  "tx_step h s i (Some s') \<Longrightarrow> no_stop i \<Longrightarrow> quiet s \<Longrightarrow>
     work s' + (if completion i then 1 else 0) \<le> work s + (if i = WorkerEnter then 65540 else 0)"
proof (induction s i "Some s'" rule: tx_step.induct)
  case (client i s)
  then show ?case
    by (cases i) (auto simp: work_def post_def dropMessages_def start_def cong: State.case_cong)
next
  case (started s)
  then show ?case
    by (auto simp: worker_begin_def work_in(1))
next
  case (checked s)
  then show ?case
    by (auto simp: worker_check_def work_def cong: State.case_cong)
next
  case (waited s t)
  then show ?case
    by (auto simp: worker_wait_def work_def cong: State.case_cong)
next
  case (entered s)
  then show ?case
    by (auto simp: worker_enter_def work_in dest!: StateMachine_work)
next
  case (completed op s i)
  from react_completion_work [OF completed.prems(2) completed.hyps(1-3) completed.hyps(4)]
  have "work s' < work s" .
  moreover from completed.hyps(2) have "completion i" "i \<noteq> WorkerEnter" by (cases op; cases i; simp)+
  ultimately show ?case by simp
next
  case (complete_cancelled op s i)
  then show ?case by (simp add: quiet_def)
qed

text \<open>Between two entries the completions use up what the entry has brought.\<close>

lemma tx_run_work:
  assumes "tx_run h s ins s'" and "\<forall>i \<in> set ins. no_stop i \<and> i \<noteq> WorkerEnter" and "quiet s"
  shows "length (filter completion ins) + work s' \<le> work s \<and> quiet s'"
  using assms
proof (induction rule: tx_run.induct)
  case (snoc ins s' i s'')
  then have "no_stop i" "i \<noteq> WorkerEnter" "quiet s'" by simp_all
  with tx_step_work [OF snoc.hyps(2)] tx_step_quiet [OF snoc.hyps(2)] snoc show ?case
    by (auto split: if_splits)
qed simp

lemma entry_work:
  assumes "tx_step h s WorkerEnter (Some s')" and "quiet s"
  shows "work s' \<le> 65540 \<and> quiet s'"
  using assms(1)
proof cases
  case entered
  then have "StateMachine h (enter eResolving (s\<lparr>thread := Looping\<rparr>)) = Some s'" by (simp add: worker_enter_def)
  from StateMachine_work [OF this] tx_step_quiet [OF assms(1)] assms(2) show ?thesis by (simp add: work_in)
qed (use assms in \<open>auto elim: answers.elims\<close>)

lemma quiet_work: "quiet s \<Longrightarrow> (work s = 0 \<longleftrightarrow> m_state s = eNotConnected) \<and> length (pending s) = (if work s = 0 then 0 else 1)"
  by (auto simp: work_def quiet_defs split: State.splits)

text \<open>C7 (termination). In every run without \<open>stop\<close>, after each entry of the worker into the machine, up to the
  next one, at most 65540 operations complete, whatever the network and the gateway do and whatever the
  client does meanwhile. As long as the machine is not idle again just one operation is outstanding
  and the completions are fewer, so that they all lead to the idle state; there nothing is outstanding.\<close>

theorem sessions_terminate:
  assumes "tx_run h (SbdTransmitter_new host port) (before @ [WorkerEnter] @ session) s"
    and "\<forall>i \<in> set (before @ session). no_stop i" and "WorkerEnter \<notin> set session"
  shows "length (filter completion session) \<le> 65540 \<and>
    (if m_state s = eNotConnected then pending s = []
     else length (pending s) = 1 \<and> length (filter completion session) < 65540)"
proof -
  from tx_runs.runs_split [OF assms(1)] obtain s1 where
    s1: "tx_run h (SbdTransmitter_new host port) before s1" "tx_run h s1 ([WorkerEnter] @ session) s" by blast
  from tx_runs.runs_split [OF s1(2)] obtain s2 where s2: "tx_run h s1 [WorkerEnter] s2" "tx_run h s2 session s" by blast
  have "quiet s1"
    using tx_runs.runs_keep_ok [OF s1(1), of quiet no_stop] new_quiet tx_step_quiet assms(2) by auto
  moreover have "tx_step h s1 WorkerEnter (Some s2)"
    using s2(1) by (rule tx_runs.runs_singleD)
  ultimately have "work s2 \<le> 65540" "quiet s2" using entry_work by blast+
  moreover have "\<forall>i \<in> set session. no_stop i \<and> i \<noteq> WorkerEnter" using assms(2,3) by auto
  ultimately have w: "length (filter completion session) + work s \<le> 65540" "quiet s"
    using tx_run_work [OF s2(2)] by auto
  with quiet_work [OF w(2)] show ?thesis by (auto split: if_splits)
qed

theorem sessions_terminate_witness:
  "\<exists>s. tx_run sample_host (SbdTransmitter_new ''gw'' ''10800'')
      ((map Post [sample_message] @ startup) @ [WorkerEnter] @ [Resolved (Failed ''no such host'')]) s \<and>
    m_state s = eError \<and> length (pending s) = 1"
proof -
  have "\<exists>s. tx_exec sample_host [WorkerEnter, Resolved (Failed ''no such host'')] (opened [sample_message]) = Some s \<and>
      m_state s = eError"
    by (simp add: tx_do_def opened_def SbdTransmitter_new_def worker_enter_def tx_simps launch_def fail_def
        enter_def emit_def)
  then obtain s where s: "tx_run sample_host (SbdTransmitter_new ''gw'' ''10800'')
      ((map Post [sample_message] @ startup) @ [WorkerEnter] @ [Resolved (Failed ''no such host'')]) s" "m_state s = eError"
    using tx_run_append [OF tx_exec_run run_opened] by fastforce
  have "\<forall>i \<in> set ((map Post [sample_message] @ startup) @ [Resolved (Failed ''no such host'')]). no_stop i"
    by (simp add: startup_def)
  from sessions_terminate [OF s(1) this] s show ?thesis by (intro exI [of _ s]) simp
qed

end
