(* ===== verification/TransmitterDrain.thy ===== *)
theory TransmitterDrain
  imports TransmitterProps
begin

text \<open>
  No state of the transmitter is a dead end: whatever has happened, as long as it is not stopped, a
  network that fails the operation under way and then works lets it deliver everything that is still
  queued, without the client doing anything.
\<close>

section \<open>Back to the idle state\<close>

fun failure_of :: "State \<Rightarrow> tx_input list" where
  "failure_of eResolving = [Resolved (Failed [])]"
| "failure_of eConnecting = [Connected (Failed [])]"
| "failure_of eSending = [WriteDone (Failed [])]"
| "failure_of eReceivingHeader = [HeaderRead (Failed [])]"
| "failure_of eReceivingConfirmation = [ConfirmationRead (Failed [])]"
| "failure_of _ = []"

lemma quiet_exec:
  "tx_exec h ins s = Some s' \<Longrightarrow> quiet s \<Longrightarrow> \<forall>i \<in> set ins. no_stop i \<Longrightarrow> quiet s'"
  using tx_run_invariant [OF tx_exec_run, of h ins s s' quiet no_stop] tx_step_quiet by blast

lemma failure_exec:
  assumes "quiet s" and "m_state s \<noteq> eNotConnected"
  shows "\<exists>s'. tx_exec h (failure_of (m_state s)) s = Some s' \<and> m_state s' = eError \<and>
    pending s' = [OpTimer (Heartbeat * unat (m_errDelay s'))] \<and> thread s' = Looping \<and>
    length (jobs (m_messageQueue s')) \<le> Suc (length (jobs (m_messageQueue s)))"
  using assms
  by (cases "m_state s") (auto simp: quiet_defs tx_do_def Let_def fail_def enter_def emit_def tx_simps
      less_State_def less_eq_State_def unget_def split: option.splits)

text \<open>At most two completions end whatever is under way.\<close>

definition inner :: "tx_input list \<Rightarrow> bool" where
  "inner ins \<longleftrightarrow> (\<forall>i \<in> set ins. \<not> from_client i)"

lemma inner_simps [simp]:
  "inner []" "inner (i # ins) \<longleftrightarrow> \<not> from_client i \<and> inner ins" "inner (ins @ js) \<longleftrightarrow> inner ins \<and> inner js"
  by (auto simp: inner_def)

lemma inner_orderly: "inner ins \<Longrightarrow> i \<in> set ins \<Longrightarrow> orderly i \<and> no_stop i \<and> posts i = []"
  by (cases i) (auto simp: inner_def)

lemma to_idle:
  assumes "quiet s"
  shows "\<exists>ins s'. tx_exec h ins s = Some s' \<and> inner ins \<and> length ins \<le> 2 \<and> m_state s' = eNotConnected \<and>
    (m_state s \<noteq> eNotConnected \<longrightarrow> thread s' = Looping \<and>
       length (jobs (m_messageQueue s')) \<le> Suc (length (jobs (m_messageQueue s)))) \<and>
    (m_state s = eNotConnected \<longrightarrow> ins = [] \<and> s' = s)"
proof (cases "m_state s = eNotConnected")
  case True
  then show ?thesis by (intro exI [of _ "[]"] exI [of _ s]) simp
next
  case False
  from failure_exec [OF assms False] obtain t where t: "tx_exec h (failure_of (m_state s)) s = Some t"
      "m_state t = eError" "pending t = [OpTimer (Heartbeat * unat (m_errDelay t))]" "thread t = Looping"
      "length (jobs (m_messageQueue t)) \<le> Suc (length (jobs (m_messageQueue s)))"
    by blast
  then obtain u where u: "tx_exec h [TimerFired (Completed ())] t = Some u" "m_state u = eNotConnected"
      "thread u = Looping" "m_messageQueue u = m_messageQueue t"
    by (simp add: tx_do_def enter_def tx_simps)
  have "inner (failure_of (m_state s))" "length (failure_of (m_state s)) \<le> 1"
    by (cases "m_state s"; simp)+
  with t u False show ?thesis
    by (intro exI [of _ "failure_of (m_state s) @ [TimerFired (Completed ())]"] exI [of _ u])
      (simp add: tx_exec_append)
qed

section \<open>One message\<close>

text \<open>The worker finds the job.\<close>

definition wake_up :: "worker_pc \<Rightarrow> tx_input list" where
  "wake_up pc = (case pc of NoThread \<Rightarrow> [] | Starting \<Rightarrow> [WorkerBegin, WorkerCheck, WorkerWait False]
     | Looping \<Rightarrow> [WorkerCheck, WorkerWait False] | Waiting \<Rightarrow> [WorkerWait False] | Entering \<Rightarrow> [])"

lemma wake_up_exec:
  assumes "quiet s" and "m_state s = eNotConnected" and "thread s \<noteq> NoThread" and "jobs (m_messageQueue s) \<noteq> []"
  shows "\<exists>s'. tx_exec h (wake_up (thread s)) s = Some s' \<and> thread s' = Entering \<and>
    m_messageQueue s' = m_messageQueue s"
  using assms
  by (cases "thread s") (auto simp: wake_up_def quiet_defs tx_do_def worker_begin_def worker_check_def
      worker_wait_def wait_for_def)

text \<open>A reply that arrives as a whole.\<close>

definition whole_reply :: "byte list" where
  "whole_reply = 1 # be16 28 @ reply_body sample_reply"

lemma deliver_one:
  assumes "quiet s" and "m_state s = eNotConnected" and "thread s \<noteq> NoThread"
    and "jobs (m_messageQueue s) = m # js" and "sendable m"
  shows "\<exists>ins s'. tx_exec h ins s = Some s' \<and> inner ins \<and>
    length ins \<le> 5 + length (wake_up (thread s)) \<and> m_state s' = eNotConnected \<and> thread s' = Looping \<and>
    jobs (m_messageQueue s') = js"
proof -
  from wake_up_exec [OF assms(1-3)] assms(4) obtain t where t: "tx_exec h (wake_up (thread s)) s = Some t"
      "thread t = Entering" "m_messageQueue t = m_messageQueue s" by auto
  have i: "inner (wake_up (thread s))" by (simp add: wake_up_def split: worker_pc.split)
  have q: "quiet t"
    by (rule quiet_exec [OF t(1) assms(1)]) (use inner_orderly [OF i] in blast)
  obtain m' where m': "MtMessage_serialize h m = (m', message_wire m)"
    using serialize_sendable [OF assms(5)] by blast
  let ?q = "m_messageQueue s\<lparr>jobs := js\<rparr>"
  let ?u = "awaiting_reply m' [] ?q (message_wire m) t"
  let ?ins = "session_prefix [] [] [[]] (length (message_wire m)) @ [HeaderRead (Completed whole_reply)]"
  have "get MtMessage_init (m_messageQueue t) = (m, ?q)"
    using assms(4) t(3) by (simp add: get_def)
  from session_to_reply [OF q t(2) this m', of "[[]]" "[]" "[]"]
  have "tx_exec h ?ins t = Some (finish (reply_status sample_reply) (?u\<lparr>pending := []\<rparr>))"
    using session_reply [OF sample_reply_good(1), of ?u whole_reply "[]" h] q
    by (simp add: tx_exec_append sample_reply_good awaiting_reply_def whole_reply_def SbdProtoNumber_def quiet_def)
  with t(1) i show ?thesis
    by (intro exI [of _ "wake_up (thread s) @ ?ins"] exI [of _ "finish (reply_status sample_reply) (?u\<lparr>pending := []\<rparr>)"])
      (simp add: tx_exec_append session_prefix_def finish_def awaiting_reply_def)
qed

lemma deliver_all:
  assumes "quiet s" and "m_state s = eNotConnected" and "thread s = Looping"
    and "\<forall>m \<in> set (jobs (m_messageQueue s)). sendable m"
  shows "\<exists>ins s'. tx_exec h ins s = Some s' \<and> inner ins \<and> length ins \<le> 7 * length (jobs (m_messageQueue s)) \<and>
    m_state s' = eNotConnected \<and> jobs (m_messageQueue s') = []"
  using assms
proof (induction "jobs (m_messageQueue s)" arbitrary: s)
  case Nil
  then show ?case by (intro exI [of _ "[]"] exI [of _ s]) simp
next
  case (Cons m js)
  from Cons.hyps(2) [symmetric] Cons.prems(4) have m: "jobs (m_messageQueue s) = m # js" "sendable m" by auto
  from deliver_one [OF Cons.prems(1,2) _ m, of h] Cons.prems(3) obtain ins t where
      t: "tx_exec h ins s = Some t" "inner ins" "length ins \<le> 7" "m_state t = eNotConnected" "thread t = Looping"
      "jobs (m_messageQueue t) = js"
    by (auto simp: wake_up_def)
  have q: "quiet t"
    by (rule quiet_exec [OF t(1) Cons.prems(1)]) (use inner_orderly [OF t(2)] in blast)
  have "\<forall>m \<in> set (jobs (m_messageQueue t)). sendable m" using Cons.prems(4) m t(6) by simp
  with Cons.hyps(1) [OF t(6) [symmetric] q t(4,5)] obtain js' u where "tx_exec h js' t = Some u" "inner js'"
      "length js' \<le> 7 * length js" "m_state u = eNotConnected" "jobs (m_messageQueue u) = []"
    using t(6) by auto
  with t m show ?case
    by (intro exI [of _ "ins @ js'"] exI [of _ u]) (simp add: tx_exec_append)
qed

section \<open>The queue can always be emptied\<close>

text \<open>From an idle state whose worker may be anywhere in its loop.\<close>

lemma deliver_from_idle:
  assumes "quiet s" and "m_state s = eNotConnected" and "thread s \<noteq> NoThread"
    and "\<forall>m \<in> set (jobs (m_messageQueue s)). sendable m"
  shows "\<exists>ins s'. tx_exec h ins s = Some s' \<and> inner ins \<and>
    length ins \<le> 7 * length (jobs (m_messageQueue s)) + (if thread s = Looping then 0 else 1) \<and>
    m_state s' = eNotConnected \<and> jobs (m_messageQueue s') = []"
proof (cases "jobs (m_messageQueue s)")
  case Nil
  with assms show ?thesis by (intro exI [of _ "[]"] exI [of _ s]) simp
next
  case (Cons m js)
  with assms(4) have "sendable m" by simp
  from deliver_one [OF assms(1-3) Cons this, of h] obtain ins t where t: "tx_exec h ins s = Some t" "inner ins"
      "length ins \<le> 5 + length (wake_up (thread s))" "m_state t = eNotConnected" "thread t = Looping"
      "jobs (m_messageQueue t) = js"
    by blast
  have q: "quiet t"
    by (rule quiet_exec [OF t(1) assms(1)]) (use inner_orderly [OF t(2)] in blast)
  have "length (wake_up (thread s)) \<le> 2 + (if thread s = Looping then 0 else 1)"
    by (simp add: wake_up_def split: worker_pc.split)
  moreover from deliver_all [OF q t(4,5), of h] assms(4) Cons t(6) obtain js' u where "tx_exec h js' t = Some u"
      "inner js'" "length js' \<le> 7 * length js" "m_state u = eNotConnected" "jobs (m_messageQueue u) = []"
    by auto
  ultimately show ?thesis using t Cons
    by (intro exI [of _ "ins @ js'"] exI [of _ u]) (simp add: tx_exec_append)
qed

text \<open>C6 (liveness). The transmitter never gets stuck. From every state of a run in which it was started and
  the client neither stops it nor drops messages, whatever the network, the gateway and the worker have
  done so far, there is a continuation of at most seven steps for each queued message and nine more, all
  of them completions and steps of the worker, after which it is idle, the queue is empty and all that was
  ever posted is confirmed, in the order of posting.\<close>

theorem queue_can_be_emptied:
  assumes "tx_run h (SbdTransmitter_new host port) ins s" and "\<forall>i \<in> set ins. orderly i"
    and "\<forall>m. Post m \<in> set ins \<longrightarrow> m_elements m \<noteq> []" and "m_running s"
  shows "\<exists>ins' s'. tx_run h s ins' s' \<and> (\<forall>i \<in> set ins'. \<not> from_client i) \<and>
    length ins' \<le> 7 * length (jobs (m_messageQueue s)) + 9 \<and> m_state s' = eNotConnected \<and>
    jobs (m_messageQueue s') = [] \<and> real_frames (acknowledged s') = concat (map posts ins)"
proof -
  from tx_run_ledger [OF assms(1,2)] have q: "quiet s" by simp
  with assms(4) have th: "thread s \<noteq> NoThread" by (simp add: quiet_def)
  from to_idle [OF q, of h] obtain is1 t where t: "tx_exec h is1 s = Some t" "inner is1" "length is1 \<le> 2"
      "m_state t = eNotConnected"
      "m_state s \<noteq> eNotConnected \<Longrightarrow> thread t = Looping \<and>
         length (jobs (m_messageQueue t)) \<le> Suc (length (jobs (m_messageQueue s)))"
      "m_state s = eNotConnected \<Longrightarrow> t = s"
    by blast
  have qt: "quiet t"
    by (rule quiet_exec [OF t(1) q]) (use inner_orderly [OF t(2)] in blast)
  have "ledger_rest (concat (map posts (ins @ is1))) t"
    using tx_run_ledger [OF tx_run_append [OF tx_exec_run [OF t(1)] assms(1)]] assms(2) inner_orderly [OF t(2)] by auto
  then have "\<forall>m \<in> set (jobs (m_messageQueue t)). sendable m" by (simp add: ledger_rest_def ledger_def)
  moreover have "thread t \<noteq> NoThread" using t(5,6) th by (cases "m_state s = eNotConnected") simp_all
  ultimately obtain is2 u where u: "tx_exec h is2 t = Some u" "inner is2"
      "length is2 \<le> 7 * length (jobs (m_messageQueue t)) + (if thread t = Looping then 0 else 1)"
      "m_state u = eNotConnected" "jobs (m_messageQueue u) = []"
    using deliver_from_idle [OF qt t(4), of h] by blast
  have run: "tx_run h s (is1 @ is2) u"
    by (rule tx_exec_run) (simp add: tx_exec_append t(1) u(1))
  have inner: "inner (is1 @ is2)" using t(2) u(2) by simp
  have no_posts: "concat (map posts (is1 @ is2)) = []"
    using inner_orderly [OF inner] by (simp only: concat_eq_Nil_conv) auto
  have posts: "concat (map posts (ins @ is1 @ is2)) = concat (map posts ins)"
    using no_posts by simp
  have "real_frames (acknowledged u @ under_way u @ queued u) = concat (map posts (ins @ is1 @ is2))"
    by (rule tx_run_real_frames [OF tx_run_append [OF run assms(1)]])
      (use assms(2) inner_orderly [OF inner] posts_not_empty [OF assms(3)] posts in auto)
  then have "real_frames (acknowledged u) = concat (map posts ins)"
    using u(4,5) posts by (simp add: under_way_def queued_def)
  moreover have "length (is1 @ is2) \<le> 7 * length (jobs (m_messageQueue s)) + 9"
    using t(3,5,6) u(3) by (cases "m_state s = eNotConnected") (auto split: if_splits)
  ultimately show ?thesis using run inner u(4,5) unfolding inner_def by blast
qed

theorem queue_can_be_emptied_witness:
  "\<exists>ins s. tx_run sample_host (opened [sample_message]) ins s \<and> m_state s = eNotConnected \<and>
     jobs (m_messageQueue s) = [] \<and> real_frames (acknowledged s) = [message_wire sample_message]"
proof -
  have r: "m_running (opened [sample_message])" by (simp add: opened_def SbdTransmitter_new_def)
  from queue_can_be_emptied [OF run_opened [of sample_host "[sample_message]"] _ _ r] sample_sendable
  show ?thesis by (auto simp: startup_def)
qed

end
