(* ===== verification/IncomingSbdSession.thy ===== *)
theory IncomingSbdSession
  imports CodecLemmas
begin

text \<open>
  include/iridium/IncomingSbdSession.hpp and src/IncomingSbdSession.cpp: one incoming connection, from
  which one mobile originated message is read. \<open>reading\<close> is the outstanding \<open>async_read_some\<close> with the
  size of its buffer; when it is \<^term>\<open>None\<close> nothing refers to the session any more and it is gone. What
  the session makes its receiver emit is returned; a receiver that no longer exists emits nothing.
\<close>

record session =
  m_inBuf :: "byte list"
  m_messageLength :: u16
  reading :: "nat option"

datatype rx_event = RxError string | RxMessage MoMessage

definition session_new :: session where
  "session_new = \<lparr>m_inBuf = [], m_messageLength = 0, reading = None\<rparr>"

definition session_start :: "session \<Rightarrow> session" where
  "session_start s = s\<lparr>reading := Some (unat MoMessage_MaxMessageSize + MessageHeader_size)\<rparr>"

text \<open>\<open>if (!m_receiver.expired()) ...\<close>\<close>

definition report :: "bool \<Rightarrow> rx_event list \<Rightarrow> rx_event list" where
  "report alive evs = (if alive then evs else [])"

text \<open>The end of \<open>onRead\<close>, from the copy of the message on. The string keeps a NUL behind it.\<close>

definition process_message :: "host \<Rightarrow> bool \<Rightarrow> session \<Rightarrow> (session \<times> rx_event list) option" where
  "process_message h alive s = do {
     let n = unat (m_messageLength s);
     buf \<leftarrow> rd (m_inBuf s) 0 n;
     msgCategory \<leftarrow> messageCategory h (buf @ [0]) n;
     (if msgCategory \<noteq> eMoMessage
      then Some (s, report alive [RxError ((if msgCategory \<noteq> eUnknownMessage then ''unexpected '' else '''')
             @ categoryStr msgCategory)])
      else do {
        (r, message) \<leftarrow> parse_Mo h (buf @ [0]) n MoMessage_init;
        (case r of
           Inl e \<Rightarrow> Some (s, report alive [RxError (''message parse error: '' @ e)])
         | Inr _ \<Rightarrow>
             let s = s\<lparr>m_inBuf := drop n (m_inBuf s)\<rparr>
             in Some (s, report alive (RxMessage message #
                  (if m_inBuf s \<noteq> []
                   then [RxError (''unexpected '' @ show_nat (length (m_inBuf s)) @ '' bytes received'')]
                   else []))))
      })
   }"

definition after_header :: "host \<Rightarrow> bool \<Rightarrow> session \<Rightarrow> (session \<times> rx_event list) option" where
  "after_header h alive s =
     (if m_messageLength s = 0 \<or> length (m_inBuf s) < unat (m_messageLength s)
      then Some (s\<lparr>reading := Some (unat MoMessage_MaxMessageSize)\<rparr>, [])
      else process_message h alive s)"

text \<open>The result of the read: the message of the error code, or the bytes.\<close>

fun onRead :: "host \<Rightarrow> bool \<Rightarrow> (string + byte list) \<Rightarrow> session \<Rightarrow> (session \<times> rx_event list) option" where
  "onRead h alive (Inl msg) s = Some (s\<lparr>reading := None\<rparr>, report alive [RxError msg])"
| "onRead h alive (Inr bytes) s =
     (let s = s\<lparr>reading := None, m_inBuf := m_inBuf s @ bytes\<rparr> in
      if length (m_inBuf s) \<ge> MessageHeader_size \<and> m_messageLength s = 0
      then do {
        (proto, len, rest) \<leftarrow> take_header h (m_inBuf s);
        let s = s\<lparr>m_inBuf := rest\<rparr>;
        (if proto \<noteq> uint SbdProtoNumber
         then Some (s, report alive [RxError (''invalid protocol number '' @ show_int proto)])
         else after_header h alive (s\<lparr>m_messageLength := len\<rparr>))
      }
      else after_header h alive s)"

section \<open>A sequence of reads\<close>

text \<open>The results of successive reads, each with whether the receiver still exists then. No handler
  runs once the session is gone.\<close>

fun receive :: "host \<Rightarrow> (bool \<times> (string + byte list)) list \<Rightarrow> session \<Rightarrow> (session \<times> rx_event list) option" where
  "receive h [] s = Some (s, [])"
| "receive h ((alive, r) # rs) s =
     (if reading s = None then Some (s, [])
      else do {
        (s, evs) \<leftarrow> onRead h alive r s;
        (s, evs') \<leftarrow> receive h rs s;
        Some (s, evs @ evs')
      })"

lemma receive_append:
  "receive h (rs @ rs') s = do {
     (s, evs) \<leftarrow> receive h rs s; (s, evs') \<leftarrow> receive h rs' s; Some (s, evs @ evs') }"
proof (induction rs arbitrary: s)
  case Nil
  then show ?case by (cases "receive h rs' s") auto
next
  case (Cons r rs)
  have "reading s = None \<Longrightarrow> receive h rs' s = Some (s, [])" for s
    by (cases rs') auto
  with Cons show ?case
    by (cases r) (auto split: bind_split)
qed

lemma receive_gone: "reading s = None \<Longrightarrow> receive h rs s = Some (s, [])"
  by (cases rs) auto

text \<open>What the receiver emits for a complete message body with \<open>extra\<close> more bytes behind it.\<close>

definition message_events :: "host \<Rightarrow> byte list \<Rightarrow> nat \<Rightarrow> rx_event list option" where
  "message_events h body extra = do {
     msgCategory \<leftarrow> messageCategory h (body @ [0]) (length body);
     (if msgCategory \<noteq> eMoMessage
      then Some [RxError ((if msgCategory \<noteq> eUnknownMessage then ''unexpected '' else '''') @ categoryStr msgCategory)]
      else do {
        (r, message) \<leftarrow> parse_Mo h (body @ [0]) (length body) MoMessage_init;
        Some (case r of
           Inl e \<Rightarrow> [RxError (''message parse error: '' @ e)]
         | Inr _ \<Rightarrow> RxMessage message #
             (if extra = 0 then [] else [RxError (''unexpected '' @ show_nat extra @ '' bytes received'')]))
      })
   }"

lemma process_message_events:
  assumes "m_inBuf s = body @ rest" and "length body = unat (m_messageLength s)" and "reading s = None"
  shows "map_option (\<lambda>(s', evs). (reading s', evs)) (process_message h alive s) =
    map_option (\<lambda>evs. (None, report alive evs)) (message_events h body (length rest))"
proof -
  have "rd (m_inBuf s) 0 (unat (m_messageLength s)) = Some body"
    using assms(1,2) by (simp add: rd_def)
  with assms show ?thesis
    by (auto simp: process_message_def message_events_def Let_def split: sum.splits bind_split)
qed

section \<open>Segmentation\<close>

text \<open>The session has received \<open>T\<close>, an incomplete beginning of a message of \<open>n\<close> bytes.\<close>

definition receiving :: "u16 \<Rightarrow> byte list \<Rightarrow> session \<Rightarrow> bool" where
  "receiving n T s \<longleftrightarrow> reading s \<noteq> None \<and> length T < 3 + unat n \<and>
     (if length T < 3 then m_inBuf s = T \<and> m_messageLength s = 0
      else m_inBuf s = drop 3 T \<and> m_messageLength s = n)"

lemma receiving_start: "receiving n [] (session_start session_new)"
  by (simp add: receiving_def session_start_def session_new_def)

lemma take_header_prefix:
  assumes "T @ rest = 1 # be16 n @ stream" and "3 \<le> length T"
  shows "take_header h T = Some (1, n, drop 3 T)"
proof -
  have "take 3 T = take 3 (T @ rest)" using assms(2) by simp
  also have "\<dots> = SbdProtoNumber # be16 n"
    by (simp add: assms(1) SbdProtoNumber_def be16_def)
  finally have T: "T = SbdProtoNumber # be16 n @ drop 3 T"
    using append_take_drop_id [of 3 T] by simp
  show ?thesis
    using take_header_wire [of h n "drop 3 T"] T by simp
qed

lemma onRead_receiving:
  assumes r: "receiving n T s" and n: "n \<noteq> 0" and w: "(T @ c) @ rest = 1 # be16 n @ stream"
  shows "onRead h alive (Inr c) s =
    (let s' = s\<lparr>reading := None, m_inBuf := drop 3 (T @ c), m_messageLength := n\<rparr> in
     if length (T @ c) < 3
     then Some (s\<lparr>reading := Some (unat MoMessage_MaxMessageSize), m_inBuf := T @ c\<rparr>, [])
     else if length (T @ c) < 3 + unat n
     then Some (s'\<lparr>reading := Some (unat MoMessage_MaxMessageSize)\<rparr>, [])
     else process_message h alive s')"
proof (cases "length (T @ c) < 3")
  case True
  with r show ?thesis
    by (simp add: receiving_def Let_def MessageHeader_size_def after_header_def)
next
  case False
  then have th: "take_header h (T @ c) = Some (1, n, drop 3 (T @ c))"
    by (intro take_header_prefix [OF w]) simp
  show ?thesis
  proof (cases "length T < 3")
    case True
    with r have "m_inBuf s = T" "m_messageLength s = 0" by (simp_all add: receiving_def)
    with th False n show ?thesis
      by (auto simp: Let_def MessageHeader_size_def after_header_def uint_SbdProtoNumber)
  next
    case b: False
    with r have "m_inBuf s = drop 3 T" "m_messageLength s = n" by (simp_all add: receiving_def)
    with b n show ?thesis
      by (auto simp: Let_def MessageHeader_size_def after_header_def)
  qed
qed

lemma receive_incomplete:
  assumes "n \<noteq> 0" and "receiving n T s" and "(T @ concat (map snd cs)) @ rest = 1 # be16 n @ stream"
    and "length (T @ concat (map snd cs)) < 3 + unat n"
  shows "\<exists>s'. receive h (map (\<lambda>(a, c). (a, Inr c)) cs) s = Some (s', []) \<and>
    receiving n (T @ concat (map snd cs)) s'"
  using assms(2-)
proof (induction cs arbitrary: T s)
  case Nil
  then show ?case by simp
next
  case (Cons ac cs)
  obtain a c where ac: "ac = (a, c)" by fastforce
  have w: "(T @ c) @ concat (map snd cs) @ rest = 1 # be16 n @ stream"
    using Cons.prems(2) ac by simp
  have l: "length (T @ c) < 3 + unat n"
    using Cons.prems(3) ac by simp
  define s1 where "s1 = (if length (T @ c) < 3
    then s\<lparr>reading := Some (unat MoMessage_MaxMessageSize), m_inBuf := T @ c\<rparr>
    else s\<lparr>reading := Some (unat MoMessage_MaxMessageSize), m_inBuf := drop 3 (T @ c), m_messageLength := n\<rparr>)"
  have s1: "onRead h a (Inr c) s = Some (s1, [])" "receiving n (T @ c) s1"
    using onRead_receiving [OF Cons.prems(1) assms(1) w, of h a] l Cons.prems(1)
    by (simp_all add: s1_def Let_def receiving_def del: onRead.simps)
  have "reading s \<noteq> None"
    using Cons.prems(1) by (simp add: receiving_def)
  with s1(1) Cons.IH [OF s1(2)] Cons.prems(2,3) ac show ?case
    by (auto simp del: onRead.simps)
qed

text \<open>Whatever the segments, the events are those of the complete message, emitted when the segment that
  completes it arrives.\<close>

lemma receive_complete:
  assumes "n \<noteq> 0" and "length body = unat n" and "concat (map snd cs) @ c = 1 # be16 n @ body @ rest"
    and "length (concat (map snd cs)) < 3 + unat n"
  shows "map_option snd (receive h (map (\<lambda>(a, c). (a, Inr c)) cs @ (alive, Inr c) # later)
      (session_start session_new)) = map_option (report alive) (message_events h body (length rest))"
proof -
  let ?T = "concat (map snd cs)"
  obtain s where s: "receive h (map (\<lambda>(a, c). (a, Inr c)) cs) (session_start session_new) = Some (s, [])"
      "receiving n ?T s"
    using receive_incomplete [OF assms(1) receiving_start, of cs c "body @ rest" h] assms(3,4) by auto
  let ?s = "s\<lparr>reading := None, m_inBuf := drop 3 (?T @ c), m_messageLength := n\<rparr>"
  have d: "drop 3 (?T @ c) = body @ rest" "\<not> length (?T @ c) < 3 + unat n"
    using assms(2) by (simp_all add: assms(3) be16_def)
  have "onRead h alive (Inr c) s = process_message h alive ?s"
    using onRead_receiving [OF s(2) assms(1), of c "[]" "body @ rest" h alive] assms(3) d by (simp add: Let_def)
  moreover have "map_option (\<lambda>(s', evs). (reading s', evs)) (process_message h alive ?s) =
      map_option (\<lambda>evs. (None, report alive evs)) (message_events h body (length rest))"
    by (rule process_message_events) (use d(1) assms(2) in simp_all)
  ultimately have "map_option snd (receive h ((alive, Inr c) # later) s) =
      map_option (report alive) (message_events h body (length rest))"
    using s(2) by (cases "process_message h alive ?s"; cases "message_events h body (length rest)")
      (auto simp: receiving_def receive_gone)
  then show ?thesis
    by (simp add: receive_append s(1) split: bind_split)
qed

end
