(* ===== verification/SbdReceiver.thy ===== *)
theory SbdReceiver
  imports IncomingSbdSession Runs
begin

text \<open>
  include/iridium/SbdReceiver.hpp and src/SbdReceiver.cpp: the listening socket. The receiver and the
  sessions it has accepted are one state; steps are the public calls, the completions of the
  outstanding accepts, and the reads of the sessions. The system calls are not modelled: whether one
  fails, with the text of its error code, is an argument.
\<close>

section \<open>The receiver\<close>

text \<open>\<open>accepts\<close> counts the outstanding \<open>async_accept\<close> operations, \<open>cancelled_accepts\<close> those whose
  acceptor was closed meanwhile.\<close>

record receiver =
  exists :: bool
  acceptor_open :: bool
  rx_sentinel :: bool
  accepts :: nat
  cancelled_accepts :: nat
  sessions :: "session list"
  emitted :: "rx_event list"

datatype accepted = AcceptAborted | AcceptFailed string | AcceptOk

definition SbdReceiver_Factory :: receiver where
  "SbdReceiver_Factory = \<lparr>exists = True, acceptor_open = False, rx_sentinel = False, accepts = 0,
     cancelled_accepts = 0, sessions = [], emitted = []\<rparr>"

definition doAccept :: "receiver \<Rightarrow> receiver" where
  "doAccept r = r\<lparr>accepts := accepts r + 1\<rparr>"

text \<open>The arguments are the failures of \<open>open\<close>, \<open>bind\<close> and \<open>listen\<close>. After a failure of the last two the
  acceptor is closed again, and exceptions of \<open>close\<close> are swallowed.\<close>

definition rx_start :: "string option \<Rightarrow> string option \<Rightarrow> string option \<Rightarrow> receiver \<Rightarrow> (exc + unit) \<times> receiver" where
  "rx_start open_ec bind_ec listen_ec r =
     (if acceptor_open r then (Inr (), r)
      else case open_ec of
        Some msg \<Rightarrow> (Inl msg, r)
      | None \<Rightarrow>
        let r = r\<lparr>acceptor_open := True\<rparr> in
        case bind_ec of
          Some msg \<Rightarrow> (Inl msg, r\<lparr>acceptor_open := False\<rparr>)
        | None \<Rightarrow>
          (case listen_ec of
             Some msg \<Rightarrow> (Inl msg, r\<lparr>acceptor_open := False\<rparr>)
           | None \<Rightarrow> (Inr (), doAccept (r\<lparr>rx_sentinel := True\<rparr>))))"

text \<open>Closing the acceptor cancels its operations, also when \<open>close\<close> reports an error.\<close>

definition rx_stop :: "bool \<Rightarrow> string option \<Rightarrow> receiver \<Rightarrow> (exc + unit) \<times> receiver" where
  "rx_stop woexcept close_ec r =
     (if \<not> acceptor_open r then (Inr (), r)
      else
        let r = r\<lparr>rx_sentinel := False, acceptor_open := False, accepts := 0,
                  cancelled_accepts := cancelled_accepts r + accepts r\<rparr>
        in case close_ec of
             Some msg \<Rightarrow> (if \<not> woexcept then Inl msg else Inr (), r)
           | None \<Rightarrow> (Inr (), r))"

text \<open>The destructor.\<close>

definition rx_destroy :: "receiver \<Rightarrow> receiver" where
  "rx_destroy r = (snd (rx_stop True None r))\<lparr>exists := False\<rparr>"

text \<open>The handler captures a bare \<open>this\<close>; except when it was aborted it uses the receiver, and is
  undefined when there is none.\<close>

definition on_accept :: "accepted \<Rightarrow> receiver \<Rightarrow> receiver option" where
  "on_accept res r = (case res of
     AcceptAborted \<Rightarrow> Some r
   | AcceptFailed msg \<Rightarrow> if exists r then Some (doAccept r) else None
   | AcceptOk \<Rightarrow> if exists r
       then Some (doAccept (r\<lparr>sessions := sessions r @ [session_start session_new]\<rparr>)) else None)"

definition on_session_read :: "host \<Rightarrow> nat \<Rightarrow> (string + byte list) \<Rightarrow> receiver \<Rightarrow> receiver option" where
  "on_session_read h k res r = do {
     (s, evs) \<leftarrow> onRead h (exists r) res (sessions r ! k);
     Some (r\<lparr>sessions := (sessions r)[k := s], emitted := emitted r @ evs\<rparr>)
   }"

section \<open>Steps\<close>

datatype rx_input = RxStart "string option" "string option" "string option"
  | RxStop bool "string option" | RxDestroy | Accept accepted | SessionRead nat "string + byte list"

text \<open>An accept on a closed acceptor can only fail. A read succeeds with at least one byte and at most
  the size of its buffer.\<close>

inductive rx_step :: "host \<Rightarrow> receiver \<Rightarrow> rx_input \<Rightarrow> receiver option \<Rightarrow> bool" for h :: host where
  start: "exists r \<Longrightarrow> rx_step h r (RxStart a b c) (Some (snd (rx_start a b c r)))"
| stop: "exists r \<Longrightarrow> rx_step h r (RxStop w e) (Some (snd (rx_stop w e r)))"
| destroy: "exists r \<Longrightarrow> rx_step h r RxDestroy (Some (rx_destroy r))"
| accept: "0 < accepts r \<Longrightarrow> res \<noteq> AcceptAborted \<Longrightarrow> (acceptor_open r \<or> res \<noteq> AcceptOk) \<Longrightarrow>
    rx_step h r (Accept res) (on_accept res (r\<lparr>accepts := accepts r - 1\<rparr>))"
| accept_cancelled: "0 < cancelled_accepts r \<Longrightarrow>
    rx_step h r (Accept res) (on_accept res (r\<lparr>cancelled_accepts := cancelled_accepts r - 1\<rparr>))"
| read: "k < length (sessions r) \<Longrightarrow> reading (sessions r ! k) = Some n \<Longrightarrow>
    (case res of Inl msg \<Rightarrow> True | Inr bs \<Rightarrow> bs \<noteq> [] \<and> length bs \<le> n) \<Longrightarrow>
    rx_step h r (SessionRead k res) (on_session_read h k res r)"

inductive rx_run :: "host \<Rightarrow> receiver \<Rightarrow> rx_input list \<Rightarrow> receiver \<Rightarrow> bool" for h :: host and r :: receiver where
  nil: "rx_run h r [] r"
| snoc: "rx_run h r ins r' \<Longrightarrow> rx_step h r' i (Some r'') \<Longrightarrow> rx_run h r (ins @ [i]) r''"

inductive_cases rx_step_SessionReadE: "rx_step h r (SessionRead k res) r'"
inductive_cases rx_step_AcceptE: "rx_step h r (Accept res) r'"

interpretation rx_runs: labelled_runs "\<lambda>r i r'. rx_step h r i (Some r')" "rx_run h" for h
  by (unfold_locales, auto intro: rx_run.intros) (erule rx_run.induct; blast)

lemma rx_run_invariant:
  assumes "rx_run h r ins r'" and "I r" and "\<forall>i \<in> set ins. ok i"
    and "\<And>r i r'. I r \<Longrightarrow> ok i \<Longrightarrow> rx_step h r i (Some r') \<Longrightarrow> I r'"
  shows "I r'"
  using assms by (rule rx_runs.runs_keep_ok)

section \<open>The accept loop\<close>

text \<open>Inputs of a run in which the accepts that \<open>stop\<close> cancels are told so, and in which the receiver is
  not destroyed.\<close>

definition listening :: "receiver \<Rightarrow> bool" where
  "listening r \<longleftrightarrow> exists r \<and> accepts r = (if acceptor_open r then 1 else 0) \<and>
     (rx_sentinel r \<longleftrightarrow> acceptor_open r)"

lemma rx_start_cases:
  "snd (rx_start a b c r) = r \<or>
   (\<not> acceptor_open r \<and> snd (rx_start a b c r) = r\<lparr>acceptor_open := False\<rparr>) \<or>
   (\<not> acceptor_open r \<and> snd (rx_start a b c r) =
      doAccept (r\<lparr>acceptor_open := True, rx_sentinel := True\<rparr>))"
  by (auto simp: rx_start_def Let_def split: option.splits)

lemma rx_stop_snd:
  "snd (rx_stop w e r) = (if acceptor_open r then r\<lparr>rx_sentinel := False, acceptor_open := False,
     accepts := 0, cancelled_accepts := cancelled_accepts r + accepts r\<rparr> else r)"
  by (simp add: rx_stop_def Let_def split: option.splits)

end
