(* ===== verification/ReceiverProps.thy ===== *)
theory ReceiverProps
  imports SbdReceiver CodecErrors
begin

text \<open>
  The properties of the receiving side: one message per session whatever the segments, what a session
  can emit, the start of the listener, the accept loop, and where received bytes or the order of
  events lead to undefined behaviour or to a loop without end.
\<close>

section \<open>Sessions\<close>

lemma length_wire_u16:
  assumes "w \<noteq> []" and "length w < 65536"
  shows "unat (of_nat (length w) :: u16) = length w" and "(of_nat (length w) :: u16) \<noteq> 0"
proof -
  show n: "unat (of_nat (length w) :: u16) = length w" by (rule unat_of_nat_u16 [OF assms(2)])
  with assms(1) show "(of_nat (length w) :: u16) \<noteq> 0" by (metis unat_0 length_0_conv)
qed

lemma message_events_wire:
  assumes "\<forall>e \<in> set es. el_good e \<and> typed e" and "list_all IsMoElem (map getId es)"
    and "find (\<lambda>e. getId e = eMoHeader) es = Some (IEMoHeader x)"
    and "find (\<lambda>e. getId e = eMoPayload) es = Some (IEMoPayload y)"
    and "w = wire_elements es" and "length w < 65536"
  shows "w \<noteq> [] \<and> (\<exists>m. message_events h w (length rest) = Some (RxMessage m # (if rest = [] then []
      else [RxError (''unexpected '' @ show_nat (length rest) @ '' bytes received'')])) \<and>
    MoMessage_imei m = c_str (m_imei_mo (m_content x)) \<and> MoMessage_payload m = Some (m_payload_mo (m_content y)))"
proof -
  have ne: "es \<noteq> []" using assms(3) by auto
  then have "1 \<le> length w" by (cases es) (simp_all add: assms(5))
  then have w: "w \<noteq> []" by auto
  have "list_all IsMoElem (map getId es) \<and> map getId es \<noteq> []" using assms(2) ne by simp
  then have cat: "messageCategory h (w @ [0]) (length w) = Some eMoMessage"
    using category_of_elements [of es h "[0]"] assms(1) el.good_packs
    by (auto simp: assms(5) category_spec_def)
  obtain m where "parse_Mo h (w @ [0]) (length w) MoMessage_init = Some (Inr (), m)"
      "MoMessage_imei m = c_str (m_imei_mo (m_content x))"
      "MoMessage_payload m = Some (m_payload_mo (m_content y))"
    using parse_Mo_wire [OF assms(1,3,4), of h "[0]" MoMessage_init] assms(5,6) by auto
  with w show ?thesis by (simp add: message_events_def cat)
qed

text \<open>C2 (functional). From the packed elements of a mobile originated message to the subscriber: a
  message framed by the protocol header and cut into any segments is emitted exactly once, when the
  segment that completes it arrives, with the IMEI and the payload that were packed; bytes behind it
  are reported, and nothing is read after it.\<close>

theorem message_received_once:
  assumes "\<forall>e \<in> set es. el_good e \<and> typed e" and "list_all IsMoElem (map getId es)"
    and "find (\<lambda>e. getId e = eMoHeader) es = Some (IEMoHeader x)"
    and "find (\<lambda>e. getId e = eMoPayload) es = Some (IEMoPayload y)"
    and "w = wire_elements es" and "length w < 65536"
    and "concat (map snd cs) @ c = 1 # be16 (of_nat (length w)) @ w @ rest"
    and "length (concat (map snd cs)) < 3 + length w"
  shows "\<exists>s m. receive h (map (\<lambda>(a, c). (a, Inr c)) cs @ (True, Inr c) # later) (session_start session_new)
      = Some (s, RxMessage m # (if rest = [] then []
          else [RxError (''unexpected '' @ show_nat (length rest) @ '' bytes received'')])) \<and>
    MoMessage_imei m = c_str (m_imei_mo (m_content x)) \<and> MoMessage_payload m = Some (m_payload_mo (m_content y))"
proof -
  obtain m where ne: "w \<noteq> []" and m: "message_events h w (length rest) = Some (RxMessage m # (if rest = [] then []
      else [RxError (''unexpected '' @ show_nat (length rest) @ '' bytes received'')]))"
      "MoMessage_imei m = c_str (m_imei_mo (m_content x))"
      "MoMessage_payload m = Some (m_payload_mo (m_content y))"
    using message_events_wire [OF assms(1-6)] by blast
  note n = length_wire_u16 [OF ne assms(6)]
  from receive_complete [OF n(2) n(1) [symmetric] assms(7), of h True later] assms(8) n(1) m
  show ?thesis
    by (auto simp: report_def)
qed

theorem message_received_once_witness:
  "\<exists>s m. receive sample_host [(True, Inr [1, 0]), (True, Inr (36 # sample_Mo_wire @ [7]))]
      (session_start session_new) = Some (s, [RxMessage m, RxError ''unexpected 1 bytes received'']) \<and>
    MoMessage_imei m = Some sample_imei \<and> MoMessage_payload m = Some [104, 105]"
proof -
  let ?es = "[IEMoHeader sample_MoHeader, IEMoPayload sample_MoPayload]"
  have len: "length sample_Mo_wire = 36"
    using sample_bodies by (simp add: sample_Mo_wire_def del: el_body.simps)
  have one: "show_nat (Suc 0) = ''1''" by code_simp
  have "\<exists>s m. receive sample_host (map (\<lambda>(a, c). (a, Inr c)) [(True, [1, 0])] @
        (True, Inr (36 # sample_Mo_wire @ [7])) # []) (session_start session_new)
      = Some (s, RxMessage m # (if [7 :: byte] = [] then []
          else [RxError (''unexpected '' @ show_nat (length [7 :: byte]) @ '' bytes received'')])) \<and>
    MoMessage_imei m = c_str (m_imei_mo (m_content sample_MoHeader)) \<and>
    MoMessage_payload m = Some (m_payload_mo (m_content sample_MoPayload))"
    by (rule message_received_once [OF _ _ _ _ sample_Mo_wire_def])
      (simp_all add: sample_Mo_good sample_ids len be16_def IsMoElem_def
        id_defs del: el_good.simps getId.simps el_body.simps)
  then show ?thesis
    by (simp add: one sample_imei_c_str sample_MoHeader_def sample_MoPayload_def new_ie_def
        del: receive.simps)
qed

text \<open>C26 (equivalence). TCP may cut the stream anywhere: two ways of cutting the same announced bytes,
  valid message or not, give the same events, provided the announced length is not zero and no
  segment follows the one that completes it.\<close>

theorem segmentation_independent:
  assumes "n \<noteq> 0" and "length body = unat n"
    and "concat (map snd cs) @ c = 1 # be16 n @ body @ rest" and "length (concat (map snd cs)) < 3 + unat n"
    and "concat (map snd ds) @ d = 1 # be16 n @ body @ rest" and "length (concat (map snd ds)) < 3 + unat n"
  shows "map_option snd (receive h (map (\<lambda>(a, c). (a, Inr c)) cs @ [(alive, Inr c)]) (session_start session_new))
    = map_option snd (receive h (map (\<lambda>(a, c). (a, Inr c)) ds @ [(alive, Inr d)]) (session_start session_new))"
  using receive_complete [OF assms(1,2,3,4), of h alive "[]"]
    receive_complete [OF assms(1,2,5,6), of h alive "[]"] by simp

theorem segmentation_independent_witness:
  "map_option snd (receive sample_host [(True, Inr [1, 0, 1, 9])] (session_start session_new))
   = map_option snd (receive sample_host [(True, Inr [1]), (True, Inr [0, 1]), (True, Inr [9])]
       (session_start session_new))"
  using segmentation_independent [of 1 "[9]" "[]" "[1, 0, 1, 9]" "[]" "[(True, [1]), (True, [0, 1])]" "[9]"
      sample_host True]
  by (simp add: be16_def)

lemma process_message_shape:
  "process_message h alive s = Some (s', evs) \<Longrightarrow> reading s = None \<Longrightarrow> reading s' = None \<and>
     (evs = [] \<or> (\<exists>e. evs = [RxError e]) \<or> (\<exists>m. evs = [RxMessage m]) \<or> (\<exists>m e. evs = [RxMessage m, RxError e]))"
  by (auto simp: process_message_def Let_def report_def split: bind_splits if_splits sum.splits)

lemma after_header_shape:
  "after_header h alive s = Some (s', evs) \<Longrightarrow> reading s = None \<Longrightarrow>
     (evs = [] \<or> reading s' = None) \<and>
     (evs = [] \<or> (\<exists>e. evs = [RxError e]) \<or> (\<exists>m. evs = [RxMessage m]) \<or> (\<exists>m e. evs = [RxMessage m, RxError e]))"
  by (auto simp: after_header_def dest: process_message_shape split: if_splits)

lemma onRead_shape:
  assumes "onRead h alive r s = Some (s', evs)"
  shows "(evs = [] \<or> reading s' = None) \<and>
    (evs = [] \<or> (\<exists>e. evs = [RxError e]) \<or> (\<exists>m. evs = [RxMessage m]) \<or> (\<exists>m e. evs = [RxMessage m, RxError e]))"
proof (cases r)
  case (Inl msg)
  with assms show ?thesis by (cases alive) (auto simp: report_def)
next
  case (Inr bs)
  with assms show ?thesis
    by (auto simp: Let_def report_def dest: after_header_shape split: if_splits bind_splits prod.splits)
qed

text \<open>Whatever arrives, a session emits at most one message and at most one error, an
  error after a message only to report extra bytes; with its first event it ends.\<close>

lemma session_events:
  assumes "receive h rs s = Some (s', evs)"
  shows "evs = [] \<or> reading s' = None \<and>
    ((\<exists>e. evs = [RxError e]) \<or> (\<exists>m. evs = [RxMessage m]) \<or> (\<exists>m e. evs = [RxMessage m, RxError e]))"
  using assms
proof (induction rs arbitrary: s evs)
  case Nil
  then show ?case by simp
next
  case (Cons r rs)
  obtain a x where r: "r = (a, x)" by fastforce
  show ?case
  proof (cases "reading s")
    case None
    with Cons.prems r show ?thesis by simp
  next
    case (Some n)
    with Cons.prems r obtain s1 e1 e2 where s1: "onRead h a x s = Some (s1, e1)"
        and s2: "receive h rs s1 = Some (s', e2)" and evs: "evs = e1 @ e2"
      by (auto split: bind_splits)
    from onRead_shape [OF s1] show ?thesis
    proof (cases "e1 = []")
      case True
      with Cons.IH [OF s2] evs show ?thesis by simp
    next
      case False
      with onRead_shape [OF s1] have "reading s1 = None" by simp
      with receive_gone [of s1 h rs] s2 have "e2 = []" "s' = s1" by simp_all
      with onRead_shape [OF s1] evs False show ?thesis by simp
    qed
  qed
qed

text \<open>A header that announces no bytes is dropped, and what follows it in the same
  segment is not looked at before more data arrives: the same stream gives the message when it is cut
  behind the empty frame and leaves the session waiting when it is not.\<close>

theorem empty_frame_hides_message:
  assumes "n \<noteq> 0" and "length body = unat n"
  shows "(\<exists>s. receive h [(True, Inr ([1, 0, 0] @ 1 # be16 n @ body))] (session_start session_new)
        = Some (s, []) \<and> reading s \<noteq> None) \<and>
    map_option snd (receive h [(True, Inr [1, 0, 0]), (True, Inr (1 # be16 n @ body))]
        (session_start session_new)) = message_events h body 0"
proof -
  have hdr: "take_header h ([1, 0, 0] @ rest) = Some (1, 0, rest)" for rest
    using take_header_wire [of h 0 rest] by (simp add: SbdProtoNumber_def be16_def)
  have first: "onRead h True (Inr ([1, 0, 0] @ rest)) (session_start session_new) =
      Some (\<lparr>m_inBuf = rest, m_messageLength = 0, reading = Some (unat MoMessage_MaxMessageSize)\<rparr>, [])" for rest
    using hdr [of rest]
    by (simp add: session_start_def session_new_def Let_def MessageHeader_size_def uint_SbdProtoNumber
        after_header_def)
  let ?s = "\<lparr>m_inBuf = [], m_messageLength = 0, reading = Some (unat MoMessage_MaxMessageSize)\<rparr> :: session"
  let ?p = "?s\<lparr>reading := None, m_inBuf := drop 3 ([] @ 1 # be16 n @ body), m_messageLength := n\<rparr>"
  have r: "receiving n [] ?s" by (simp add: receiving_def)
  have l: "3 + unat n \<le> length ([] @ 1 # be16 n @ body)" using assms(2) by (simp add: be16_def)
  have on: "onRead h True (Inr (1 # be16 n @ body)) ?s = process_message h True ?p"
    using onRead_receiving [OF r assms(1), of "1 # be16 n @ body" "[]" body h True] l
    by (simp add: Let_def del: onRead.simps)
  have ev: "map_option (\<lambda>(s', evs). (reading s', evs)) (process_message h True ?p) =
      map_option (\<lambda>evs. (None, report True evs)) (message_events h body (length ([] :: byte list)))"
    by (rule process_message_events) (simp_all add: be16_def assms(2))
  have "receive h [(True, Inr [1, 0, 0]), (True, Inr (1 # be16 n @ body))] (session_start session_new) =
      receive h [(True, Inr (1 # be16 n @ body))] ?s"
    using first [of "[]"] by (simp add: session_start_def del: onRead.simps split: bind_split)
  also have "map_option snd \<dots> = message_events h body 0"
    using on ev by (cases "process_message h True ?p"; cases "message_events h body 0")
      (auto simp: report_def simp del: onRead.simps)
  finally show ?thesis
    using first [of "1 # be16 n @ body"] by (simp add: session_start_def del: onRead.simps)
qed

theorem empty_frame_hides_message_witness:
  "map_option snd (receive sample_host [(True, Inr [1, 0, 0]), (True, Inr [1, 0, 1, 9])]
     (session_start session_new)) = message_events sample_host [9] 0 \<and>
   (\<exists>s. receive sample_host [(True, Inr [1, 0, 0, 1, 0, 1, 9])] (session_start session_new) = Some (s, []))"
  using empty_frame_hides_message [of 1 "[9]" sample_host] by (auto simp: be16_def)

text \<open>A gateway, or whoever connects to the port, makes the receiver read beyond the received
  string with every message of well-formed elements that ends with a location element: it is taken for
  a mobile originated message and parsed into undefined behaviour, however it is segmented.\<close>

theorem location_message_is_undefined:
  assumes "\<forall>e \<in> set es. el_good e \<and> typed e" and "list_all IsMoElem (map getId es)" and "length loc = 11"
    and "w = wire_elements es @ framed eMoLocationInfo loc" and "length w < 65536"
    and "concat (map snd cs) @ c = 1 # be16 (of_nat (length w)) @ w" and "length (concat (map snd cs)) < 3 + length w"
  shows "receive h (map (\<lambda>(a, c). (a, Inr c)) cs @ [(alive, Inr c)]) (session_start session_new) = None"
proof -
  have "1 \<le> length w" using assms(3) by (simp add: assms(4))
  then have "w \<noteq> []" by auto
  note n = length_wire_u16 [OF this assms(5)]
  have "message_events h w 0 = None"
    using location_last_parse [OF assms(1-5), of h MoMessage_init] by (simp add: message_events_def)
  with receive_complete [OF n(2) n(1) [symmetric], of cs c "[]" h alive "[]"] assms(6,7) n(1)
  show ?thesis by simp
qed

theorem location_message_is_undefined_witness:
  "receive sample_host [(True, Inr (1 # be16 14 @ framed eMoLocationInfo (replicate 11 7)))]
     (session_start session_new) = None"
  using location_message_is_undefined [of "[]" "replicate 11 7" "framed eMoLocationInfo (replicate 11 7)"
      "[]" "1 # be16 14 @ framed eMoLocationInfo (replicate 11 7)" sample_host True]
  by simp

text \<open>A session itself never uses bytes it has not received: a read handler has undefined
  behaviour only when the codec, given a complete body out of the received bytes, leaves the string
  that holds it.\<close>

theorem session_undefined_behaviour:
  assumes "onRead h alive r s = None"
  shows "\<exists>bytes pre body post. r = Inr bytes \<and> m_inBuf s @ bytes = pre @ body @ post \<and>
    (messageCategory h (body @ [0]) (length body) = None \<or>
     parse_Mo h (body @ [0]) (length body) MoMessage_init = None)"
proof (cases r)
  case (Inl msg)
  with assms show ?thesis by simp
next
  case (Inr bytes)
  have pm: "\<exists>body post. m_inBuf t = body @ post \<and> (messageCategory h (body @ [0]) (length body) = None \<or>
      parse_Mo h (body @ [0]) (length body) MoMessage_init = None)"
    if n: "after_header h alive t = None" for t
  proof -
    let ?n = "unat (m_messageLength t)"
    from n have l: "?n \<le> length (m_inBuf t)" and p: "process_message h alive t = None"
      by (auto simp: after_header_def split: if_splits)
    from p l have "messageCategory h (take ?n (m_inBuf t) @ [0]) ?n = None \<or>
        parse_Mo h (take ?n (m_inBuf t) @ [0]) ?n MoMessage_init = None"
      by (auto simp: process_message_def Let_def rd_def split: if_splits sum.splits bind_splits)
    with l show ?thesis
      by (intro exI [of _ "take ?n (m_inBuf t)"] exI [of _ "drop ?n (m_inBuf t)"]) (simp add: min_absorb2)
  qed
  show ?thesis
  proof (cases "length (m_inBuf s @ bytes) \<ge> 3 \<and> m_messageLength s = 0")
    case True
    then have th: "take_header h (m_inBuf s @ bytes) = Some (sint ((m_inBuf s @ bytes) ! 0),
        ntohs h (load h (take 2 (drop 1 (m_inBuf s @ bytes)))), drop 3 (m_inBuf s @ bytes))"
      by (intro take_header_Some) simp
    let ?t = "s\<lparr>reading := None, m_inBuf := drop 3 (m_inBuf s @ bytes),
      m_messageLength := ntohs h (load h (take 2 (drop 1 (m_inBuf s @ bytes))))\<rparr>"
    have "after_header h alive ?t = None"
      using assms Inr True th by (auto simp: Let_def MessageHeader_size_def simp del: drop_append take_append
        split: if_splits)
    from pm [OF this] obtain body post where "drop 3 (m_inBuf s @ bytes) = body @ post"
        "messageCategory h (body @ [0]) (length body) = None \<or>
         parse_Mo h (body @ [0]) (length body) MoMessage_init = None" by auto
    with Inr append_take_drop_id [of 3 "m_inBuf s @ bytes"] show ?thesis by metis
  next
    case False
    with assms Inr have "after_header h alive (s\<lparr>reading := None, m_inBuf := m_inBuf s @ bytes\<rparr>) = None"
      by (auto simp: Let_def MessageHeader_size_def split: if_splits)
    from pm [OF this] obtain body post where "m_inBuf s @ bytes = [] @ body @ post"
        "messageCategory h (body @ [0]) (length body) = None \<or>
         parse_Mo h (body @ [0]) (length body) MoMessage_init = None" by auto
    with Inr show ?thesis by blast
  qed
qed

theorem session_undefined_behaviour_witness:
  "onRead sample_host True (Inr [1, 0, 1, 1]) (session_start session_new) = None \<and>
   (\<exists>pre body post. [1, 0, 1, 1] = pre @ body @ post \<and>
     (messageCategory sample_host (body @ [0]) (length body) = None \<or>
      parse_Mo sample_host (body @ [0]) (length body) MoMessage_init = None))"
proof -
  have "messageCategory sample_host [1, 0] 1 = None"
    unfolding messageCategory_def
    by (subst category_loop.simps) (simp add: rd_def next_category_def IsMoElem_def id_defs)
  moreover have "take_header sample_host [1, 0, 1, 1] = Some (1, 1, [1])"
    using take_header_wire [of sample_host 1 "[1]"] by (simp add: SbdProtoNumber_def be16_def)
  ultimately have "onRead sample_host True (Inr [1, 0, 1, 1]) (session_start session_new) = None"
    by (simp add: session_start_def session_new_def MessageHeader_size_def uint_SbdProtoNumber
        after_header_def process_message_def rd_def Let_def)
  with session_undefined_behaviour [OF this] show ?thesis
    by (auto simp: session_start_def session_new_def)
qed

section \<open>The listener\<close>

text \<open>\<open>start\<close>: it fails with the text of the first system call that fails and then leaves the
  receiver closed, idle and ready for another \<open>start\<close>; it succeeds exactly when none fails, and on an
  open receiver it does nothing.\<close>

theorem start_outcome:
  "rx_start a b c r =
     (if acceptor_open r then (Inr (), r)
      else case (a, b, c) of
        (None, None, None) \<Rightarrow> (Inr (), r\<lparr>acceptor_open := True, rx_sentinel := True, accepts := accepts r + 1\<rparr>)
      | (Some msg, _, _) \<Rightarrow> (Inl msg, r)
      | (None, Some msg, _) \<Rightarrow> (Inl msg, r)
      | (None, None, Some msg) \<Rightarrow> (Inl msg, r))"
proof -
  have "\<not> acceptor_open r \<Longrightarrow> r\<lparr>acceptor_open := False\<rparr> = r" by (cases r) simp
  then show ?thesis
    by (auto simp: rx_start_def doAccept_def Let_def split: option.splits)
qed

fun serving :: "rx_input \<Rightarrow> bool" where
  "serving (RxStop w e) = False"
| "serving RxDestroy = False"
| "serving _ = True"

fun is_accepted :: "rx_input \<Rightarrow> bool" where
  "is_accepted (Accept AcceptOk) = True"
| "is_accepted _ = False"

text \<open>C37 (invariant). While the receiver is neither stopped nor destroyed, exactly one accept is
  outstanding as soon as it is open, after failed accepts too, every accepted connection has its own
  session, and no step has undefined behaviour except in the codec of a session.\<close>

theorem one_accept_outstanding:
  assumes "rx_run h SbdReceiver_Factory ins r" and "\<forall>i \<in> set ins. serving i"
  shows "accepts r = (if acceptor_open r then 1 else 0) \<and> cancelled_accepts r = 0 \<and>
    (rx_sentinel r \<longleftrightarrow> acceptor_open r) \<and> length (sessions r) = length (filter is_accepted ins) \<and>
    (\<forall>res. \<not> rx_step h r (Accept res) None)"
proof -
  have "exists r \<and> accepts r = (if acceptor_open r then 1 else 0) \<and> cancelled_accepts r = 0 \<and>
    (rx_sentinel r \<longleftrightarrow> acceptor_open r) \<and> length (sessions r) = length (filter is_accepted ins)"
    using assms
  proof (induction rule: rx_run.induct)
    case nil
    then show ?case by (simp add: SbdReceiver_Factory_def)
  next
    case (snoc ins r i r')
    then have I: "exists r" "accepts r = (if acceptor_open r then 1 else 0)" "cancelled_accepts r = 0"
      "rx_sentinel r \<longleftrightarrow> acceptor_open r" "length (sessions r) = length (filter is_accepted ins)"
      and i: "serving i" by auto
    from snoc.hyps(2) show ?case
    proof cases
      case (start a b c)
      with I rx_start_cases [of a b c r] show ?thesis by (auto simp: doAccept_def)
    next
      case (accept res)
      with I show ?thesis
        by (cases res) (auto simp: on_accept_def doAccept_def split: if_splits)
    next
      case (read k n res)
      with I show ?thesis by (auto simp: on_session_read_def split: bind_splits)
    qed (use I i in auto)
  qed
  then show ?thesis
    by (auto simp: on_accept_def elim!: rx_step_AcceptE split: accepted.splits)
qed

lemma listening_run:
  "rx_run h SbdReceiver_Factory [RxStart None None None]
     (SbdReceiver_Factory\<lparr>acceptor_open := True, rx_sentinel := True, accepts := 1\<rparr>)"
  using rx_run.snoc [OF rx_run.nil rx_step.start [of SbdReceiver_Factory h None None None]]
  by (simp add: rx_start_def doAccept_def SbdReceiver_Factory_def)

theorem one_accept_outstanding_witness:
  "accepts (SbdReceiver_Factory\<lparr>acceptor_open := True, rx_sentinel := True, accepts := 1\<rparr>) = 1 \<and>
   \<not> rx_step sample_host (SbdReceiver_Factory\<lparr>acceptor_open := True, rx_sentinel := True, accepts := 1\<rparr>)
     (Accept AcceptOk) None"
  using one_accept_outstanding [OF listening_run [of sample_host]] by simp

text \<open>\<open>stop\<close> does not always stop: if a connection was accepted just before, so that its
  handler is already queued, the handler starts another accept on the closed acceptor; from then on
  every completion starts the next one, and the io service never runs out of work, until the receiver
  is started again or destroyed.\<close>

theorem accept_loop_after_stop:
  "\<exists>r. rx_run h SbdReceiver_Factory [RxStart None None None, RxStop w None, Accept AcceptOk] r \<and>
    \<not> acceptor_open r \<and> \<not> rx_sentinel r \<and>
    (\<forall>ins r'. rx_run h r ins r' \<and> (\<forall>i \<in> set ins. (\<exists>w e. i = RxStop w e) \<or> (\<exists>res. i = Accept res) \<or> (\<exists>k res. i = SessionRead k res))
       \<longrightarrow> accepts r' = 1 \<and> \<not> acceptor_open r')"
proof -
  let ?r1 = "SbdReceiver_Factory\<lparr>acceptor_open := True, rx_sentinel := True, accepts := 1\<rparr>"
  let ?r2 = "SbdReceiver_Factory\<lparr>cancelled_accepts := 1\<rparr>"
  let ?r3 = "SbdReceiver_Factory\<lparr>accepts := 1, sessions := [session_start session_new]\<rparr>"
  have "rx_step h ?r1 (RxStop w None) (Some ?r2)"
    using rx_step.stop [of ?r1 h w None] by (simp add: rx_stop_snd SbdReceiver_Factory_def)
  from rx_run.snoc [OF listening_run this]
  have r2: "rx_run h SbdReceiver_Factory [RxStart None None None, RxStop w None] ?r2" by simp
  have "rx_step h ?r2 (Accept AcceptOk) (Some ?r3)"
    using rx_step.accept_cancelled [of ?r2 h AcceptOk]
    by (simp add: on_accept_def doAccept_def SbdReceiver_Factory_def)
  from rx_run.snoc [OF r2 this]
  have r3: "rx_run h SbdReceiver_Factory [RxStart None None None, RxStop w None, Accept AcceptOk] ?r3" by simp
  have keep: "exists r' \<and> accepts r' = 1 \<and> cancelled_accepts r' = 0 \<and> \<not> acceptor_open r'"
    if "rx_run h ?r3 ins r'"
      and "\<forall>i \<in> set ins. (\<exists>w e. i = RxStop w e) \<or> (\<exists>res. i = Accept res) \<or> (\<exists>k res. i = SessionRead k res)"
    for ins r'
  proof (rule rx_run_invariant [OF that(1) _ that(2)])
    show "exists ?r3 \<and> accepts ?r3 = 1 \<and> cancelled_accepts ?r3 = 0 \<and> \<not> acceptor_open ?r3"
      by (simp add: SbdReceiver_Factory_def)
  next
    fix r i r'
    assume I: "exists r \<and> accepts r = 1 \<and> cancelled_accepts r = 0 \<and> \<not> acceptor_open r"
      and i: "(\<exists>w e. i = RxStop w e) \<or> (\<exists>res. i = Accept res) \<or> (\<exists>k res. i = SessionRead k res)"
      and st: "rx_step h r i (Some r')"
    from st show "exists r' \<and> accepts r' = 1 \<and> cancelled_accepts r' = 0 \<and> \<not> acceptor_open r'"
    proof cases
      case (stop w e)
      with I show ?thesis by (simp add: rx_stop_snd)
    next
      case (accept res)
      with I show ?thesis by (cases res) (auto simp: on_accept_def doAccept_def)
    next
      case (read k n res)
      with I show ?thesis by (auto simp: on_session_read_def split: bind_splits)
    qed (use I i in auto)
  qed
  show ?thesis
    by (rule exI [of _ ?r3]) (use r3 keep in \<open>auto simp: SbdReceiver_Factory_def\<close>)
qed

theorem accept_loop_after_stop_witness:
  "\<exists>r. rx_run sample_host SbdReceiver_Factory [RxStart None None None, RxStop True None, Accept AcceptOk] r \<and>
     \<not> acceptor_open r \<and> accepts r = 1"
proof -
  from accept_loop_after_stop [of sample_host True] obtain r
    where r: "rx_run sample_host SbdReceiver_Factory [RxStart None None None, RxStop True None, Accept AcceptOk] r"
      "\<not> acceptor_open r" and all: "\<forall>ins r'. rx_run sample_host r ins r' \<and> (\<forall>i \<in> set ins.
        (\<exists>w e. i = RxStop w e) \<or> (\<exists>res. i = Accept res) \<or> (\<exists>k res. i = SessionRead k res))
       \<longrightarrow> accepts r' = 1 \<and> \<not> acceptor_open r'" by blast
  from all have "accepts r = 1" using rx_run.nil [of sample_host r] by (metis empty_iff list.set(1))
  with r show ?thesis by blast
qed

text \<open>Destroying the receiver while an accepted connection waits for its handler is undefined
  behaviour: the handler keeps a bare pointer to the receiver.\<close>

theorem destroyed_while_accepting:
  "\<exists>r. rx_run h SbdReceiver_Factory [RxStart None None None, RxDestroy] r \<and> rx_step h r (Accept AcceptOk) None \<and>
     (\<exists>r'. rx_step h r (Accept AcceptAborted) (Some r'))"
proof -
  let ?r1 = "SbdReceiver_Factory\<lparr>acceptor_open := True, rx_sentinel := True, accepts := 1\<rparr>"
  let ?r2 = "SbdReceiver_Factory\<lparr>cancelled_accepts := 1, exists := False\<rparr>"
  have "rx_step h ?r1 RxDestroy (Some ?r2)"
    using rx_step.destroy [of ?r1 h] by (simp add: rx_destroy_def rx_stop_snd SbdReceiver_Factory_def)
  from rx_run.snoc [OF listening_run this]
  have "rx_run h SbdReceiver_Factory [RxStart None None None, RxDestroy] ?r2" by simp
  moreover have "rx_step h ?r2 (Accept AcceptOk) None" "rx_step h ?r2 (Accept AcceptAborted)
      (Some (?r2\<lparr>cancelled_accepts := 0\<rparr>))"
    using rx_step.accept_cancelled [of ?r2 h AcceptOk] rx_step.accept_cancelled [of ?r2 h AcceptAborted]
    by (simp_all add: on_accept_def)
  ultimately show ?thesis by blast
qed

end
