(* ===== verification/ReceiverCompose.thy ===== *)
theory ReceiverCompose
  imports ReceiverProps
begin

text \<open>
  The receiver and its sessions together. A run of the receiver interleaves the reads of all its
  sessions with the accepts and the public calls; the lemmas project it to one session and show that
  the session sees just the reads of its own connection, so that what is proved of a sequence of reads
  holds of every connection, however many there are.
\<close>

section \<open>The projection to one session\<close>

text \<open>The results of the reads of session \<open>k\<close>, each with whether the receiver still exists.\<close>

fun reads_of :: "nat \<Rightarrow> bool \<Rightarrow> rx_input list \<Rightarrow> (bool \<times> (string + byte list)) list" where
  "reads_of k alive [] = []"
| "reads_of k alive (RxDestroy # ins) = reads_of k False ins"
| "reads_of k alive (SessionRead j res # ins) =
    (if j = k then [(alive, res)] else []) @ reads_of k alive ins"
| "reads_of k alive (i # ins) = reads_of k alive ins"

lemma reads_of_append:
  "reads_of k a (ins @ ins') = reads_of k a ins @ reads_of k (a \<and> RxDestroy \<notin> set ins) ins'"
  by (induction k a ins rule: reads_of.induct) auto

lemma reads_of_other: "(\<And>res. i \<noteq> SessionRead k res) \<Longrightarrow> reads_of k a [i] = []"
  by (cases i) auto

text \<open>The events of session \<open>k\<close> in a list of events with their sessions.\<close>

definition events_of :: "nat \<Rightarrow> (nat \<times> rx_event) list \<Rightarrow> rx_event list" where
  "events_of k evs = map snd (filter (\<lambda>e. fst e = k) evs)"

lemma events_of_append [simp]: "events_of k (xs @ ys) = events_of k xs @ events_of k ys"
  by (simp add: events_of_def)

lemma events_of_tagged [simp]: "events_of k (map (Pair j) evs) = (if j = k then evs else [])"
  by (simp add: events_of_def comp_def)

lemma events_of_Nil [simp]: "events_of k [] = []"
  by (simp add: events_of_def)

section \<open>The invariant\<close>

text \<open>The events emitted so far split into the events of the sessions, and every session is what its own
  reads make of a new one.\<close>

definition apart :: "host \<Rightarrow> rx_input list \<Rightarrow> receiver \<Rightarrow> (nat \<times> rx_event) list \<Rightarrow> bool" where
  "apart h ins r evs \<longleftrightarrow> map snd evs = emitted r \<and> (exists r \<longleftrightarrow> RxDestroy \<notin> set ins) \<and>
     fst ` set evs \<subseteq> {..<length (sessions r)} \<and>
     (\<forall>k < length (sessions r). receive h (reads_of k True ins) (session_start session_new) =
        Some (sessions r ! k, events_of k evs)) \<and>
     (\<forall>k. length (sessions r) \<le> k \<longrightarrow> reads_of k True ins = [])"

lemma events_of_fresh: "fst ` set evs \<subseteq> {..<n} \<Longrightarrow> n \<le> k \<Longrightarrow> events_of k evs = []"
  by (auto simp: events_of_def filter_empty_conv)

lemma on_accept_sessions:
  "on_accept res r = Some r' \<Longrightarrow> emitted r' = emitted r \<and> exists r' = exists r \<and>
     (sessions r' = sessions r \<or> sessions r' = sessions r @ [session_start session_new])"
  by (auto simp: on_accept_def doAccept_def split: accepted.splits if_splits)

lemma apart_control:
  assumes "apart h ins r evs" and "\<And>k a. reads_of k a [i] = []" and "emitted r' = emitted r"
    and "sessions r' = sessions r \<or> sessions r' = sessions r @ [session_start session_new]"
    and "exists r' \<longleftrightarrow> exists r \<and> i \<noteq> RxDestroy"
  shows "apart h (ins @ [i]) r' evs"
proof -
  have reads: "reads_of k True (ins @ [i]) = reads_of k True ins" for k
    by (simp add: reads_of_append assms(2))
  from assms(4) show ?thesis
  proof
    assume "sessions r' = sessions r"
    with assms reads show ?thesis by (auto simp: apart_def)
  next
    assume s: "sessions r' = sessions r @ [session_start session_new]"
    have "receive h (reads_of (length (sessions r)) True ins) (session_start session_new) =
        Some (session_start session_new, events_of (length (sessions r)) evs)"
      using assms(1) events_of_fresh [of evs "length (sessions r)" "length (sessions r)"]
      by (simp add: apart_def)
    with assms(1,3,5) reads s show ?thesis
      by (auto simp: apart_def nth_append less_Suc_eq)
  qed
qed

lemma apart_read:
  assumes I: "apart h ins r evs" and k: "k < length (sessions r)" and n: "reading (sessions r ! k) = Some n"
    and on: "onRead h (exists r) res (sessions r ! k) = Some (s', e)"
  shows "apart h (ins @ [SessionRead k res])
    (r\<lparr>sessions := (sessions r)[k := s'], emitted := emitted r @ e\<rparr>) (evs @ map (Pair k) e)"
proof -
  have reads: "reads_of j True (ins @ [SessionRead k res]) =
      reads_of j True ins @ (if k = j then [(exists r, res)] else [])" for j
    using I by (simp add: reads_of_append apart_def)
  have "receive h (reads_of k True (ins @ [SessionRead k res])) (session_start session_new) =
      Some (s', events_of k evs @ e)"
    using I k n on by (simp add: reads receive_append apart_def)
  with I k reads show ?thesis
    by (auto simp: apart_def nth_list_update comp_def)
qed

lemma apart_run:
  assumes "rx_run h SbdReceiver_Factory ins r"
  shows "\<exists>evs. apart h ins r evs"
  using assms
proof (induction rule: rx_run.induct)
  case nil
  show ?case by (rule exI [of _ "[]"]) (simp add: apart_def SbdReceiver_Factory_def)
next
  case (snoc ins r i r'')
  then obtain evs where I: "apart h ins r evs" by blast
  from snoc.hyps(2) show ?case
  proof cases
    case (start a b c)
    with I rx_start_cases [of a b c r] have "apart h (ins @ [i]) r'' evs"
      by (intro apart_control [OF I]) (auto simp: doAccept_def)
    then show ?thesis by blast
  next
    case (stop w e)
    with I have "apart h (ins @ [i]) r'' evs"
      by (intro apart_control [OF I]) (auto simp: rx_stop_snd)
    then show ?thesis by blast
  next
    case destroy
    with I have "apart h (ins @ [i]) r'' evs"
      by (intro apart_control [OF I]) (auto simp: rx_stop_snd rx_destroy_def)
    then show ?thesis by blast
  next
    case (accept res)
    with on_accept_sessions [of res "r\<lparr>accepts := accepts r - 1\<rparr>" r''] have "apart h (ins @ [i]) r'' evs"
      by (intro apart_control [OF I]) auto
    then show ?thesis by blast
  next
    case (accept_cancelled res)
    with on_accept_sessions [of res "r\<lparr>cancelled_accepts := cancelled_accepts r - 1\<rparr>" r'']
    have "apart h (ins @ [i]) r'' evs"
      by (intro apart_control [OF I]) auto
    then show ?thesis by blast
  next
    case (read k n res)
    then obtain s' e where "onRead h (exists r) res (sessions r ! k) = Some (s', e)"
        "r'' = r\<lparr>sessions := (sessions r)[k := s'], emitted := emitted r @ e\<rparr>"
      by (auto simp: on_session_read_def split: bind_splits)
    with apart_read [OF I read(3,4)] read(1) show ?thesis by blast
  qed
qed

section \<open>Properties\<close>

text \<open>C3 (refinement). Connections do not interfere: in a run of the receiver, however its accepts, reads,
  public calls and its destruction interleave, the events it emits are an interleaving of what every
  session makes of the reads of its own connection alone; and a read has undefined behaviour only when
  it has with that session alone.\<close>

theorem sessions_do_not_interfere:
  assumes "rx_run h SbdReceiver_Factory ins r"
  shows "\<exists>evs. map snd evs = emitted r \<and> fst ` set evs \<subseteq> {..<length (sessions r)} \<and>
    (\<forall>k < length (sessions r). receive h (reads_of k True ins) (session_start session_new) =
       Some (sessions r ! k, events_of k evs)) \<and>
    (\<forall>k res. rx_step h r (SessionRead k res) None \<longrightarrow>
       receive h (reads_of k True ins @ [(exists r, res)]) (session_start session_new) = None)"
proof -
  from apart_run [OF assms] obtain evs where I: "apart h ins r evs" by blast
  have "receive h (reads_of k True ins @ [(exists r, res)]) (session_start session_new) = None"
    if "rx_step h r (SessionRead k res) None" for k res
    using that I by (auto elim!: rx_step_SessionReadE simp: on_session_read_def receive_append apart_def
        split: bind_splits)
  with I show ?thesis unfolding apart_def by blast
qed

lemma two_connections:
  "rx_run h SbdReceiver_Factory [RxStart None None None, Accept AcceptOk, Accept AcceptOk]
     (SbdReceiver_Factory\<lparr>acceptor_open := True, rx_sentinel := True, accepts := 1,
        sessions := [session_start session_new, session_start session_new]\<rparr>)"
proof -
  let ?r = "SbdReceiver_Factory\<lparr>acceptor_open := True, rx_sentinel := True, accepts := 1\<rparr>"
  have "rx_step h ?r (Accept AcceptOk) (Some (?r\<lparr>sessions := [session_start session_new]\<rparr>))"
    using rx_step.accept [of ?r AcceptOk h] by (simp add: on_accept_def doAccept_def SbdReceiver_Factory_def)
  moreover have "rx_step h (?r\<lparr>sessions := [session_start session_new]\<rparr>) (Accept AcceptOk)
      (Some (?r\<lparr>sessions := [session_start session_new, session_start session_new]\<rparr>))"
    using rx_step.accept [of "?r\<lparr>sessions := [session_start session_new]\<rparr>" AcceptOk h]
    by (simp add: on_accept_def doAccept_def SbdReceiver_Factory_def)
  ultimately show ?thesis
    using rx_run.snoc [OF rx_run.snoc [OF listening_run]] by fastforce
qed

lemma two_connections_read:
  assumes "onRead h True res (session_start session_new) = Some (s, evs)" and "k < 2"
    and "case res of Inl msg \<Rightarrow> True | Inr bs \<Rightarrow> bs \<noteq> [] \<and> length bs \<le> unat MoMessage_MaxMessageSize + 3"
  shows "\<exists>r. rx_run h SbdReceiver_Factory
      [RxStart None None None, Accept AcceptOk, Accept AcceptOk, SessionRead k res] r \<and>
    length (sessions r) = 2 \<and> emitted r = evs"
proof -
  let ?r = "SbdReceiver_Factory\<lparr>acceptor_open := True, rx_sentinel := True, accepts := 1,
        sessions := [session_start session_new, session_start session_new]\<rparr>"
  have k: "sessions ?r ! k = session_start session_new" using assms(2) by (simp add: nth_Cons')
  have e: "exists ?r" by (simp add: SbdReceiver_Factory_def)
  have "rx_step h ?r (SessionRead k res) (on_session_read h k res ?r)"
    by (rule rx_step.read [of _ _ "unat MoMessage_MaxMessageSize + 3"])
      (use k assms(2,3) in \<open>simp_all add: session_start_def MessageHeader_size_def\<close>)
  moreover have "on_session_read h k res ?r =
      Some (?r\<lparr>sessions := (sessions ?r)[k := s], emitted := emitted ?r @ evs\<rparr>)"
    using assms(1) unfolding on_session_read_def k by (simp add: SbdReceiver_Factory_def)
  ultimately have "rx_run h SbdReceiver_Factory
      ([RxStart None None None, Accept AcceptOk, Accept AcceptOk] @ [SessionRead k res])
      (?r\<lparr>sessions := (sessions ?r)[k := s], emitted := emitted ?r @ evs\<rparr>)"
    using rx_run.snoc [OF two_connections] by metis
  then show ?thesis by (intro exI) (auto simp: SbdReceiver_Factory_def split: nat.split)
qed

theorem sessions_do_not_interfere_witness:
  "\<exists>r evs. rx_run sample_host SbdReceiver_Factory
      [RxStart None None None, Accept AcceptOk, Accept AcceptOk, SessionRead 1 (Inl ''End of file'')] r \<and>
    emitted r = [RxError ''End of file''] \<and> map snd evs = emitted r \<and>
    receive sample_host [] (session_start session_new) = Some (sessions r ! 0, events_of 0 evs) \<and>
    receive sample_host [(True, Inl ''End of file'')] (session_start session_new) = Some (sessions r ! 1, events_of 1 evs)"
proof -
  obtain r where r: "rx_run sample_host SbdReceiver_Factory
      [RxStart None None None, Accept AcceptOk, Accept AcceptOk, SessionRead 1 (Inl ''End of file'')] r"
      "length (sessions r) = 2" "emitted r = [RxError ''End of file'']"
    using two_connections_read [of sample_host "Inl ''End of file''" _ _ 1] by (auto simp: report_def)
  obtain evs where e: "map snd evs = emitted r"
      and k: "\<forall>k < 2. receive sample_host (reads_of k True [RxStart None None None, Accept AcceptOk, Accept AcceptOk,
        SessionRead 1 (Inl ''End of file'')]) (session_start session_new) = Some (sessions r ! k, events_of k evs)"
    using sessions_do_not_interfere [OF r(1)] r(2) by auto
  from k [rule_format, of 0] k [rule_format, of 1] e r show ?thesis
    by (intro exI [of _ r] exI [of _ evs]) (simp del: receive.simps)
qed

text \<open>A connection over which the elements of a mobile originated message came, framed and in any
  segments.\<close>

lemma apart_message:
  assumes I: "apart h ins r evs" and "k < length (sessions r)"
    and "\<forall>e \<in> set es. el_good e \<and> typed e" and "list_all IsMoElem (map getId es)"
    and "find (\<lambda>e. getId e = eMoHeader) es = Some (IEMoHeader x)"
    and "find (\<lambda>e. getId e = eMoPayload) es = Some (IEMoPayload y)"
    and "w = wire_elements es" and "length w < 65536"
    and "reads_of k True ins = map (\<lambda>c. (True, Inr c)) (cs @ [c])"
    and "concat cs @ c = 1 # be16 (of_nat (length w)) @ w" and "length (concat cs) < 3 + length w"
  shows "\<exists>m. events_of k evs = [RxMessage m] \<and>
    MoMessage_imei m = c_str (m_imei_mo (m_content x)) \<and> MoMessage_payload m = Some (m_payload_mo (m_content y))"
proof -
  obtain m where ne: "w \<noteq> []" and m: "message_events h w 0 = Some [RxMessage m]"
      "MoMessage_imei m = c_str (m_imei_mo (m_content x))"
      "MoMessage_payload m = Some (m_payload_mo (m_content y))"
    using message_events_wire [OF assms(3-8), of h "[]"] by auto
  note n = length_wire_u16 [OF ne assms(8)]
  have "map_option snd (receive h (reads_of k True ins) (session_start session_new)) = Some [RxMessage m]"
    using receive_complete [OF n(2) n(1) [symmetric], of "map (Pair True) cs" c "[]" h True "[]"]
      assms(9-11) n(1) m(1) by (simp add: report_def comp_def)
  then have "events_of k evs = [RxMessage m]"
    using I assms(2) by (auto simp: apart_def)
  with m show ?thesis by blast
qed

text \<open>A connection of a running receiver over which such a message came had it emitted once, with the
  IMEI and the payload that were packed, whatever came over other connections before, meanwhile and
  afterwards.\<close>

theorem connection_message_emitted:
  assumes "rx_run h SbdReceiver_Factory ins r" and "k < length (sessions r)"
    and "\<forall>e \<in> set es. el_good e \<and> typed e" and "list_all IsMoElem (map getId es)"
    and "find (\<lambda>e. getId e = eMoHeader) es = Some (IEMoHeader x)"
    and "find (\<lambda>e. getId e = eMoPayload) es = Some (IEMoPayload y)"
    and "w = wire_elements es" and "length w < 65536"
    and "reads_of k True ins = map (\<lambda>c. (True, Inr c)) (cs @ [c])"
    and "concat cs @ c = 1 # be16 (of_nat (length w)) @ w" and "length (concat cs) < 3 + length w"
  shows "\<exists>evs m. map snd evs = emitted r \<and> events_of k evs = [RxMessage m] \<and>
    MoMessage_imei m = c_str (m_imei_mo (m_content x)) \<and> MoMessage_payload m = Some (m_payload_mo (m_content y))"
proof -
  from apart_run [OF assms(1)] obtain evs where I: "apart h ins r evs" by blast
  with apart_message [OF I assms(2-)] show ?thesis unfolding apart_def by blast
qed

lemma sample_Mo_elements:
  "\<forall>e \<in> set [IEMoHeader sample_MoHeader, IEMoPayload sample_MoPayload]. el_good e \<and> typed e"
  "list_all IsMoElem (map getId [IEMoHeader sample_MoHeader, IEMoPayload sample_MoPayload])"
  "find (\<lambda>e. getId e = eMoHeader) [IEMoHeader sample_MoHeader, IEMoPayload sample_MoPayload] = Some (IEMoHeader sample_MoHeader)"
  "find (\<lambda>e. getId e = eMoPayload) [IEMoHeader sample_MoHeader, IEMoPayload sample_MoPayload] = Some (IEMoPayload sample_MoPayload)"
  "length sample_Mo_wire = 36"
  using sample_bodies
  by (simp_all add: sample_Mo_good sample_ids IsMoElem_def id_defs sample_Mo_wire_def
      del: el_good.simps getId.simps el_body.simps)

lemma sample_message_read:
  "\<exists>s m. onRead sample_host True (Inr (1 # be16 36 @ sample_Mo_wire)) (session_start session_new) =
      Some (s, [RxMessage m]) \<and> MoMessage_imei m = Some sample_imei \<and> MoMessage_payload m = Some [104, 105]"
proof -
  let ?c = "1 # be16 36 @ sample_Mo_wire"
  obtain m where "message_events sample_host sample_Mo_wire 0 = Some [RxMessage m]"
      "MoMessage_imei m = Some sample_imei" "MoMessage_payload m = Some [104, 105]"
    using message_events_wire [OF sample_Mo_elements(1-4) sample_Mo_wire_def, of sample_host "[]"]
    by (auto simp: sample_Mo_elements(5) sample_imei_c_str sample_MoHeader_def sample_MoPayload_def new_ie_def)
  then show ?thesis
    using receive_complete [of 36 sample_Mo_wire "[]" ?c "[]" sample_host True "[]"]
    by (cases "onRead sample_host True (Inr ?c) (session_start session_new)")
      (auto simp: session_start_def report_def sample_Mo_elements(5) simp del: onRead.simps)
qed

theorem connection_message_emitted_witness:
  "\<exists>r evs m. rx_run sample_host SbdReceiver_Factory [RxStart None None None, Accept AcceptOk, Accept AcceptOk,
      SessionRead 1 (Inr (1 # be16 36 @ sample_Mo_wire))] r \<and>
    map snd evs = emitted r \<and> events_of 1 evs = [RxMessage m] \<and>
    MoMessage_imei m = Some sample_imei \<and> MoMessage_payload m = Some [104, 105]"
proof -
  let ?c = "1 # be16 36 @ sample_Mo_wire"
  let ?ins = "[RxStart None None None, Accept AcceptOk, Accept AcceptOk, SessionRead 1 (Inr ?c)]"
  note len = sample_Mo_elements(5)
  from sample_message_read obtain s m0
    where "onRead sample_host True (Inr ?c) (session_start session_new) = Some (s, [RxMessage m0])" by blast
  then obtain r where r: "rx_run sample_host SbdReceiver_Factory ?ins r" "length (sessions r) = 2"
    using two_connections_read [of sample_host "Inr ?c" s "[RxMessage m0]" 1] len
    by (auto simp: be16_def MoMessage_MaxMessageSize_value simp del: onRead.simps)
  have "\<exists>evs m. map snd evs = emitted r \<and> events_of 1 evs = [RxMessage m] \<and>
      MoMessage_imei m = c_str (m_imei_mo (m_content sample_MoHeader)) \<and>
      MoMessage_payload m = Some (m_payload_mo (m_content sample_MoPayload))"
    by (rule connection_message_emitted [OF r(1) _ sample_Mo_elements(1-4) sample_Mo_wire_def, of _ "[]" ?c])
      (simp_all add: r(2) len be16_def)
  with r(1) show ?thesis
    by (auto simp: sample_imei_c_str sample_MoHeader_def sample_MoPayload_def new_ie_def)
qed

section \<open>How much is emitted\<close>

fun is_message :: "rx_event \<Rightarrow> bool" where
  "is_message (RxMessage m) = True"
| "is_message (RxError e) = False"

lemma filter_tagged:
  "fst ` set evs \<subseteq> {..<n} \<Longrightarrow>
     length (filter P (map snd evs)) = (\<Sum>k<n. length (filter P (events_of k evs)))"
proof (induction evs)
  case (Cons e evs)
  then have n: "fst e < n" "fst ` set evs \<subseteq> {..<n}" by auto
  have "length (filter P (events_of k (e # evs))) =
      (if fst e = k then (if P (snd e) then 1 else 0) else 0) + length (filter P (events_of k evs))" for k
    by (simp add: events_of_def)
  with n Cons.IH show ?case by (simp add: sum.distrib)
qed simp

lemma sessions_accepted:
  "rx_run h SbdReceiver_Factory ins r \<Longrightarrow> length (sessions r) = length (filter is_accepted ins)"
proof (induction rule: rx_run.induct)
  case (snoc ins r i r')
  from snoc.hyps(2) snoc.IH show ?case
  proof cases
    case (start a b c)
    with snoc.IH rx_start_cases [of a b c r] show ?thesis by (auto simp: doAccept_def)
  next
    case (accept res)
    with snoc.IH show ?thesis
      by (cases res) (auto simp: on_accept_def doAccept_def split: if_splits)
  next
    case (accept_cancelled res)
    with snoc.IH show ?thesis
      by (cases res) (auto simp: on_accept_def doAccept_def split: if_splits)
  next
    case (read k n res)
    with snoc.IH show ?thesis by (auto simp: on_session_read_def split: bind_splits)
  qed (auto simp: rx_stop_snd rx_destroy_def)
qed (simp add: SbdReceiver_Factory_def)

text \<open>No peer can make the receiver emit more than it is entitled to: at any time, for all
  connections accepted so far, at most one message and at most one error each.\<close>

theorem emitted_bounded:
  assumes "rx_run h SbdReceiver_Factory ins r"
  shows "length (filter is_message (emitted r)) \<le> length (filter is_accepted ins) \<and>
    length (filter (\<lambda>e. \<not> is_message e) (emitted r)) \<le> length (filter is_accepted ins)"
proof -
  from apart_run [OF assms] obtain evs where I: "apart h ins r evs" by blast
  have one: "length (filter P (events_of k evs)) \<le> 1"
    if "P = is_message \<or> P = (\<lambda>e. \<not> is_message e)" "k < length (sessions r)" for P k
  proof -
    from I that(2) have "receive h (reads_of k True ins) (session_start session_new) =
        Some (sessions r ! k, events_of k evs)" by (simp add: apart_def)
    from session_events [OF this] that(1) show ?thesis by auto
  qed
  have "length (filter P (emitted r)) \<le> length (sessions r)"
    if P: "P = is_message \<or> P = (\<lambda>e. \<not> is_message e)" for P
  proof -
    have "length (filter P (emitted r)) = (\<Sum>k<length (sessions r). length (filter P (events_of k evs)))"
      using I filter_tagged [of evs "length (sessions r)" P] by (simp add: apart_def)
    also have "\<dots> \<le> (\<Sum>k<length (sessions r). 1)"
      by (rule sum_mono) (use one P in simp)
    finally show ?thesis by simp
  qed
  with sessions_accepted [OF assms] show ?thesis by simp
qed

theorem emitted_bounded_witness:
  "\<exists>r. rx_run sample_host SbdReceiver_Factory
      [RxStart None None None, Accept AcceptOk, Accept AcceptOk, SessionRead 1 (Inl ''End of file'')] r \<and>
    length (filter (\<lambda>e. \<not> is_message e) (emitted r)) = 1 \<and> length (filter is_message (emitted r)) \<le> 2"
proof -
  obtain r where r: "rx_run sample_host SbdReceiver_Factory
      [RxStart None None None, Accept AcceptOk, Accept AcceptOk, SessionRead 1 (Inl ''End of file'')] r"
      "emitted r = [RxError ''End of file'']"
    using two_connections_read [of sample_host "Inl ''End of file''" _ _ 1] by (auto simp: report_def)
  with emitted_bounded [OF r(1)] show ?thesis
    by (intro exI [of _ r]) simp
qed

end
