(* ===== verification/ModemPort.thy ===== *)
theory ModemPort
  imports Host
begin

text \<open>
  What src/Modem.cpp stands on: the serial port and Boost's conversions as parameters of the model,
  and the members of \<open>std::string\<close>, \<open>std::getline\<close> and the exceptions that it uses.

  A \<open>port\<close> gives the outcome of every operation on the device, as a function of a state of any type:
  the text of the error code, if there is one, and the next state. \<open>p_read_until\<close> is \<open>async_read_until\<close>
  under a timeout in seconds, on what the stream buffer already holds; it returns what the buffer
  holds afterwards, also when it fails. \<open>p_read\<close>, the synchronous read of a number of bytes, has no
  timeout: \<^term>\<open>None\<close> is a call that never returns.
\<close>

section \<open>Parameters\<close>

record 's port =
  p_open :: "string \<Rightarrow> 's \<Rightarrow> exc option \<times> 's"
  p_set_option :: "string \<Rightarrow> 's \<Rightarrow> exc option \<times> 's"
  p_close :: "'s \<Rightarrow> exc option \<times> 's"
  p_cancel_timer :: "'s \<Rightarrow> exc option \<times> 's"
  p_write :: "byte list \<Rightarrow> 's \<Rightarrow> exc option \<times> 's"
  p_read_until :: "byte list \<Rightarrow> nat \<Rightarrow> byte list \<Rightarrow> 's \<Rightarrow> exc option \<times> byte list \<times> 's"
  p_read :: "nat \<Rightarrow> 's \<Rightarrow> ((exc + byte list) \<times> 's) option"

text \<open>\<open>boost::lexical_cast\<close> of a range of characters to \<open>int\<close>, \<open>uint16_t\<close> and \<open>int32_t\<close>, and
  \<open>boost::numeric_cast<uint8_t>\<close> of an \<open>int\<close>; \<^term>\<open>None\<close> is the exception of that conversion.\<close>

record boost =
  lex_int :: "byte list \<Rightarrow> int option"
  lex_u16 :: "byte list \<Rightarrow> u16 option"
  lex_i32 :: "byte list \<Rightarrow> int option"
  to_u8 :: "int \<Rightarrow> u8 option"

text \<open>The documented behaviour that the parsers of replies rely on: the decimal form of a number in
  range is converted to it, and \<open>numeric_cast\<close> succeeds exactly in range.\<close>

definition decimal :: "int \<Rightarrow> byte list" where
  "decimal i = bytes_of (show_int i)"

definition boost_converts :: "boost \<Rightarrow> bool" where
  "boost_converts B \<longleftrightarrow>
     (\<forall>i. - 2147483648 \<le> i \<and> i < 2147483648 \<longrightarrow> lex_int B (decimal i) = Some i \<and> lex_i32 B (decimal i) = Some i) \<and>
     (\<forall>w. lex_u16 B (decimal (uint w)) = Some w) \<and>
     (\<forall>i. to_u8 B i = (if 0 \<le> i \<and> i < 256 then Some (word_of_int i) else None))"

section \<open>Results\<close>

datatype mexc = RuntimeError string | BadLexicalCast | BadNumericCast | SystemError string

text \<open>A call returns, throws, has undefined behaviour, or does not return.\<close>

datatype 'a result = Ret 'a | Exc mexc | Undef | NoReturn

fun bind_r :: "'a result \<Rightarrow> ('a \<Rightarrow> 'b result) \<Rightarrow> 'b result" where
  "bind_r (Ret a) f = f a"
| "bind_r (Exc e) f = Exc e"
| "bind_r Undef f = Undef"
| "bind_r NoReturn f = NoReturn"

section \<open>Strings and streams\<close>

text \<open>\<open>std::string::find\<close> of a literal, \<open>find_first_of\<close> of a character from a position on; \<^term>\<open>None\<close> is
  \<open>npos\<close>.\<close>

fun find_str :: "byte list \<Rightarrow> byte list \<Rightarrow> nat option" where
  "find_str pat [] = (if pat = [] then Some 0 else None)"
| "find_str pat (c # cs) =
     (if take (length pat) (c # cs) = pat then Some 0 else map_option Suc (find_str pat cs))"

definition find_first_of :: "byte \<Rightarrow> byte list \<Rightarrow> nat \<Rightarrow> nat option" where
  "find_first_of c line pos =
     (let rest = takeWhile (\<lambda>b. b \<noteq> c) (drop pos line) in
      if pos + length rest < length line then Some (pos + length rest) else None)"

text \<open>\<open>line[pos]\<close>: the NUL at the end may be read, nothing beyond it.\<close>

definition char_at :: "byte list \<Rightarrow> nat \<Rightarrow> byte result" where
  "char_at line pos = (if pos < length line then Ret (line ! pos) else if pos = length line then Ret 0 else Undef)"

definition or_exc :: "mexc \<Rightarrow> 'a option \<Rightarrow> 'a result" where
  "or_exc e r = (case r of None \<Rightarrow> Exc e | Some a \<Rightarrow> Ret a)"

text \<open>The conversion of the characters from \<open>pos\<close> up to the next \<open>stop\<close>, with the position of that. The
  code does not test whether there is one: with \<open>npos\<close> the count wraps around and the range leaves the
  string.\<close>

definition number_at :: "(byte list \<Rightarrow> 'a result) \<Rightarrow> byte list \<Rightarrow> nat \<Rightarrow> byte \<Rightarrow> ('a \<times> nat) result" where
  "number_at conv line pos stop = (case find_first_of stop line pos of
     None \<Rightarrow> Undef
   | Some pos2 \<Rightarrow> bind_r (conv (take (pos2 - pos) (drop pos line))) (\<lambda>v. Ret (v, pos2)))"

text \<open>\<open>try { v = ... } catch (bad_lexical_cast) { return alt; }\<close> with the code that follows. The exception
  of \<open>numeric_cast\<close> is not caught.\<close>

definition attempt :: "'a result \<Rightarrow> 'b result \<Rightarrow> ('a \<Rightarrow> 'b result) \<Rightarrow> 'b result" where
  "attempt r alt k = (if r = Exc BadLexicalCast then alt else bind_r r k)"

text \<open>An \<open>std::istream\<close> over a stream buffer: its data, and whether it has met the end. At the end
  \<open>std::getline\<close> leaves the string as it was.\<close>

type_synonym istream = "byte list \<times> bool"

definition getline :: "istream \<Rightarrow> byte list \<Rightarrow> byte list \<times> istream" where
  "getline is_state line = (case is_state of (buf, at_end) \<Rightarrow>
     if at_end then (line, (buf, True))
     else let l = takeWhile (\<lambda>b. b \<noteq> 10) buf in
       if length l < length buf then (l, (drop (Suc (length l)) buf, False)) else (l, ([], True)))"

definition second_line :: "byte list \<Rightarrow> byte list" where
  "second_line buf = (let (l, st) = getline (buf, False) [] in fst (getline st l))"

section \<open>Lemmas on strings\<close>

lemma find_str_append: "find_str pat (pat @ rest) = Some 0"
  by (cases "pat @ rest") (auto simp: append_eq_Cons_conv)

lemma takeWhile_upto: "c \<notin> set xs \<Longrightarrow> takeWhile (\<lambda>b. b \<noteq> c) (xs @ c # rest) = xs"
  by (induction xs) auto

lemma find_first_of_append:
  "c \<notin> set xs \<Longrightarrow> length pre = pos \<Longrightarrow> find_first_of c (pre @ xs @ c # rest) pos = Some (pos + length xs)"
  by (simp add: find_first_of_def Let_def takeWhile_upto)

lemma getline_split: "10 \<notin> set l \<Longrightarrow> getline (l @ 10 # rest, False) x = (l, (rest, False))"
  by (simp add: getline_def Let_def takeWhile_upto)

lemma second_line_split: "10 \<notin> set a \<Longrightarrow> 10 \<notin> set b \<Longrightarrow> second_line (a @ 10 # b @ 10 # rest) = b"
  by (simp add: second_line_def getline_split)

end
