(* ===== verification/Modem.thy ===== *)
theory Modem
  imports ModemPort
begin

text \<open>
  include/iridium/Modem.hpp and src/Modem.cpp: the AT commands of a modem on a serial port. Every
  member function is a function of the port and of Boost's conversions (both parameters, see ModemPort)
  that returns its result and the next state of the modem. Reference parameters are part of the result.
  The mutex and the thread of \<open>read_until_timeout\<close> make a synchronous call out of asynchronous ones; here it
  is an operation of the port, and ModemRead has its steps.
\<close>

section \<open>The modem\<close>

record 's modem =
  m_deviceName :: string
  m_isOpen :: bool
  m_busy :: bool
  dev :: 's

definition isBigEndian :: "host \<Rightarrow> bool" where
  "isBigEndian h \<longleftrightarrow> store h 4 (0x01020304 :: u32) ! 0 = 1"

definition Modem_new :: "string \<Rightarrow> 's \<Rightarrow> 's modem" where
  "Modem_new device s = \<lparr>m_deviceName = device, m_isOpen = False, m_busy = False, dev = s\<rparr>"

text \<open>A command line, and the end of a reply.\<close>

definition cmd_line :: "string \<Rightarrow> byte list" where
  "cmd_line s = bytes_of s @ [13]"

definition ok_line :: "byte list" where
  "ok_line = bytes_of ''OK'' @ [13, 10]"

fun set_options :: "'s port \<Rightarrow> string list \<Rightarrow> 's \<Rightarrow> exc option \<times> 's" where
  "set_options P [] s = (None, s)"
| "set_options P (opt # opts) s = (case p_set_option P opt s of
     (Some msg, s) \<Rightarrow> (Some msg, s)
   | (None, s) \<Rightarrow> set_options P opts s)"

text \<open>\<open>m_io.close()\<close> as it is called without an error code: it throws what it reports. The descriptor is
  released in any case.\<close>

definition close_port :: "'s port \<Rightarrow> 's modem \<Rightarrow> exc option \<times> 's modem" where
  "close_port P m = (case p_close P (dev m) of (ec, s) \<Rightarrow> (ec, m\<lparr>m_isOpen := False, dev := s\<rparr>))"

definition close_and_throw :: "'s port \<Rightarrow> exc \<Rightarrow> 's modem \<Rightarrow> unit result \<times> 's modem" where
  "close_and_throw P msg m = (case close_port P m of
     (Some e, m) \<Rightarrow> (Exc (SystemError e), m)
   | (None, m) \<Rightarrow> (Exc (RuntimeError msg), m))"

text \<open>The length 9 of the first command is larger than its literal, which has eight bytes with its NUL: the
  overload of \<open>buffer\<close> for arrays clips it to these eight, so that the NUL is written too.\<close>

definition Open :: "'s port \<Rightarrow> 's modem \<Rightarrow> unit result \<times> 's modem" where
  "Open P m =
     (if m_isOpen m then (Ret (), m)
      else case p_open P (m_deviceName m) (dev m) of
        (Some msg, s) \<Rightarrow> (Exc (RuntimeError msg), m\<lparr>dev := s\<rparr>)
      | (None, s) \<Rightarrow>
        (case set_options P [''baud_rate 19200'', ''character_size 8'', ''parity none'', ''stop_bits one''] s of
           (Some msg, s) \<Rightarrow> (Exc (SystemError msg), m\<lparr>m_isOpen := True, dev := s\<rparr>)
         | (None, s) \<Rightarrow>
           (case p_write P (cmd_line ''ATQ0V1'' @ [0]) s of
              (Some msg, s) \<Rightarrow> close_and_throw P msg (m\<lparr>m_isOpen := True, dev := s\<rparr>)
            | (None, s) \<Rightarrow>
              (case p_read_until P ok_line 5 [] s of
                 (Some msg, buf, s) \<Rightarrow> close_and_throw P msg (m\<lparr>m_isOpen := True, dev := s\<rparr>)
               | (None, buf, s) \<Rightarrow> (Ret (), m\<lparr>m_isOpen := True, m_busy := True, dev := s\<rparr>)))))"

definition Close :: "'s port \<Rightarrow> bool \<Rightarrow> 's modem \<Rightarrow> unit result \<times> 's modem" where
  "Close P woexcept m = (case p_cancel_timer P (dev m) of
     (Some msg, s) \<Rightarrow> (if woexcept then Ret () else Exc (SystemError msg), m\<lparr>dev := s\<rparr>)
   | (None, s) \<Rightarrow>
       let m = m\<lparr>m_busy := False, dev := s\<rparr> in
       if \<not> m_isOpen m then (Ret (), m)
       else case close_port P m of
         (Some msg, m) \<Rightarrow> (if woexcept then Ret () else Exc (SystemError msg), m)
       | (None, m) \<Rightarrow> (Ret (), m))"

text \<open>The destructor; no exception leaves it.\<close>

definition Modem_destroy :: "'s port \<Rightarrow> 's modem \<Rightarrow> 's modem" where
  "Modem_destroy P m = snd (Close P True m)"

section \<open>Queries with a line of reply\<close>

text \<open>What most commands begin with: write the command, read up to \<open>OK\<close>, take the second line.\<close>

datatype reply = WriteError | ReadError string | Line "byte list"

definition ask :: "'s port \<Rightarrow> byte list \<Rightarrow> nat \<Rightarrow> 's modem \<Rightarrow> reply \<times> 's modem" where
  "ask P cmd timeout m = (case p_write P cmd (dev m) of
     (Some msg, s) \<Rightarrow> (WriteError, m\<lparr>dev := s\<rparr>)
   | (None, s) \<Rightarrow> (case p_read_until P ok_line timeout [] s of
       (Some msg, buf, s) \<Rightarrow> (ReadError msg, m\<lparr>dev := s\<rparr>)
     | (None, buf, s) \<Rightarrow> (Line (second_line buf), m\<lparr>dev := s\<rparr>)))"

text \<open>\<open>numeric_cast<uint8_t>(lexical_cast<int>(...))\<close>\<close>

definition cast_u8 :: "boost \<Rightarrow> byte list \<Rightarrow> u8 result" where
  "cast_u8 B cs = bind_r (or_exc BadLexicalCast (lex_int B cs)) (\<lambda>i. or_exc BadNumericCast (to_u8 B i))"

definition parse_NetStatus :: "boost \<Rightarrow> byte list \<Rightarrow> (bool \<times> u8) result" where
  "parse_NetStatus B line = (case find_str (bytes_of ''+CREG:'') line of
     None \<Rightarrow> Ret (False, 4)
   | Some pos \<Rightarrow> (case find_first_of 44 line (pos + 6) of
       None \<Rightarrow> Ret (False, 4)
     | Some pos \<Rightarrow>
         attempt (number_at (cast_u8 B) line (pos + 1) 13) (Ret (False, 4))
           (\<lambda>(status, pos2). Ret (True, status))))"

definition NetGetStatus :: "'s port \<Rightarrow> boost \<Rightarrow> 's modem \<Rightarrow> (bool \<times> u8) result \<times> 's modem" where
  "NetGetStatus P B m =
     (if \<not> m_isOpen m then (Ret (False, 4), m)
      else case ask P (cmd_line ''AT+CREG?'') 5 m of
        (Line line, m) \<Rightarrow> (parse_NetStatus B line, m)
      | (_, m) \<Rightarrow> (Ret (False, 4), m))"

definition parse_Quality :: "boost \<Rightarrow> byte list \<Rightarrow> (bool \<times> u8) result" where
  "parse_Quality B line = (case find_str (bytes_of ''+CSQ:'') line of
     None \<Rightarrow> Ret (False, 0)
   | Some pos \<Rightarrow>
       attempt (number_at (cast_u8 B) line (pos + 5) 13) (Ret (False, 0))
           (\<lambda>(quality, pos2). Ret (True, quality)))"

text \<open>The query of the current quality reads line by line into one buffer, on which the stream stays.\<close>

definition GetSignalQuality :: "'s port \<Rightarrow> boost \<Rightarrow> bool \<Rightarrow> 's modem \<Rightarrow> (bool \<times> u8) result \<times> 's modem" where
  "GetSignalQuality P B lastKnown m =
     (if \<not> m_isOpen m then (Ret (False, 0), m)
      else if lastKnown then
        (case ask P (cmd_line ''AT+CSQF?'') 5 m of
           (Line line, m) \<Rightarrow> (parse_Quality B line, m)
         | (_, m) \<Rightarrow> (Ret (False, 0), m))
      else
        (case p_write P (cmd_line ''AT+CSQ?'') (dev m) of
           (Some msg, s) \<Rightarrow> (Ret (False, 0), m\<lparr>dev := s\<rparr>)
         | (None, s) \<Rightarrow>
        (case p_read_until P [13, 10] 50 [] s of
           (Some msg, buf, s) \<Rightarrow> (Ret (False, 0), m\<lparr>dev := s\<rparr>)
         | (None, buf, s) \<Rightarrow>
        (case getline (buf, False) [] of (line, buf, at_end) \<Rightarrow>
           if find_str (bytes_of ''ERROR'') line \<noteq> None then (Ret (False, 0), m\<lparr>dev := s\<rparr>)
           else
        (case p_read_until P [13, 10] 50 buf s of
           (Some msg, buf, s) \<Rightarrow> (Ret (False, 0), m\<lparr>dev := s\<rparr>)
         | (None, buf, s) \<Rightarrow>
        (case getline (buf, at_end) line of (line, buf, at_end) \<Rightarrow>
           if find_str (bytes_of ''ERROR'') line \<noteq> None then (Ret (False, 0), m\<lparr>dev := s\<rparr>)
           else
        (case p_read_until P ok_line 50 buf s of
           (Some msg, buf, s) \<Rightarrow> (Ret (False, 0), m\<lparr>dev := s\<rparr>)
         | (None, buf, s) \<Rightarrow> (parse_Quality B line, m\<lparr>dev := s\<rparr>))))))))"

definition parse_Detach :: "boost \<Rightarrow> byte list \<Rightarrow> (bool \<times> u8) result" where
  "parse_Detach B line = (case find_str (bytes_of ''+SBDDET:'') line of
     None \<Rightarrow> Ret (False, 36)
   | Some pos \<Rightarrow> (case find_first_of 44 line (pos + 8) of
       None \<Rightarrow> Ret (False, 36)
     | Some pos \<Rightarrow>
         attempt (number_at (cast_u8 B) line (pos + 1) 13) (Ret (False, 36))
           (\<lambda>(error, pos2). Ret (True, error))))"

definition SbdDetach :: "'s port \<Rightarrow> boost \<Rightarrow> 's modem \<Rightarrow> (bool \<times> u8) result \<times> 's modem" where
  "SbdDetach P B m =
     (if \<not> m_isOpen m then (Ret (False, 36), m)
      else case ask P (cmd_line ''AT+SBDDET'') 5 m of
        (Line line, m) \<Rightarrow> (parse_Detach B line, m)
      | (_, m) \<Rightarrow> (Ret (False, 36), m))"

text \<open>\<open>return (line[0] == '0')\<close>\<close>

definition parse_zero :: "byte list \<Rightarrow> bool result" where
  "parse_zero line = bind_r (char_at line 0) (\<lambda>c. Ret (c = 48))"

datatype EClearMessageBuffers = eClearMObuffer | eClearMTbuffer | eClearBoth

fun buffers_number :: "EClearMessageBuffers \<Rightarrow> u8" where
  "buffers_number eClearMObuffer = 0"
| "buffers_number eClearMTbuffer = 1"
| "buffers_number eClearBoth = 2"

definition SbdClearBuffers :: "'s port \<Rightarrow> EClearMessageBuffers \<Rightarrow> 's modem \<Rightarrow> bool result \<times> 's modem" where
  "SbdClearBuffers P clear m =
     (if \<not> m_isOpen m then (Ret False, m)
      else case ask P (bytes_of ''AT+SBDD'' @ [48 + buffers_number clear, 13]) 5 m of
        (Line line, m) \<Rightarrow> (parse_zero line, m)
      | (_, m) \<Rightarrow> (Ret False, m))"

definition ClearMomsn :: "'s port \<Rightarrow> 's modem \<Rightarrow> bool result \<times> 's modem" where
  "ClearMomsn P m =
     (if \<not> m_isOpen m then (Ret False, m)
      else case ask P (cmd_line ''AT+SBDC'') 5 m of
        (Line line, m) \<Rightarrow> (parse_zero line, m)
      | (_, m) \<Rightarrow> (Ret False, m))"

text \<open>\<open>imei\<close> is the argument of the caller, unchanged on failure.\<close>

definition GetImei :: "'s port \<Rightarrow> byte list \<Rightarrow> 's modem \<Rightarrow> (bool \<times> byte list) result \<times> 's modem" where
  "GetImei P imei m =
     (if \<not> m_isOpen m then (Ret (False, imei), m)
      else case ask P (cmd_line ''AT+CGSN'') 5 m of
        (Line line, m) \<Rightarrow> (case find_first_of 13 line 0 of
            None \<Rightarrow> (Ret (False, imei), m)
          | Some pos2 \<Rightarrow> (Ret (True, take pos2 line), m))
      | (_, m) \<Rightarrow> (Ret (False, imei), m))"

end
