(* ===== verification/ModemSession.thy ===== *)
theory ModemSession
  imports Modem IEMo
begin

text \<open>
  The status and session commands of src/Modem.cpp, whose replies are lines of numbers, and the
  transfer of messages to and from the buffers of the modem, with its checksum.
\<close>

section \<open>Lines of numbers\<close>

record SbdStatus =
  mo_flag :: bool
  status_momsn :: u16
  mt_flag :: bool
  status_mtmsn :: int
  ra_flag :: bool
  status_mt_queue :: u8

definition SbdStatus_init :: SbdStatus where
  "SbdStatus_init = \<lparr>mo_flag = False, status_momsn = 0, mt_flag = False, status_mtmsn = -1,
     ra_flag = False, status_mt_queue = 0\<rparr>"

definition as_u16 :: "boost \<Rightarrow> byte list \<Rightarrow> u16 result" where
  "as_u16 B cs = or_exc BadLexicalCast (lex_u16 B cs)"

definition as_i32 :: "boost \<Rightarrow> byte list \<Rightarrow> int result" where
  "as_i32 B cs = or_exc BadLexicalCast (lex_i32 B cs)"

text \<open>The fields are assigned one by one, so a failure leaves those before it changed.\<close>

definition parse_Status :: "boost \<Rightarrow> SbdStatus \<Rightarrow> byte list \<Rightarrow> (bool \<times> SbdStatus) result" where
  "parse_Status B status line = (case find_str (bytes_of ''+SBDSX: '') line of
     None \<Rightarrow> Ret (False, status)
   | Some pos \<Rightarrow>
       let pos = pos + 8 in
       bind_r (char_at line pos) (\<lambda>c.
       let status = status\<lparr>mo_flag := (c = 49)\<rparr>; pos = pos + 3 in
       attempt (number_at (as_u16 B) line pos 44) (Ret (False, status)) (\<lambda>(momsn, pos2).
       let status = status\<lparr>status_momsn := momsn\<rparr>; pos = pos2 + 2 in
       bind_r (char_at line pos) (\<lambda>c.
       let status = status\<lparr>mt_flag := (c = 49)\<rparr>; pos = pos + 3 in
       attempt (number_at (as_i32 B) line pos 44) (Ret (False, status)) (\<lambda>(mtmsn, pos2).
       let status = status\<lparr>status_mtmsn := mtmsn\<rparr>; pos = pos2 + 2 in
       bind_r (char_at line pos) (\<lambda>c.
       let status = status\<lparr>ra_flag := (c = 49)\<rparr>; pos = pos + 3 in
       attempt (number_at (cast_u8 B) line pos 13) (Ret (False, status)) (\<lambda>(mt_queue, pos2).
       Ret (True, status\<lparr>status_mt_queue := mt_queue\<rparr>))))))))"

definition SbdGetStatus :: "'s port \<Rightarrow> boost \<Rightarrow> SbdStatus \<Rightarrow> 's modem \<Rightarrow> (bool \<times> SbdStatus) result \<times> 's modem" where
  "SbdGetStatus P B status m =
     (if \<not> m_isOpen m then (Ret (False, status), m)
      else case ask P (cmd_line ''AT+SBDSX'') 5 m of
        (Line line, m) \<Rightarrow> (parse_Status B status line, m)
      | (_, m) \<Rightarrow> (Ret (False, status), m))"

record SbdSessionStatus =
  mo_status :: u8
  momsn :: u16
  mt_status :: u8
  mtmsn :: u16
  mt_message_len :: u16
  mt_queue :: u8

definition bad_session :: "'a result" where
  "bad_session = Exc (RuntimeError ''bad session status'')"

definition parse_Session :: "boost \<Rightarrow> byte list \<Rightarrow> SbdSessionStatus result" where
  "parse_Session B line = (case find_str (bytes_of ''+SBDIX: '') line of
     None \<Rightarrow> bad_session
   | Some pos \<Rightarrow>
       attempt (number_at (cast_u8 B) line (pos + 8) 44) bad_session (\<lambda>(a, pos2).
       attempt (number_at (as_u16 B) line (pos2 + 2) 44) bad_session (\<lambda>(b, pos2).
       attempt (number_at (cast_u8 B) line (pos2 + 2) 44) bad_session (\<lambda>(c, pos2).
       attempt (number_at (as_u16 B) line (pos2 + 2) 44) bad_session (\<lambda>(d, pos2).
       attempt (number_at (as_u16 B) line (pos2 + 2) 44) bad_session (\<lambda>(e, pos2).
       attempt (number_at (cast_u8 B) line (pos2 + 2) 13) bad_session (\<lambda>(f, pos2).
       Ret \<lparr>mo_status = a, momsn = b, mt_status = c, mtmsn = d, mt_message_len = e, mt_queue = f\<rparr>)))))))"

definition DoSbdSession :: "'s port \<Rightarrow> boost \<Rightarrow> bool \<Rightarrow> 's modem \<Rightarrow> SbdSessionStatus result \<times> 's modem" where
  "DoSbdSession P B answer m =
     (if \<not> m_isOpen m then (Exc (RuntimeError ''modem not opened''), m)
      else case ask P (if answer then cmd_line ''AT+SBDIXA'' else cmd_line ''AT+SBDIX'') 50 m of
        (WriteError, m) \<Rightarrow> (Exc (RuntimeError ''send command error''), m)
      | (ReadError msg, m) \<Rightarrow> (Exc (RuntimeError msg), m)
      | (Line line, m) \<Rightarrow> (parse_Session B line, m))"

section \<open>The checksum\<close>

text \<open>\<open>for (char c: payload) sum += c;\<close>: each \<open>char\<close> is converted to \<open>uint32_t\<close>, with its sign where the
  machine has signed characters.\<close>

definition char_sum :: "host \<Rightarrow> byte list \<Rightarrow> u32" where
  "char_sum h payload = foldl (\<lambda>sum c. sum + word_of_int (char_int h c)) 0 payload"

definition message_crc :: "host \<Rightarrow> byte list \<Rightarrow> u16" where
  "message_crc h payload = ucast (char_sum h payload AND 0xFFFF)"

text \<open>The union with its two characters swapped unless the machine is big-endian, and back.\<close>

definition union_chars :: "host \<Rightarrow> u16 \<Rightarrow> byte list" where
  "union_chars h w = (let c = store h 2 w in if \<not> isBigEndian h then [c ! 1, c ! 0] else c)"

definition union_word :: "host \<Rightarrow> byte list \<Rightarrow> u16" where
  "union_word h c = load h (if \<not> isBigEndian h then [c ! 1, c ! 0] else c)"

section \<open>Messages to and from the modem\<close>

text \<open>The outcome of the last read is not looked at.\<close>

definition WriteMessage :: "host \<Rightarrow> 's port \<Rightarrow> boost \<Rightarrow> byte list \<Rightarrow> 's modem \<Rightarrow> u8 result \<times> 's modem" where
  "WriteMessage h P B payload m =
     (if \<not> m_isOpen m then (Exc (RuntimeError ''modem not opened''), m)
      else if length payload = 0 \<or> length payload > IEMoPayload_MaxPayloadLength
      then (Exc (RuntimeError ''bad payload length''), m)
      else case p_write P (cmd_line (''AT+SBDWB='' @ show_nat (length payload))) (dev m) of
        (Some _, s) \<Rightarrow> (Exc (RuntimeError ''send command error''), m\<lparr>dev := s\<rparr>)
      | (None, s) \<Rightarrow>
      (case p_read_until P (bytes_of ''READY'' @ [13, 10]) 10 [] s of
        (Some _, _, s) \<Rightarrow> (Exc (RuntimeError ''reply receive error''), m\<lparr>dev := s\<rparr>)
      | (None, _, s) \<Rightarrow>
      (case p_write P payload s of
        (Some _, s) \<Rightarrow> (Exc (RuntimeError ''send payload error''), m\<lparr>dev := s\<rparr>)
      | (None, s) \<Rightarrow>
      (case p_write P (union_chars h (message_crc h payload)) s of
        (Some _, s) \<Rightarrow> (Exc (RuntimeError ''send CRC error''), m\<lparr>dev := s\<rparr>)
      | (None, s) \<Rightarrow>
      (case p_read_until P ok_line 5 [] s of
        (_, buf, s) \<Rightarrow>
          (attempt (number_at (cast_u8 B) (second_line buf) 0 13) (Ret 4) (\<lambda>(res, pos). Ret res),
           m\<lparr>dev := s\<rparr>))))))"

text \<open>The result is paired with the payload, which is empty whenever an exception is thrown.\<close>

definition ReadMessage :: "host \<Rightarrow> 's port \<Rightarrow> 's modem \<Rightarrow> unit result \<times> byte list \<times> 's modem" where
  "ReadMessage h P m =
     (if \<not> m_isOpen m then (Exc (RuntimeError ''modem not opened''), [], m)
      else case p_write P (cmd_line ''AT+SBDRB'') (dev m) of
        (Some _, s) \<Rightarrow> (Exc (RuntimeError ''send command error''), [], m\<lparr>dev := s\<rparr>)
      | (None, s) \<Rightarrow>
      (case p_read_until P [13] 5 [] s of
        (Some _, _, s) \<Rightarrow> (Exc (RuntimeError ''message length receive error''), [], m\<lparr>dev := s\<rparr>)
      | (None, _, s) \<Rightarrow>
      (case p_read P 2 s of
        None \<Rightarrow> (NoReturn, [], m)
      | Some (Inl _, s) \<Rightarrow> (Exc (RuntimeError ''message length receive error''), [], m\<lparr>dev := s\<rparr>)
      | Some (Inr c, s) \<Rightarrow>
      (let len = unat (union_word h c) in
       case (if len = 0 then Some (Inr [], s) else p_read P len s) of
        None \<Rightarrow> (NoReturn, [], m)
      | Some (Inl _, s) \<Rightarrow> (Exc (RuntimeError ''message receive error''), [], m\<lparr>dev := s\<rparr>)
      | Some (Inr payload, s) \<Rightarrow>
      (case p_read P 2 s of
        None \<Rightarrow> (NoReturn, payload, m)
      | Some (Inl _, s) \<Rightarrow> (Exc (RuntimeError ''message CRC receive error''), [], m\<lparr>dev := s\<rparr>)
      | Some (Inr c, s) \<Rightarrow>
          if payload \<noteq> [] \<and> message_crc h payload \<noteq> union_word h c
          then (Exc (RuntimeError ''CRC check error''), [], m\<lparr>dev := s\<rparr>)
          else (case p_read_until P ok_line 5 [] s of (_, _, s) \<Rightarrow> (Ret (), payload, m\<lparr>dev := s\<rparr>)))))))"

end
