(* ===== verification/ModemLine.thy ===== *)
theory ModemLine
  imports ModemSession
begin

text \<open>
  An instance of the port of ModemPort that delivers what the device sends in segments, and lemmas on
  commands over it: a reply is understood however its bytes are divided. The second part shows that the
  parsers of replies read the decimal form of the numbers back.
\<close>

section \<open>A port that delivers segments\<close>

text \<open>An instance of the parameter, for the properties of the transfers: a line that never fails, on which
  the device sends given segments. A read up to a delimiter takes whole segments until the delimiter
  has come, and times out when there are none left; a read of \<open>n\<close> bytes waits for ever if fewer come.\<close>

record line =
  segments :: "byte list list"
  written :: "byte list list"

fun collect :: "byte list \<Rightarrow> byte list \<Rightarrow> byte list list \<Rightarrow> bool \<times> byte list \<times> byte list list" where
  "collect d buf [] = (find_str d buf \<noteq> None, buf, [])"
| "collect d buf (x # xs) = (if find_str d buf \<noteq> None then (True, buf, x # xs) else collect d (buf @ x) xs)"

definition stream_port :: "line port" where
  "stream_port = \<lparr>p_open = \<lambda>_ s. (None, s), p_set_option = \<lambda>_ s. (None, s), p_close = \<lambda>s. (None, s),
     p_cancel_timer = \<lambda>s. (None, s),
     p_write = \<lambda>bs s. (None, s\<lparr>written := written s @ [bs]\<rparr>),
     p_read_until = \<lambda>d t buf s. (case collect d buf (segments s) of (found, buf, rest) \<Rightarrow>
       (if found then None else Some ''Operation canceled'', buf, s\<lparr>segments := rest\<rparr>)),
     p_read = \<lambda>n s. (let all = concat (segments s) in
       if length all < n then None else Some (Inr (take n all), s\<lparr>segments := [drop n all]\<rparr>))\<rparr>"

lemma stream_port_simps [simp]:
  "p_open stream_port name s = (None, s)" "p_set_option stream_port opt s = (None, s)"
  "p_write stream_port bs s = (None, s\<lparr>written := written s @ [bs]\<rparr>)"
  "p_read_until stream_port d t buf s = (case collect d buf (segments s) of (found, buf, rest) \<Rightarrow>
       (if found then None else Some ''Operation canceled'', buf, s\<lparr>segments := rest\<rparr>))"
  by (simp_all add: stream_port_def)

lemma stream_read: "n = length xs \<Longrightarrow>
  p_read stream_port n \<lparr>segments = [xs @ ys], written = ws\<rparr> = Some (Inr xs, \<lparr>segments = [ys], written = ws\<rparr>)"
  by (simp add: stream_port_def)

lemma stream_blocks: "length (concat segs) < n \<Longrightarrow>
  p_read stream_port n \<lparr>segments = segs, written = ws\<rparr> = None"
  by (simp add: stream_port_def)

lemma find_str_infix: "find_str pat (xs @ pat @ ys) \<noteq> None"
proof (induction xs)
  case Nil
  show ?case using find_str_append [of pat ys] by simp
next
  case (Cons x xs)
  then show ?case by auto
qed

lemma collect_first:
  "d \<noteq> [] \<Longrightarrow> find_str d x \<noteq> None \<Longrightarrow> collect d [] (x # xs) = (True, x, xs)"
  by (cases xs) simp_all

text \<open>A modem with a line on which the device is going to send the given segments.\<close>

definition on_line :: "byte list list \<Rightarrow> line modem" where
  "on_line segs = \<lparr>m_deviceName = ''/dev/ttyS0'', m_isOpen = True, m_busy = True,
     dev = \<lparr>segments = segs, written = []\<rparr>\<rparr>"


section \<open>Replies in any division\<close>

lemma find_str_split: "find_str pat xs \<noteq> None \<Longrightarrow> \<exists>a b. xs = a @ pat @ b"
proof (induction xs)
  case Nil
  then show ?case by (simp split: if_splits)
next
  case (Cons x xs)
  show ?case
  proof (cases "take (length pat) (x # xs) = pat")
    case True
    then have "x # xs = [] @ pat @ drop (length pat) (x # xs)"
      by (metis append_Nil append_take_drop_id)
    then show ?thesis by blast
  next
    case False
    with Cons obtain a b where "xs = a @ pat @ b" by auto
    then have "x # xs = (x # a) @ pat @ b" by simp
    then show ?thesis by blast
  qed
qed

lemma collect_delimited:
  assumes "find_str d (buf @ concat segs) \<noteq> None"
  shows "\<exists>p rest. collect d buf segs = (True, p, rest) \<and> p @ concat rest = buf @ concat segs \<and> find_str d p \<noteq> None"
  using assms by (induction segs arbitrary: buf) (auto simp: append_assoc [symmetric] simp del: append_assoc)

text \<open>A prefix of the reply that ends the read holds the lines in which the delimiter does not begin.\<close>

lemma delimited_prefix:
  assumes "p @ r = front @ back" and "find_str (c # d) p \<noteq> None" and "c \<notin> set front"
  shows "\<exists>q. p = front @ q"
proof -
  from find_str_split [OF assms(2)] obtain a b where p: "p = a @ c # d @ b" by auto
  from assms(1) obtain q where "p = front @ q \<or> front = p @ q"
    by (auto simp: append_eq_append_conv2)
  moreover have "front \<noteq> p @ q" using assms(3) p by auto
  ultimately show ?thesis by blast
qed

text \<open>What the commands with a line of reply rely on: a port that never fails and delivers a stream of bytes,
  in whatever pieces. A read up to a delimiter that is going to come takes some prefix of the stream that
  contains it.\<close>

locale byte_line =
  fixes P :: "'s port" and incoming :: "'s \<Rightarrow> byte list" and sent :: "'s \<Rightarrow> byte list list"
  assumes writes: "\<exists>s'. p_write P bs s = (None, s') \<and> incoming s' = incoming s \<and> sent s' = sent s @ [bs]"
    and reads: "find_str d (buf @ incoming s) \<noteq> None \<Longrightarrow> \<exists>p s'. p_read_until P d t buf s = (None, p, s') \<and>
      p @ incoming s' = buf @ incoming s \<and> find_str d p \<noteq> None \<and> sent s' = sent s"
begin

lemma read_reply:
  assumes "incoming s = a @ 10 # b @ 10 # tail @ ok_line @ rem"
    and "10 \<notin> set a" "79 \<notin> set a" "10 \<notin> set b" "79 \<notin> set b"
  shows "\<exists>p s'. p_read_until P ok_line t [] s = (None, p, s') \<and> second_line p = b \<and> sent s' = sent s"
proof -
  have ok: "ok_line = 79 # [75, 13, 10]" by (simp add: ok_line_def bytes_of_def)
  have "find_str ok_line ([] @ incoming s) \<noteq> None"
    using find_str_infix [of ok_line "a @ 10 # b @ 10 # tail" rem] by (simp add: assms(1))
  from reads [OF this, of t] obtain p s' where p: "p_read_until P ok_line t [] s = (None, p, s')" "sent s' = sent s"
    "p @ incoming s' = (a @ 10 # b @ [10]) @ tail @ ok_line @ rem" "find_str ok_line p \<noteq> None"
    by (auto simp: assms(1))
  have "\<exists>q. p = (a @ 10 # b @ [10]) @ q"
    by (rule delimited_prefix [OF p(3) p(4) [unfolded ok]]) (use assms in auto)
  then have "second_line p = b"
    using second_line_split assms by auto
  with p(1,2) show ?thesis by blast
qed

lemma ask_reply:
  assumes "incoming (dev m) = a @ 10 # b @ 10 # tail @ ok_line @ rem"
    and "10 \<notin> set a" "79 \<notin> set a" "10 \<notin> set b" "79 \<notin> set b"
  shows "\<exists>m'. ask P cmd t m = (Line b, m') \<and> sent (dev m') = sent (dev m) @ [cmd]"
proof -
  from writes obtain s where s: "p_write P cmd (dev m) = (None, s)" "incoming s = incoming (dev m)"
    "sent s = sent (dev m) @ [cmd]" by blast
  from read_reply [OF trans [OF s(2) assms(1)] assms(2-5)] obtain p s' where
    "p_read_until P ok_line t [] s = (None, p, s')" "second_line p = b" "sent s' = sent s" by blast
  with s show ?thesis by (simp add: ask_def)
qed

lemma read_line:
  assumes "buf @ incoming s = l @ [13, 10] @ rem" and "10 \<notin> set l"
  shows "\<exists>q s'. p_read_until P [13, 10] t buf s = (None, l @ [13, 10] @ q, s') \<and> q @ incoming s' = rem"
proof -
  have "find_str [13, 10] (buf @ incoming s) \<noteq> None"
    unfolding assms(1) using find_str_infix [of "[13, 10]" l rem] by simp
  from reads [OF this] obtain p s' where p: "p_read_until P [13, 10] t buf s = (None, p, s')"
    "p @ incoming s' = l @ [13, 10] @ rem" "find_str [13, 10] p \<noteq> None"
    unfolding assms(1) by blast
  from find_str_split [OF p(3)] have "10 \<in> set p" by auto
  then obtain u v where u: "p = u @ 10 # v" "10 \<notin> set u"
    by (blast dest: split_list_first)
  have "u = l @ [13]"
    using arg_cong [OF p(2), of "takeWhile (\<lambda>b. b \<noteq> 10)"] takeWhile_upto [OF u(2), of "v @ incoming s'"]
      takeWhile_upto [of 10 "l @ [13]" rem] assms(2) by (simp add: u(1))
  with p u show ?thesis by auto
qed

end

interpretation stream: byte_line stream_port "\<lambda>s. concat (segments s)" written
proof
  fix bs and s :: line
  show "\<exists>s'. p_write stream_port bs s = (None, s') \<and> concat (segments s') = concat (segments s) \<and>
    written s' = written s @ [bs]" by simp
next
  fix d buf t and s :: line
  assume "find_str d (buf @ concat (segments s)) \<noteq> None"
  from collect_delimited [OF this]
  show "\<exists>p s'. p_read_until stream_port d t buf s = (None, p, s') \<and>
    p @ concat (segments s') = buf @ concat (segments s) \<and> find_str d p \<noteq> None \<and> written s' = written s"
    by auto
qed

lemma on_line_simps [simp]: "m_isOpen (on_line segs)" "segments (dev (on_line segs)) = segs" "written (dev (on_line segs)) = []"
  by (simp_all add: on_line_def)

section \<open>Numbers in replies\<close>

lemma bytes_of_append: "bytes_of (s @ t) = bytes_of s @ bytes_of t"
  by (simp add: bytes_of_def)

lemma digit_byte: "m < 10 \<Longrightarrow> uint (of_char (char_of (48 + m :: nat)) :: byte) = 48 + int m"
proof -
  assume "m < 10"
  then have "m \<in> {0, 1, 2, 3, 4, 5, 6, 7, 8, 9}" by auto
  then show ?thesis by (elim insertE) (simp_all add: char_of_def of_char_def bit_0)
qed

lemma show_nat_bytes: "b \<in> set (bytes_of (show_nat n)) \<Longrightarrow> 48 \<le> uint b \<and> uint b \<le> 57"
proof (induction n rule: show_nat.induct)
  case (1 n)
  show ?case
  proof (cases "n < 10")
    case True
    with 1(2) show ?thesis
      using digit_byte [of n] by (simp add: show_nat.simps [of n] bytes_of_def)
  next
    case False
    with 1(2) have "b \<in> set (bytes_of (show_nat (n div 10))) \<or> b = of_char (char_of (48 + n mod 10))"
      by (simp add: show_nat.simps [of n] bytes_of_def disj_commute)
    with 1(1) False show ?thesis
      using digit_byte [of "n mod 10"] by auto
  qed
qed

lemma decimal_char: "b \<in> set (decimal i) \<Longrightarrow> uint b = 45 \<or> 48 \<le> uint b \<and> uint b \<le> 57"
  using show_nat_bytes [of b] by (auto simp: decimal_def show_int_def bytes_of_def split: if_splits)

lemma decimal_delims [simp]: "44 \<notin> set (decimal i)" "13 \<notin> set (decimal i)" "10 \<notin> set (decimal i)"
  "79 \<notin> set (decimal i)"
  using decimal_char [of 44 i] decimal_char [of 13 i] decimal_char [of 10 i] decimal_char [of 79 i] by auto

lemma number_at_first:
  "line = pre @ xs @ stop # rest \<Longrightarrow> length pre = pos \<Longrightarrow> stop \<notin> set xs \<Longrightarrow>
   number_at conv line pos stop = bind_r (conv xs) (\<lambda>v. Ret (v, pos + length xs))"
  using find_first_of_append [of stop xs pre pos rest] by (auto simp: number_at_def)

lemma convert:
  assumes "boost_converts B"
  shows "as_u16 B (decimal (uint w)) = Ret w"
    and "- 2147483648 \<le> i \<Longrightarrow> i < 2147483648 \<Longrightarrow> as_i32 B (decimal i) = Ret i"
    and "- 2147483648 \<le> i \<Longrightarrow> i < 2147483648 \<Longrightarrow>
      cast_u8 B (decimal i) = (if 0 \<le> i \<and> i < 256 then Ret (word_of_int i) else Exc BadNumericCast)"
  using assms by (auto simp: boost_converts_def as_u16_def as_i32_def cast_u8_def or_exc_def)

text \<open>An instance of the conversions.\<close>

definition digits :: "byte list \<Rightarrow> int" where
  "digits bs = foldl (\<lambda>a b. 10 * a + (uint b - 48)) 0 bs"

definition value_of :: "byte list \<Rightarrow> int" where
  "value_of bs = (if take 1 bs = [45] then - digits (tl bs) else digits bs)"

definition exactly :: "int \<Rightarrow> int \<Rightarrow> byte list \<Rightarrow> int option" where
  "exactly l u bs = (let i = value_of bs in if decimal i = bs \<and> l \<le> i \<and> i < u then Some i else None)"

definition exact_boost :: boost where
  "exact_boost = \<lparr>lex_int = exactly (- 2147483648) 2147483648,
     lex_u16 = (\<lambda>bs. map_option word_of_int (exactly 0 65536 bs)),
     lex_i32 = exactly (- 2147483648) 2147483648,
     to_u8 = (\<lambda>i. if 0 \<le> i \<and> i < 256 then Some (word_of_int i) else None)\<rparr>"

lemma digits_show_nat: "digits (bytes_of (show_nat n)) = int n"
proof (induction n rule: show_nat.induct)
  case (1 n)
  show ?case
  proof (cases "n < 10")
    case True
    then show ?thesis
      by (simp add: show_nat.simps [of n] bytes_of_def digits_def digit_byte)
  next
    case False
    with 1 have "digits (bytes_of (show_nat n)) = 10 * int (n div 10) + int (n mod 10)"
      by (simp add: show_nat.simps [of n] bytes_of_def digits_def digit_byte)
    then show ?thesis by presburger
  qed
qed

lemma value_of_decimal: "value_of (decimal i) = i"
proof -
  have "take 1 (bytes_of (show_nat n)) \<noteq> [45]" for n
    using show_nat_bytes [of 45 n] by (cases "bytes_of (show_nat n)") auto
  then show ?thesis
    by (auto simp: value_of_def decimal_def show_int_def digits_show_nat) (simp_all add: bytes_of_def digits_show_nat [unfolded bytes_of_def])
qed

lemma exact_boost_converts: "boost_converts exact_boost"
  using uint_bounded [where 'a = 16]
  by (auto simp: boost_converts_def exact_boost_def exactly_def value_of_decimal)

end
