(* ===== verification/ModemRead.thy ===== *)
theory ModemRead
  imports ModemLine Runs
begin

text \<open>
  \<open>Modem::read_until_timeout\<close> of src/Modem.cpp, which makes one call out of two asynchronous operations:
  the caller, the thread that runs the io service, the device and a \<open>Close\<close> in another thread interleave.
  The commands use it as the operation \<open>p_read_until\<close> of the port; here it is shown what the interleaved
  code has in common with that operation, and where it differs.
\<close>

section \<open>The state\<close>

text \<open>\<open>async_read_until\<close> reads piece by piece: it waits for the device, a result of the device waits for
  its handler, or the handler of the whole operation has been called.\<close>

datatype read_op = ROutstanding | RReady "exc + byte list" | RDone
datatype timer_op = TOutstanding | TReady | TDone

text \<open>The caller tests \<open>complete\<close> with the mutex locked, sleeps on the condition variable with the mutex
  unlocked, waits for the thread, and has returned. \<open>Close\<close> has not begun, waits for the mutex, or is over.\<close>

datatype caller_pc = Testing | Sleeping | JoiningIo | ReadReturned
datatype closer_pc = NoClose | LockWait | CloseDone

record reading =
  buf :: "byte list"
  ec :: "exc option"
  complete :: bool
  read_op :: read_op
  timer_op :: timer_op
  io_done :: bool
  caller :: caller_pc
  closer :: closer_pc
  port_open :: bool
  io_crashed :: bool
  received :: "byte list list"

definition canceled :: exc where
  "canceled = ''Operation canceled''"

text \<open>The calls up to the creation of the thread. Of what is in the buffer already, the operation first
  looks whether it holds the delimiter.\<close>

definition read_until_start :: "byte list \<Rightarrow> byte list \<Rightarrow> reading" where
  "read_until_start delim b =
     \<lparr>buf = b, ec = None, complete = False,
      read_op = (if find_str delim b \<noteq> None then RReady (Inr []) else ROutstanding), timer_op = TOutstanding,
      io_done = False, caller = Testing, closer = NoClose, port_open = True, io_crashed = False, received = []\<rparr>"

section \<open>Handlers\<close>

definition cancel_timer :: "reading \<Rightarrow> reading" where
  "cancel_timer s = (if timer_op s = TOutstanding then s\<lparr>timer_op := TReady\<rparr> else s)"

definition cancel_read :: "reading \<Rightarrow> reading" where
  "cancel_read s = (if read_op s = ROutstanding then s\<lparr>read_op := RReady (Inl canceled)\<rparr> else s)"

text \<open>The handler of the timer runs when it has expired and when it was cancelled. \<open>m_io.cancel()\<close> throws if the
  port is closed, and nothing in the thread handles the exception.\<close>

definition timer_handler :: "reading \<Rightarrow> reading" where
  "timer_handler s =
     (let s = s\<lparr>timer_op := TDone\<rparr> in if port_open s then cancel_read s else s\<lparr>io_crashed := True\<rparr>)"

definition read_handler :: "exc option \<Rightarrow> reading \<Rightarrow> reading" where
  "read_handler error s = (cancel_timer (s\<lparr>ec := error, read_op := RDone\<rparr>))\<lparr>complete := True\<rparr>"

text \<open>What the library does with the result of a piece: a read of a closed port fails at once.\<close>

definition read_piece :: "byte list \<Rightarrow> exc + byte list \<Rightarrow> reading \<Rightarrow> reading" where
  "read_piece delim r s = (case r of
     Inl e \<Rightarrow> read_handler (Some e) s
   | Inr bs \<Rightarrow>
       let s = s\<lparr>buf := buf s @ bs\<rparr> in
       if find_str delim (buf s) \<noteq> None then read_handler None s
       else if port_open s then s\<lparr>read_op := ROutstanding\<rparr>
       else s\<lparr>read_op := RReady (Inl ''Bad file descriptor'')\<rparr>)"

definition caller_test :: "reading \<Rightarrow> reading" where
  "caller_test s = s\<lparr>caller := (if complete s then JoiningIo else Sleeping)\<rparr>"

text \<open>\<open>Close\<close>: the timer, then, with the mutex, the port; a read that is outstanding is cancelled by that.\<close>

definition close_begin :: "reading \<Rightarrow> reading" where
  "close_begin s = (cancel_timer s)\<lparr>closer := LockWait\<rparr>"

definition close_locked :: "reading \<Rightarrow> reading" where
  "close_locked s = (if port_open s then (cancel_read s)\<lparr>port_open := False\<rparr> else s)\<lparr>closer := CloseDone\<rparr>"

section \<open>Steps\<close>

datatype read_input = Data "byte list" | DeviceError exc | Expire | RunTimer | RunRead | IoEnds
  | Test | Wake | JoinIo | CloseBegin | CloseLocked

inductive read_step :: "byte list \<Rightarrow> reading \<Rightarrow> read_input \<Rightarrow> reading \<Rightarrow> bool" for delim :: "byte list" where
  data: "read_op s = ROutstanding \<Longrightarrow> bs \<noteq> [] \<Longrightarrow>
    read_step delim s (Data bs) (s\<lparr>read_op := RReady (Inr bs), received := received s @ [bs]\<rparr>)"
| device_error: "read_op s = ROutstanding \<Longrightarrow> read_step delim s (DeviceError e) (s\<lparr>read_op := RReady (Inl e)\<rparr>)"
| expire: "timer_op s = TOutstanding \<Longrightarrow> read_step delim s Expire (s\<lparr>timer_op := TReady\<rparr>)"
| run_timer: "timer_op s = TReady \<Longrightarrow> \<not> io_crashed s \<Longrightarrow> read_step delim s RunTimer (timer_handler s)"
| run_read: "read_op s = RReady r \<Longrightarrow> \<not> io_crashed s \<Longrightarrow> read_step delim s RunRead (read_piece delim r s)"
| io_ends: "read_op s = RDone \<Longrightarrow> timer_op s = TDone \<Longrightarrow> \<not> io_done s \<Longrightarrow> \<not> io_crashed s \<Longrightarrow>
    read_step delim s IoEnds (s\<lparr>io_done := True\<rparr>)"
| test: "caller s = Testing \<Longrightarrow> read_step delim s Test (caller_test s)"
| wake: "caller s = Sleeping \<Longrightarrow> read_step delim s Wake (s\<lparr>caller := Testing\<rparr>)"
| join_io: "caller s = JoiningIo \<Longrightarrow> io_done s \<Longrightarrow> read_step delim s JoinIo (s\<lparr>caller := ReadReturned\<rparr>)"
| close_begin: "closer s = NoClose \<Longrightarrow> read_step delim s CloseBegin (close_begin s)"
| close_locked: "closer s = LockWait \<Longrightarrow> caller s \<in> {Sleeping, ReadReturned} \<Longrightarrow>
    read_step delim s CloseLocked (close_locked s)"

inductive read_run :: "byte list \<Rightarrow> reading \<Rightarrow> read_input list \<Rightarrow> reading \<Rightarrow> bool" for delim :: "byte list" and s :: reading where
  nil: "read_run delim s [] s"
| snoc: "read_run delim s ins s' \<Longrightarrow> read_step delim s' i s'' \<Longrightarrow> read_run delim s (ins @ [i]) s''"

lemmas read_defs = read_until_start_def cancel_timer_def cancel_read_def timer_handler_def read_handler_def
  read_piece_def caller_test_def close_begin_def close_locked_def Let_def

interpretation read_runs: labelled_runs "read_step delim" "read_run delim" for delim
  by (unfold_locales, auto intro: read_run.intros) (erule read_run.induct; blast)

lemma read_run_invariant:
  assumes "read_run delim s ins s'" and "I s" and "\<And>s i s'. i \<in> set ins \<Longrightarrow> I s \<Longrightarrow> read_step delim s i s' \<Longrightarrow> I s'"
  shows "I s'"
  using assms by (rule read_runs.runs_keep)

section \<open>What is returned\<close>

text \<open>No step can be taken by a handler that captured a local of the call once the caller has returned, and
  the buffer holds what the device had sent, up to the piece that brought the delimiter.\<close>

definition read_inv :: "byte list \<Rightarrow> byte list \<Rightarrow> reading \<Rightarrow> bool" where
  "read_inv delim b s \<longleftrightarrow> (complete s \<longleftrightarrow> read_op s = RDone) \<and>
     (io_done s \<longrightarrow> read_op s = RDone \<and> timer_op s = TDone) \<and>
     (caller s = JoiningIo \<longrightarrow> complete s) \<and> (caller s = ReadReturned \<longrightarrow> io_done s) \<and>
     (complete s \<longrightarrow> timer_op s \<noteq> TOutstanding) \<and>
     (\<forall>bs. bs \<in> set (received s) \<longrightarrow> bs \<noteq> []) \<and>
     (case read_op s of
        ROutstanding \<Rightarrow> buf s = b @ concat (received s) \<and> collect delim b (received s) = (False, buf s, [])
      | RReady (Inl e) \<Rightarrow> buf s = b @ concat (received s) \<and> collect delim b (received s) = (False, buf s, [])
      | RReady (Inr bs) \<Rightarrow> buf s @ bs = b @ concat (received s) \<and>
          collect delim b (received s) = (find_str delim (buf s @ bs) \<noteq> None, buf s @ bs, [])
      | RDone \<Rightarrow> buf s = b @ concat (received s) \<and> collect delim b (received s) = (ec s = None, buf s, []))"

lemma collect_snoc:
  "collect delim b cs = (False, p, []) \<Longrightarrow> collect delim b (cs @ [c]) = (find_str delim (p @ c) \<noteq> None, p @ c, [])"
  by (induction delim b cs rule: collect.induct) (auto split: if_splits)

lemma read_inv_start: "read_inv delim b (read_until_start delim b)"
  by (simp add: read_inv_def read_until_start_def)

lemma read_inv_step:
  assumes "read_step delim s i s'" and "read_inv delim b s"
  shows "read_inv delim b s'"
  using assms(1)
proof cases
  case (data bs)
  with assms(2) collect_snoc [of delim b "received s" "buf s" bs] show ?thesis
    by (auto simp: read_inv_def)
next
  case (run_read r)
  with assms(2) show ?thesis
    by (cases r) (auto simp: read_inv_def read_defs)
qed (use assms(2) in \<open>auto simp: read_inv_def read_defs split: read_op.splits sum.splits\<close>)

lemma read_inv_run: "read_run delim (read_until_start delim b) ins s \<Longrightarrow> read_inv delim b s"
  by (erule read_run_invariant) (simp_all add: read_inv_start read_inv_step)

text \<open>C18 (refinement). When the call returns, both handlers have run, so that no reference to its locals
  is left, and its result is that of the operation \<open>collect\<close> on the pieces the device sent: success with the
  bytes up to the end of the piece that brought the delimiter, or an error with all of them and no
  delimiter.\<close>

theorem read_until_timeout_collects:
  assumes "read_run delim (read_until_start delim b) ins s" and "caller s = ReadReturned"
  shows "collect delim b (received s) = (ec s = None, buf s, []) \<and> (ec s = None \<longleftrightarrow> find_str delim (buf s) \<noteq> None) \<and>
    read_op s = RDone \<and> timer_op s = TDone \<and>
    (\<forall>i s'. read_step delim s i s' \<longrightarrow> i = CloseBegin \<or> i = CloseLocked)"
proof -
  from read_inv_run [OF assms(1)] assms(2)
  have s: "io_done s" "read_op s = RDone" "timer_op s = TDone"
      "collect delim b (received s) = (ec s = None, buf s, [])"
    by (auto simp: read_inv_def)
  have "collect d x cs = (f, p, []) \<Longrightarrow> f \<longleftrightarrow> find_str d p \<noteq> None" for d x cs f p
    by (induction d x cs rule: collect.induct) (auto split: if_splits)
  with s(4) have "ec s = None \<longleftrightarrow> find_str delim (buf s) \<noteq> None" by blast
  moreover have "i = CloseBegin \<or> i = CloseLocked" if "read_step delim s i s'" for i s'
    using that s(1-3) assms(2) by cases auto
  ultimately show ?thesis using s by blast
qed

lemma read_run_Cons: "read_run delim s' ins s'' \<Longrightarrow> read_step delim s i s' \<Longrightarrow> read_run delim s (i # ins) s''"
  by (rule read_runs.runs_Cons)

lemma sample_read:
  "\<exists>s. read_run [13] (read_until_start [13] [7]) [Data [8, 13, 9], RunRead, RunTimer, IoEnds, Test, JoinIo] s \<and>
     caller s = ReadReturned \<and> received s = [[8, 13, 9]] \<and> buf s = [7, 8, 13, 9]"
proof -
  let ?s0 = "read_until_start [13] [7]"
  let ?s1 = "?s0\<lparr>read_op := RReady (Inr [8, 13, 9]), received := received ?s0 @ [[8, 13, 9]]\<rparr>"
  let ?s2 = "read_piece [13] (Inr [8, 13, 9]) ?s1"
  let ?s3 = "timer_handler ?s2"
  let ?s4 = "?s3\<lparr>io_done := True\<rparr>"
  let ?s5 = "caller_test ?s4"
  let ?s6 = "?s5\<lparr>caller := ReadReturned\<rparr>"
  have "read_step [13] ?s0 (Data [8, 13, 9]) ?s1" by (rule read_step.data) (simp_all add: read_until_start_def)
  moreover have "read_step [13] ?s1 RunRead ?s2" by (rule read_step.run_read) (simp_all add: read_until_start_def)
  moreover have "read_step [13] ?s2 RunTimer ?s3" by (rule read_step.run_timer) (simp_all add: read_defs)
  moreover have "read_step [13] ?s3 IoEnds ?s4" by (rule read_step.io_ends) (simp_all add: read_defs)
  moreover have "read_step [13] ?s4 Test ?s5" by (rule read_step.test) (simp add: read_defs)
  moreover have "read_step [13] ?s5 JoinIo ?s6" by (rule read_step.join_io) (simp_all add: read_defs)
  ultimately have "read_run [13] ?s0 [Data [8, 13, 9], RunRead, RunTimer, IoEnds, Test, JoinIo] ?s6"
    by (blast intro: read_run_Cons read_run.nil)
  then show ?thesis by (intro exI [of _ ?s6]) (simp add: read_defs)
qed

theorem read_until_timeout_collects_witness:
  "\<exists>s. read_run [13] (read_until_start [13] [7]) [Data [8, 13, 9], RunRead, RunTimer, IoEnds, Test, JoinIo] s \<and>
     ec s = None \<and> collect [13] [7] [[8, 13, 9]] = (True, [7, 8, 13, 9], [])"
proof -
  obtain s where s: "read_run [13] (read_until_start [13] [7]) [Data [8, 13, 9], RunRead, RunTimer, IoEnds, Test, JoinIo] s"
      "caller s = ReadReturned" "received s = [[8, 13, 9]]" "buf s = [7, 8, 13, 9]"
    using sample_read by blast
  have "ec s = None" using read_until_timeout_collects [OF s(1,2)] s(4) by simp
  with read_until_timeout_collects [OF s(1,2)] s show ?thesis by (intro exI [of _ s]) simp
qed

section \<open>That it returns\<close>

text \<open>The timeout is lost when its handler has run and the read goes on: \<open>cancel\<close> does not reach a piece whose
  handler is queued already, and the library then starts to read the next one.\<close>

definition timeout_lost :: "reading \<Rightarrow> bool" where
  "timeout_lost s \<longleftrightarrow> read_op s = ROutstanding \<and> timer_op s = TDone"

text \<open>Steps that say nothing about the end: the device sends, or the caller looks before the read is over.\<close>

definition idle :: "reading \<Rightarrow> read_input \<Rightarrow> bool" where
  "idle s i \<longleftrightarrow> (\<exists>bs. i = Data bs) \<or> (i = Test \<or> i = Wake) \<and> \<not> complete s"

fun read_rank :: "read_op \<Rightarrow> nat" where
  "read_rank (RReady (Inr bs)) = 3"
| "read_rank ROutstanding = 2"
| "read_rank (RReady (Inl e)) = 1"
| "read_rank RDone = 0"

fun timer_rank :: "timer_op \<Rightarrow> nat" where
  "timer_rank TOutstanding = 2" | "timer_rank TReady = 1" | "timer_rank TDone = 0"

fun caller_rank :: "caller_pc \<Rightarrow> nat" where
  "caller_rank Sleeping = 3" | "caller_rank Testing = 2" | "caller_rank JoiningIo = 1" | "caller_rank ReadReturned = 0"

definition rank :: "reading \<Rightarrow> nat" where
  "rank s = read_rank (read_op s) + timer_rank (timer_op s) + (if io_done s then 0 else 1) +
     (if complete s then caller_rank (caller s) else 3)"

text \<open>No \<open>Close\<close>: the port stays open and the io service does not crash.\<close>

definition undisturbed :: "reading \<Rightarrow> bool" where
  "undisturbed s \<longleftrightarrow> port_open s \<and> \<not> io_crashed s"

lemma undisturbed_step:
  "read_step delim s i s' \<Longrightarrow> i \<noteq> CloseBegin \<Longrightarrow> closer s = NoClose \<Longrightarrow> undisturbed s \<Longrightarrow>
    undisturbed s' \<and> closer s' = NoClose"
  by (cases rule: read_step.cases, assumption) (auto simp: undisturbed_def read_defs split: sum.splits)

lemma caller_rank_le: "caller_rank c \<le> 3"
  by (cases c) simp_all

lemma rank_step:
  assumes "read_step delim s i s'" and "i \<noteq> CloseBegin" "closer s = NoClose" and "undisturbed s" and "read_inv delim b s"
    and "\<not> idle s i"
  shows "rank s' < rank s"
  using assms(1)
proof cases
  case (run_read r)
  with assms show ?thesis
    by (cases r; cases "timer_op s") (auto simp: rank_def read_defs read_inv_def intro: le_less_trans [OF caller_rank_le])
next
  case run_timer
  with assms show ?thesis
    by (cases "read_op s") (auto simp: rank_def read_defs undisturbed_def)
qed (use assms in \<open>auto simp: rank_def idle_def read_defs read_inv_def\<close>)

text \<open>What the program does itself and the passing of time, as against the device and a \<open>Close\<close>.\<close>

abbreviation own_inputs :: "read_input set" where
  "own_inputs \<equiv> {Expire, RunTimer, RunRead, IoEnds, Test, Wake, JoinIo}"

text \<open>The race that loses the timeout: its handler has run, and a piece without the delimiter still waits for
  its own, or the next one is being read already.\<close>

definition raced :: "byte list \<Rightarrow> reading \<Rightarrow> bool" where
  "raced delim s \<longleftrightarrow> timer_op s = TDone \<and>
     (read_op s = ROutstanding \<or> (\<exists>bs. read_op s = RReady (Inr bs) \<and> find_str delim (buf s @ bs) = None))"

lemma read_progress:
  assumes "read_inv delim b s" and "undisturbed s" and "caller s \<noteq> ReadReturned" and "\<not> raced delim s"
  shows "\<exists>i s'. i \<in> own_inputs \<and> \<not> idle s i \<and> read_step delim s i s' \<and> \<not> raced delim s'"
proof (cases "read_op s")
  case ROutstanding
  with assms(4) consider "timer_op s = TOutstanding" | "timer_op s = TReady"
    by (cases "timer_op s") (auto simp: raced_def)
  then show ?thesis
  proof cases
    case 1
    from expire [OF this] show ?thesis by (intro exI [of _ Expire] exI [of _ "s\<lparr>timer_op := TReady\<rparr>"]) (auto simp: idle_def raced_def)
  next
    case 2
    with run_timer [of s delim] assms(2) ROutstanding show ?thesis
      by (intro exI [of _ RunTimer] exI [of _ "timer_handler s"]) (auto simp: idle_def undisturbed_def raced_def read_defs)
  qed
next
  case (RReady r)
  have "\<not> raced delim (read_piece delim r s)"
    using assms(2,4) RReady by (cases r) (auto simp: raced_def read_defs undisturbed_def)
  with run_read [OF RReady] assms(2) show ?thesis
    by (intro exI [of _ RunRead]) (auto simp: idle_def undisturbed_def)
next
  case RDone
  with assms(1) have c: "complete s" "timer_op s \<noteq> TOutstanding" by (auto simp: read_inv_def)
  show ?thesis
  proof (cases "timer_op s")
    case TReady
    with run_timer [of s delim] assms(2) RDone show ?thesis
      by (intro exI [of _ RunTimer] exI [of _ "timer_handler s"]) (auto simp: idle_def undisturbed_def raced_def read_defs)
  next
    case TDone
    show ?thesis
    proof (cases "io_done s")
      case False
      with io_ends [OF RDone TDone] assms(2) RDone show ?thesis
        by (intro exI [of _ IoEnds] exI [of _ "s\<lparr>io_done := True\<rparr>"]) (auto simp: idle_def undisturbed_def raced_def)
    next
      case True
      with c RDone test [of s delim] wake [of s delim] join_io [of s delim] assms(3) show ?thesis
        by (cases "caller s") (fastforce simp: idle_def raced_def caller_test_def)+
    qed
  qed (use c in simp)
qed

lemma rank_le: "rank s \<le> 9"
proof -
  have "read_rank r \<le> 3" for r by (cases r rule: read_rank.cases) simp_all
  moreover have "timer_rank t \<le> 2" for t by (cases t) simp_all
  ultimately have "read_rank (read_op s) \<le> 3" "timer_rank (timer_op s) \<le> 2" by blast+
  with caller_rank_le [of "caller s"] show ?thesis by (auto simp: rank_def)
qed

lemma read_can_return:
  assumes "rank s \<le> n" and "read_inv delim b s" and "undisturbed s" "closer s = NoClose" and "\<not> raced delim s"
  shows "\<exists>ins s'. read_run delim s ins s' \<and> set ins \<subseteq> own_inputs \<and> length ins \<le> n \<and> caller s' = ReadReturned"
  using assms
proof (induction n arbitrary: s rule: less_induct)
  case (less n)
  show ?case
  proof (cases "caller s = ReadReturned")
    case True
    then show ?thesis by (intro exI [of _ "[]"] exI [of _ s]) (simp add: read_run.nil)
  next
    case False
    from read_progress [OF less.prems(2,3) False less.prems(5)] obtain i s' where
      st: "i \<in> own_inputs" "\<not> idle s i" "read_step delim s i s'" "\<not> raced delim s'" by blast
    then have i: "i \<noteq> CloseBegin" by auto
    from rank_step [OF st(3) i less.prems(4,3,2) st(2)] less.prems(1) have r: "rank s' < n" "rank s' \<le> rank s'" by simp_all
    from undisturbed_step [OF st(3) i less.prems(4,3)] less.IH [OF r read_inv_step [OF st(3) less.prems(2)]] st(4)
    obtain ins s'' where "read_run delim s' ins s''" "set ins \<subseteq> own_inputs" "length ins \<le> rank s'" "caller s'' = ReadReturned"
      by blast
    with read_run_Cons [OF _ st(3)] st(1) r(1) show ?thesis
      by (intro exI [of _ "i # ins"] exI [of _ s'']) auto
  qed
qed

fun works :: "read_input \<Rightarrow> bool" where
  "works (Data bs) = False" | "works Test = False" | "works Wake = False" | "works _ = True"

fun is_data :: "read_input \<Rightarrow> bool" where
  "is_data (Data bs) = True" | "is_data _ = False"

lemma rank_change:
  assumes "read_step delim s i s'" and "i \<noteq> CloseBegin" "closer s = NoClose" and "undisturbed s" and "read_inv delim b s"
  shows "rank s' + (if works i then 1 else 0) \<le> rank s + (if is_data i then 1 else 0)"
proof (cases "idle s i")
  case False
  from rank_step [OF assms False] False show ?thesis by (auto simp: idle_def)
next
  case True
  then have "\<not> works i" by (auto simp: idle_def)
  from assms(1) True this show ?thesis
    by cases (auto simp: idle_def rank_def read_defs)
qed

lemma undisturbed_run:
  assumes "read_run delim (read_until_start delim b) ins s" and "CloseBegin \<notin> set ins"
  shows "undisturbed s \<and> closer s = NoClose \<and>
    rank s + length (filter works ins) \<le> 9 + length (filter is_data ins)"
  using assms
proof (induction rule: read_run.induct)
  case nil
  show ?case by (simp add: undisturbed_def read_until_start_def rank_def)
next
  case (snoc ins s i s')
  then have I: "undisturbed s" "closer s = NoClose" "rank s + length (filter works ins) \<le> 9 + length (filter is_data ins)"
    and i: "i \<noteq> CloseBegin" by auto
  from undisturbed_step [OF snoc.hyps(2) i I(2,1)] rank_change [OF snoc.hyps(2) i I(2,1) read_inv_run [OF snoc.hyps(1)]] I(3)
  show ?case by (auto split: if_splits)
qed

lemma raced_run:
  assumes "read_run delim (read_until_start delim b) ins s" and "CloseBegin \<notin> set ins" and "raced delim s"
  shows "\<exists>pre post s1 bs. ins = pre @ RunTimer # post \<and> read_run delim (read_until_start delim b) pre s1 \<and>
    read_op s1 = RReady (Inr bs) \<and> find_str delim (buf s1 @ bs) = None"
  using assms
proof (induction rule: read_run.induct)
  case nil
  then show ?case by (simp add: raced_def read_until_start_def)
next
  case (snoc ins s i s')
  then have u: "undisturbed s" using undisturbed_run [OF snoc.hyps(1)] by simp
  have "raced delim s \<or> i = RunTimer \<and> (\<exists>bs. read_op s = RReady (Inr bs) \<and> find_str delim (buf s @ bs) = None)"
    using snoc.hyps(2)
  proof cases
    case run_timer
    with u snoc.prems(2) show ?thesis
      by (auto simp: raced_def read_defs undisturbed_def split: if_splits)
  next
    case (run_read r)
    with u snoc.prems(2) show ?thesis
      by (cases r) (auto simp: raced_def read_defs undisturbed_def split: if_splits)
  qed (use snoc.prems in \<open>auto simp: raced_def caller_test_def close_locked_def cancel_read_def split: if_splits\<close>)
  then show ?case
  proof
    assume "raced delim s"
    with snoc obtain pre post s1 bs where "ins = pre @ RunTimer # post" "read_run delim (read_until_start delim b) pre s1"
        "read_op s1 = RReady (Inr bs)" "find_str delim (buf s1 @ bs) = None" by auto
    then show ?thesis by (intro exI [of _ pre] exI [of _ "post @ [i]"]) auto
  next
    assume "i = RunTimer \<and> (\<exists>bs. read_op s = RReady (Inr bs) \<and> find_str delim (buf s @ bs) = None)"
    with snoc.hyps(1) show ?thesis by (intro exI [of _ ins] exI [of _ "[]"]) auto
  qed
qed

text \<open>C19 (termination). Without a \<open>Close\<close> the call comes to an end: apart from the polling of the caller it takes
  at most nine steps and one more for every piece that the device sends, and at any time it can return in
  at most nine more of its own steps, when time passes and without any help of the device. The only
  exception is a timer whose handler ran while a piece without the delimiter was waiting for its own.\<close>

theorem read_until_timeout_ends:
  assumes "read_run delim (read_until_start delim b) ins s" and "CloseBegin \<notin> set ins"
  shows "length (filter works ins) \<le> 9 + length (filter is_data ins) \<and>
    ((\<exists>ins' s'. read_run delim s ins' s' \<and> set ins' \<subseteq> {Expire, RunTimer, RunRead, IoEnds, Test, Wake, JoinIo} \<and>
        length ins' \<le> 9 \<and> caller s' = ReadReturned) \<or>
     (\<exists>pre post s1 bs. ins = pre @ RunTimer # post \<and> read_run delim (read_until_start delim b) pre s1 \<and>
        read_op s1 = RReady (Inr bs) \<and> find_str delim (buf s1 @ bs) = None))"
proof -
  note u = undisturbed_run [OF assms]
  have "\<exists>ins' s'. read_run delim s ins' s' \<and> set ins' \<subseteq> own_inputs \<and> length ins' \<le> 9 \<and> caller s' = ReadReturned"
    if "\<not> raced delim s"
    by (rule read_can_return [OF rank_le read_inv_run [OF assms(1)] _ _ that]) (use u in simp_all)
  with u raced_run [OF assms] show ?thesis by (cases "raced delim s") simp_all
qed

theorem read_until_timeout_ends_witness:
  "\<exists>s ins' s'. read_run [13] (read_until_start [13] [7]) [Data [8]] s \<and> read_run [13] s ins' s' \<and>
     set ins' \<subseteq> {Expire, RunTimer, RunRead, IoEnds, Test, Wake, JoinIo} \<and> length ins' \<le> 9 \<and> caller s' = ReadReturned"
proof -
  have "read_step [13] (read_until_start [13] [7]) (Data [8])
      ((read_until_start [13] [7])\<lparr>read_op := RReady (Inr [8]), received := received (read_until_start [13] [7]) @ [[8]]\<rparr>)"
    by (rule read_step.data) (simp_all add: read_until_start_def)
  then obtain s where s: "read_run [13] (read_until_start [13] [7]) [Data [8]] s"
    using read_run_Cons [OF read_run.nil] by blast
  have "\<nexists>pre post. [Data [8]] = pre @ RunTimer # post" by (auto simp: Cons_eq_append_conv)
  with read_until_timeout_ends [OF s] s show ?thesis by auto
qed

text \<open>C20 (liveness). The timeout can be lost: when the timer expires just after a piece without the delimiter has
  come and before its handler has run, the call waits for the device for ever. There is no other way to
  lose it.\<close>

theorem timeout_may_be_lost:
  assumes "delim \<noteq> []" and "x \<noteq> []" and "find_str delim x = None"
  shows "(\<exists>s. read_run delim (read_until_start delim []) [Data x, Expire, RunTimer, RunRead] s \<and> timeout_lost s \<and>
      (\<forall>ins s'. read_run delim s ins s' \<and> set ins \<subseteq> {Expire, RunTimer, RunRead, IoEnds, Test, Wake, JoinIo} \<longrightarrow>
         timeout_lost s' \<and> caller s' \<noteq> ReadReturned)) \<and>
    (\<forall>s i s'. read_step delim s i s' \<and> timeout_lost s' \<and> \<not> timeout_lost s \<and> \<not> io_crashed s' \<longrightarrow>
       timer_op s = TDone \<and> (\<exists>bs. read_op s = RReady (Inr bs) \<and> find_str delim (buf s @ bs) = None))"
proof
  let ?s0 = "read_until_start delim []"
  let ?s1 = "?s0\<lparr>read_op := RReady (Inr x), received := received ?s0 @ [x]\<rparr>"
  let ?s2 = "?s1\<lparr>timer_op := TReady\<rparr>"
  let ?s3 = "timer_handler ?s2"
  let ?s4 = "read_piece delim (Inr x) ?s3"
  have "read_step delim ?s0 (Data x) ?s1"
    by (rule read_step.data) (simp_all add: read_until_start_def assms(1,2))
  moreover have "read_step delim ?s1 Expire ?s2"
    by (rule read_step.expire) (simp add: read_until_start_def)
  moreover have "read_step delim ?s2 RunTimer ?s3"
    by (rule read_step.run_timer) (simp_all add: read_until_start_def)
  moreover have "read_step delim ?s3 RunRead ?s4"
    by (rule read_step.run_read) (simp_all add: read_defs)
  ultimately have run: "read_run delim ?s0 [Data x, Expire, RunTimer, RunRead] ?s4"
    by (blast intro: read_run_Cons read_run.nil)
  have lost: "timeout_lost ?s4"
    by (simp add: timeout_lost_def read_defs assms(1,3))
  have stay: "timeout_lost s' \<and> caller s' \<noteq> ReadReturned"
    if r: "read_run delim ?s4 ins s'" "set ins \<subseteq> {Expire, RunTimer, RunRead, IoEnds, Test, Wake, JoinIo}" for ins s'
  proof -
    have "timeout_lost s' \<and> \<not> complete s' \<and> caller s' \<in> {Testing, Sleeping}"
    proof (rule read_run_invariant [OF r(1)])
      show "timeout_lost ?s4 \<and> \<not> complete ?s4 \<and> caller ?s4 \<in> {Testing, Sleeping}"
        using lost by (simp add: read_defs assms(1,3))
    next
      fix s i s'
      assume i: "i \<in> set ins" and I: "timeout_lost s \<and> \<not> complete s \<and> caller s \<in> {Testing, Sleeping}"
        and st: "read_step delim s i s'"
      from st show "timeout_lost s' \<and> \<not> complete s' \<and> caller s' \<in> {Testing, Sleeping}"
        by cases (use I i r(2) in \<open>auto simp: timeout_lost_def caller_test_def\<close>)
    qed
    then show ?thesis by auto
  qed
  show "\<exists>s. read_run delim ?s0 [Data x, Expire, RunTimer, RunRead] s \<and> timeout_lost s \<and>
      (\<forall>ins s'. read_run delim s ins s' \<and> set ins \<subseteq> {Expire, RunTimer, RunRead, IoEnds, Test, Wake, JoinIo} \<longrightarrow>
         timeout_lost s' \<and> caller s' \<noteq> ReadReturned)"
    using run lost stay by blast
next
  show "\<forall>s i s'. read_step delim s i s' \<and> timeout_lost s' \<and> \<not> timeout_lost s \<and> \<not> io_crashed s' \<longrightarrow>
       timer_op s = TDone \<and> (\<exists>bs. read_op s = RReady (Inr bs) \<and> find_str delim (buf s @ bs) = None)"
    by (auto simp: timeout_lost_def read_defs elim!: read_step.cases split: if_splits sum.splits)
qed

theorem timeout_may_be_lost_witness:
  "\<exists>s. read_run [13] (read_until_start [13] []) [Data [7], Expire, RunTimer, RunRead] s \<and> timeout_lost s"
  using timeout_may_be_lost [of "[13]" "[7]"] by auto

section \<open>Close\<close>

text \<open>\<open>Close\<close> in another thread does not wait until the read is over: the caller gives the mutex
  away while it sleeps. The port can be closed under the read, and then the handler of the timer that
  \<open>Close\<close> has cancelled throws in the thread of the io service, which ends the program.\<close>

theorem close_crashes_reader:
  assumes "delim \<noteq> []"
  shows "\<exists>s s'. read_run delim (read_until_start delim []) [Test, CloseBegin, CloseLocked] s \<and>
    closer s = CloseDone \<and> \<not> port_open s \<and> \<not> complete s \<and> read_step delim s RunTimer s' \<and> io_crashed s' \<and>
    (\<forall>ins s''. read_run delim s' ins s'' \<longrightarrow> io_crashed s'' \<and> caller s'' \<noteq> ReadReturned)"
proof -
  let ?s0 = "read_until_start delim []"
  let ?s1 = "caller_test ?s0"
  let ?s2 = "close_begin ?s1"
  let ?s3 = "close_locked ?s2"
  let ?s4 = "timer_handler ?s3"
  have "read_step delim ?s0 Test ?s1"
    by (rule read_step.test) (simp add: read_until_start_def)
  moreover have "read_step delim ?s1 CloseBegin ?s2"
    by (rule read_step.close_begin) (simp add: read_defs)
  moreover have "read_step delim ?s2 CloseLocked ?s3"
    by (rule read_step.close_locked) (simp_all add: read_defs)
  ultimately have run: "read_run delim ?s0 [Test, CloseBegin, CloseLocked] ?s3"
    by (blast intro: read_run_Cons read_run.nil)
  have crash: "read_step delim ?s3 RunTimer ?s4"
    by (rule read_step.run_timer) (simp_all add: read_defs assms)
  have stay: "io_crashed s'' \<and> caller s'' \<noteq> ReadReturned" if r: "read_run delim ?s4 ins s''" for ins s''
  proof -
    have "io_crashed s'' \<and> \<not> io_done s'' \<and> caller s'' \<noteq> ReadReturned"
    proof (rule read_run_invariant [OF r])
      show "io_crashed ?s4 \<and> \<not> io_done ?s4 \<and> caller ?s4 \<noteq> ReadReturned" by (simp add: read_defs assms)
    next
      fix s i s'
      assume I: "io_crashed s \<and> \<not> io_done s \<and> caller s \<noteq> ReadReturned" and st: "read_step delim s i s'"
      from st show "io_crashed s' \<and> \<not> io_done s' \<and> caller s' \<noteq> ReadReturned"
        by cases (use I in \<open>auto simp: caller_test_def close_begin_def close_locked_def cancel_timer_def cancel_read_def\<close>)
    qed
    then show ?thesis by simp
  qed
  have "closer ?s3 = CloseDone" "\<not> port_open ?s3" "\<not> complete ?s3" "io_crashed ?s4"
    by (simp_all add: read_defs assms)
  with run crash stay show ?thesis by blast
qed

theorem close_crashes_reader_witness:
  "\<exists>s s'. read_run [13] (read_until_start [13] []) [Test, CloseBegin, CloseLocked] s \<and> \<not> complete s \<and>
     read_step [13] s RunTimer s' \<and> io_crashed s'"
  using close_crashes_reader [of "[13]"] by blast

end
