(* ===== verification/ModemReplies.thy ===== *)
theory ModemReplies
  imports ModemLine
begin

text \<open>
  The properties of the commands whose reply is a line of numbers: what the parsers of src/Modem.cpp
  give for the line that a modem prints for any numbers, and that the commands understand it in
  whatever pieces it is received.
\<close>

section \<open>The lines a modem prints\<close>

definition comma :: "int list \<Rightarrow> byte list" where
  "comma ns = concat (map (\<lambda>n. decimal n @ [44, 32]) ns)"

definition session_line :: "int \<Rightarrow> u16 \<Rightarrow> int \<Rightarrow> u16 \<Rightarrow> u16 \<Rightarrow> int \<Rightarrow> byte list" where
  "session_line a b c d e f =
     bytes_of ''+SBDIX: '' @ comma [a, uint b, c, uint d, uint e] @ decimal f @ [13]"

definition status_line :: "bool \<Rightarrow> u16 \<Rightarrow> bool \<Rightarrow> int \<Rightarrow> bool \<Rightarrow> int \<Rightarrow> byte list" where
  "status_line mo b mt d ra f =
     bytes_of ''+SBDSX: '' @ comma [of_bool mo, uint b, of_bool mt, d, of_bool ra] @ decimal f @ [13]"

text \<open>The position of the number after some others, behind a prefix of eight characters.\<close>

definition place :: "int list \<Rightarrow> nat" where
  "place ns = 8 + length (comma ns)"

lemma place_simps:
  "place [] = 8" "Suc (Suc (place ns + length (decimal k))) = place (ns @ [k])"
  by (simp_all add: place_def comma_def)

lemma number_at_place:
  assumes "length pre = 8"
  shows "number_at conv (pre @ comma (ns @ k # ks) @ rest) (place ns) 44 =
      bind_r (conv (decimal k)) (\<lambda>v. Ret (v, place ns + length (decimal k)))"
    and "number_at conv (pre @ comma ns @ decimal k @ [13]) (place ns) 13 =
      bind_r (conv (decimal k)) (\<lambda>v. Ret (v, place ns + length (decimal k)))"
  by (rule number_at_first [where pre = "pre @ comma ns"]; simp add: assms comma_def place_def)+

lemma parse_session_line:
  assumes "boost_converts B"
    and "0 \<le> a" "a < 2147483648" "0 \<le> c" "c < 2147483648" "0 \<le> f" "f < 2147483648"
  shows "parse_Session B (session_line a b c d e f) =
    (if a < 256 \<and> c < 256 \<and> f < 256
     then Ret \<lparr>mo_status = word_of_int a, momsn = b, mt_status = word_of_int c, mtmsn = d, mt_message_len = e,
       mt_queue = word_of_int f\<rparr>
     else Exc BadNumericCast)"
proof -
  let ?p = "bytes_of ''+SBDIX: ''"
  have p: "length ?p = 8" by (simp add: bytes_of_def)
  obtain line where line: "line = session_line a b c d e f" by blast
  have start: "find_str ?p line = Some 0"
    unfolding line session_line_def by (rule find_str_append)
  note at = number_at_place(1) [OF p, where rest = "decimal f @ [13]"]
  have nums: "number_at u8 line 8 44 = bind_r (u8 (decimal a)) (\<lambda>v. Ret (v, place [] + length (decimal a)))"
    "number_at w line (place [a]) 44 = bind_r (w (decimal (uint b))) (\<lambda>v. Ret (v, place [a] + length (decimal (uint b))))"
    "number_at u8 line (place [a, uint b]) 44 =
       bind_r (u8 (decimal c)) (\<lambda>v. Ret (v, place [a, uint b] + length (decimal c)))"
    "number_at w line (place [a, uint b, c]) 44 =
       bind_r (w (decimal (uint d))) (\<lambda>v. Ret (v, place [a, uint b, c] + length (decimal (uint d))))"
    "number_at w line (place [a, uint b, c, uint d]) 44 =
       bind_r (w (decimal (uint e))) (\<lambda>v. Ret (v, place [a, uint b, c, uint d] + length (decimal (uint e))))"
    "number_at u8 line (place [a, uint b, c, uint d, uint e]) 13 =
       bind_r (u8 (decimal f)) (\<lambda>v. Ret (v, place [a, uint b, c, uint d, uint e] + length (decimal f)))"
    for u8 :: "byte list \<Rightarrow> u8 result" and w :: "byte list \<Rightarrow> u16 result"
    using at [of _ "[]"] at [of _ "[a]"] at [of _ "[a, uint b]"] at [of _ "[a, uint b, c]"]
      at [of _ "[a, uint b, c, uint d]"] number_at_place(2) [OF p]
    by (simp_all add: line session_line_def place_simps(1))
  show ?thesis
    unfolding line [symmetric] using assms
    by (simp add: parse_Session_def start nums place_simps(2) attempt_def convert add.assoc)
qed

text \<open>Flags are printed as one digit, of which the parser looks at the character.\<close>

lemma decimal_flag: "decimal (of_bool b) = [if b then 49 else 48]"
proof -
  have "decimal 0 = [48]" "decimal 1 = [49]" by code_simp+
  then show ?thesis by (cases b) simp_all
qed

lemma char_at_place:
  assumes "length pre = 8"
  shows "char_at (pre @ comma (ns @ of_bool b # ks) @ rest) (place ns) = Ret (if b then 49 else 48)"
  using assms by (simp add: char_at_def place_def comma_def decimal_flag nth_append)

lemma parse_status_line:
  assumes "boost_converts B" "- 2147483648 \<le> d" "d < 2147483648" "0 \<le> f" "f < 2147483648"
  shows "parse_Status B status (status_line mo b mt d ra f) =
    (if f < 256
     then Ret (True, \<lparr>mo_flag = mo, status_momsn = b, mt_flag = mt, status_mtmsn = d, ra_flag = ra,
       status_mt_queue = word_of_int f\<rparr>)
     else Exc BadNumericCast)"
proof -
  let ?p = "bytes_of ''+SBDSX: ''"
  let ?mo = "of_bool mo" and ?mt = "of_bool mt" and ?ra = "of_bool ra"
  have p: "length ?p = 8" by (simp add: bytes_of_def)
  obtain line where line: "line = status_line mo b mt d ra f" by blast
  have start: "find_str ?p line = Some 0"
    unfolding line status_line_def by (rule find_str_append)
  note flag = char_at_place [OF p, where rest = "decimal f @ [13]"]
  have flags: "char_at line 8 = Ret (if mo then 49 else 48)"
    "char_at line (place [?mo, uint b]) = Ret (if mt then 49 else 48)"
    "char_at line (place [?mo, uint b, ?mt, d]) = Ret (if ra then 49 else 48)"
    using flag [of "[]"] flag [of "[?mo, uint b]"] flag [of "[?mo, uint b, ?mt, d]"]
    by (simp_all add: line status_line_def place_simps(1) split del: split_of_bool)
  obtain n1 n2 where n: "length (decimal (uint b)) = n1" "length (decimal d) = n2" by blast
  have places: "place [?mo] = 11" "place [?mo, uint b] = 13 + n1" "place [?mo, uint b, ?mt] = 16 + n1"
    "place [?mo, uint b, ?mt, d] = 18 + (n1 + n2)" "place [?mo, uint b, ?mt, d, ?ra] = 21 + (n1 + n2)"
    by (simp_all add: n place_def comma_def decimal_flag split del: split_of_bool)
  note at = number_at_place(1) [OF p, where rest = "decimal f @ [13]"]
  have nums: "number_at w line (place [?mo]) 44 =
       bind_r (w (decimal (uint b))) (\<lambda>v. Ret (v, place [?mo] + length (decimal (uint b))))"
    "number_at i line (place [?mo, uint b, ?mt]) 44 =
       bind_r (i (decimal d)) (\<lambda>v. Ret (v, place [?mo, uint b, ?mt] + length (decimal d)))"
    "number_at u8 line (place [?mo, uint b, ?mt, d, ?ra]) 13 =
       bind_r (u8 (decimal f)) (\<lambda>v. Ret (v, place [?mo, uint b, ?mt, d, ?ra] + length (decimal f)))"
    for u8 :: "byte list \<Rightarrow> u8 result" and w :: "byte list \<Rightarrow> u16 result" and i :: "byte list \<Rightarrow> int result"
    using at [of _ "[?mo]"] at [of _ "[?mo, uint b, ?mt]"] number_at_place(2) [OF p]
    by (simp_all add: line status_line_def split del: split_of_bool)
  show ?thesis
    unfolding line [symmetric] using assms
    by (simp add: parse_Status_def start Let_def flags [unfolded places] nums [unfolded places n] attempt_def convert add.assoc)
qed

text \<open>A reply in two pieces, for the examples.\<close>

definition pieces :: "byte list \<Rightarrow> byte list list" where
  "pieces r = [take 5 r, drop 5 r]"

lemma concat_pieces: "concat (pieces r) = r"
  by (simp add: pieces_def)

lemma find_str_char: "c \<in> set pat \<Longrightarrow> c \<notin> set xs \<Longrightarrow> find_str pat xs = None"
  using find_str_split [of pat xs] by (cases "find_str pat xs") auto

lemma getline_crlf:
  "10 \<notin> set l \<Longrightarrow> getline (l @ 13 # 10 # q, False) x = (l @ [13], (q, False))"
  using getline_split [of "l @ [13]" q x] by simp

definition quality_line :: "int \<Rightarrow> byte list" where
  "quality_line q = bytes_of ''+CSQ:'' @ decimal q"

lemma parse_quality_line:
  assumes "boost_converts B" "0 \<le> q" "q < 2147483648"
  shows "parse_Quality B (quality_line q @ [13]) =
    (if q < 256 then Ret (True, word_of_int q) else Exc BadNumericCast)"
proof -
  have f: "find_str (bytes_of ''+CSQ:'') (quality_line q @ [13]) = Some 0"
    unfolding quality_line_def append_assoc by (rule find_str_append)
  have "number_at conv (quality_line q @ [13]) 5 13 = bind_r (conv (decimal q)) (\<lambda>v. Ret (v, 5 + length (decimal q)))"
    for conv :: "byte list \<Rightarrow> u8 result"
    by (rule number_at_first [where pre = "bytes_of ''+CSQ:''" and rest = "[]"])
      (simp_all add: quality_line_def bytes_of_def)
  with assms show ?thesis
    by (simp add: parse_Quality_def f attempt_def convert)
qed

section \<open>Commands over a line\<close>

context byte_line
begin

lemma session_line_received:
  assumes "boost_converts B" and "m_isOpen m"
    and "incoming (dev m) = echo @ [10] @ session_line a b c d e f @ [10] @ tail @ ok_line @ rem"
    and "10 \<notin> set echo" "79 \<notin> set echo"
    and "0 \<le> a" "a < 2147483648" "0 \<le> c" "c < 2147483648" "0 \<le> f" "f < 2147483648"
  shows "fst (DoSbdSession P B answer m) =
    (if a < 256 \<and> c < 256 \<and> f < 256
     then Ret \<lparr>mo_status = word_of_int a, momsn = b, mt_status = word_of_int c, mtmsn = d, mt_message_len = e,
       mt_queue = word_of_int f\<rparr>
     else Exc BadNumericCast)"
proof -
  have "10 \<notin> set (session_line a b c d e f)" "79 \<notin> set (session_line a b c d e f)"
    by (simp_all add: session_line_def comma_def bytes_of_def)
  with assms have "\<exists>m'. ask P cmd 50 m = (Line (session_line a b c d e f), m') \<and> sent (dev m') = sent (dev m) @ [cmd]" for cmd
    by (intro ask_reply) simp_all
  from this [of "if answer then cmd_line ''AT+SBDIXA'' else cmd_line ''AT+SBDIX''"] assms(2) show ?thesis
    using parse_session_line [OF assms(1,6-11)] by (auto simp: DoSbdSession_def)
qed

lemma status_line_received:
  assumes "boost_converts B" and "m_isOpen m"
    and "incoming (dev m) = echo @ [10] @ status_line mo b mt d ra f @ [10] @ tail @ ok_line @ rem"
    and "10 \<notin> set echo" "79 \<notin> set echo"
    and "- 2147483648 \<le> d" "d < 2147483648" "0 \<le> f" "f < 2147483648"
  shows "fst (SbdGetStatus P B status m) =
    (if f < 256
     then Ret (True, \<lparr>mo_flag = mo, status_momsn = b, mt_flag = mt, status_mtmsn = d, ra_flag = ra,
       status_mt_queue = word_of_int f\<rparr>)
     else Exc BadNumericCast)"
proof -
  have "10 \<notin> set (status_line mo b mt d ra f)" "79 \<notin> set (status_line mo b mt d ra f)"
    by (auto simp: status_line_def comma_def bytes_of_def)
  with assms have "\<exists>m'. ask P (cmd_line ''AT+SBDSX'') 5 m = (Line (status_line mo b mt d ra f), m') \<and>
      sent (dev m') = sent (dev m) @ [cmd_line ''AT+SBDSX'']"
    by (intro ask_reply) simp_all
  with assms(2) show ?thesis
    using parse_status_line [OF assms(1,6-9)] by (auto simp: SbdGetStatus_def)
qed

lemma quality_line_received:
  assumes "boost_converts B" and isopen: "m_isOpen m"
    and reply: "incoming (dev m) = echo @ [13, 10] @ quality_line q @ [13, 10] @ tail @ ok_line @ rem"
    and echo: "10 \<notin> set echo" "69 \<notin> set echo" "79 \<notin> set echo"
    and "0 \<le> q" "q < 2147483648"
  shows "fst (GetSignalQuality P B lastKnown m) =
    (if q < 256 then Ret (True, word_of_int q) else Exc BadNumericCast)"
proof -
  note parse = parse_quality_line [OF assms(1,7,8)]
  have line: "10 \<notin> set (quality_line q)" "69 \<notin> set (quality_line q @ [13])" "79 \<notin> set (quality_line q)"
    using decimal_char [of 69 q] by (auto simp: quality_line_def bytes_of_def)
  have E: "69 \<in> set (bytes_of ''ERROR'')" by (simp add: bytes_of_def)
  show ?thesis
  proof (cases lastKnown)
    case True
    have "\<exists>m'. ask P cmd 5 m = (Line (quality_line q @ [13]), m') \<and> sent (dev m') = sent (dev m) @ [cmd]" for cmd
      by (rule ask_reply [where a = "echo @ [13]" and tail = tail and rem = rem]) (use reply echo line in auto)
    then obtain m' where "ask P (cmd_line ''AT+CSQF?'') 5 m = (Line (quality_line q @ [13]), m')"
      by blast
    with True isopen parse show ?thesis by (simp add: GetSignalQuality_def)
  next
    case False
    obtain s where s: "p_write P (cmd_line ''AT+CSQ?'') (dev m) = (None, s)" "incoming s = incoming (dev m)"
      using writes by blast
    from read_line [of "[]" s, OF _ echo(1)] reply s(2) obtain q1 s1 where
      1: "p_read_until P [13, 10] 50 [] s = (None, echo @ [13, 10] @ q1, s1)"
        "q1 @ incoming s1 = quality_line q @ [13, 10] @ tail @ ok_line @ rem" by auto blast
    from read_line [OF 1(2) line(1)] obtain q2 s2 where
      2: "p_read_until P [13, 10] 50 q1 s1 = (None, quality_line q @ [13, 10] @ q2, s2)"
        "q2 @ incoming s2 = tail @ ok_line @ rem" by blast
    from 2(2) have "find_str ok_line (q2 @ incoming s2) \<noteq> None"
      using find_str_infix [of ok_line tail rem] by simp
    from reads [OF this] obtain p s3 where 3: "p_read_until P ok_line 50 q2 s2 = (None, p, s3)" by blast
    have "find_str (bytes_of ''ERROR'') (echo @ [13]) = None"
      "find_str (bytes_of ''ERROR'') (quality_line q @ [13]) = None"
      using find_str_char [OF E] line(2) echo(2) by simp_all
    with False isopen parse s(1) 1 2 3 show ?thesis
      by (simp add: GetSignalQuality_def getline_crlf echo line)
  qed
qed

end

section \<open>Sessions\<close>

text \<open>C15 (roundtrip). A session on a line that carries the reply of the modem, in any segments, returns the six
  numbers of the reply. If one of those that are stored in eight bits does not fit, the exception of the
  numeric conversion leaves the function, which only handles that of the lexical one.\<close>

theorem session_reply_received:
  assumes "boost_converts B"
    and "concat segs = echo @ [10] @ session_line a b c d e f @ [10] @ tail @ ok_line @ rem"
    and "10 \<notin> set echo" "79 \<notin> set echo"
    and "0 \<le> a" "a < 2147483648" "0 \<le> c" "c < 2147483648" "0 \<le> f" "f < 2147483648"
  shows "fst (DoSbdSession stream_port B answer (on_line segs)) =
    (if a < 256 \<and> c < 256 \<and> f < 256
     then Ret \<lparr>mo_status = word_of_int a, momsn = b, mt_status = word_of_int c, mtmsn = d, mt_message_len = e,
       mt_queue = word_of_int f\<rparr>
     else Exc BadNumericCast)"
  by (rule stream.session_line_received [OF assms(1) _ _ assms(3-)]) (simp_all add: assms(2))

theorem session_reply_received_witness:
  "fst (DoSbdSession stream_port exact_boost True (on_line (pieces ([13] @ [10] @ session_line 32 13 2 0 0 0 @ [10] @
     [13, 10] @ ok_line @ [])))) = Ret \<lparr>mo_status = 32, momsn = 13, mt_status = 2, mtmsn = 0,
       mt_message_len = 0, mt_queue = 0\<rparr> \<and>
   fst (DoSbdSession stream_port exact_boost False (on_line (pieces ([13] @ [10] @ session_line 256 13 2 0 0 0 @ [10] @
     [13, 10] @ ok_line @ [])))) = Exc BadNumericCast"
  using session_reply_received [OF exact_boost_converts concat_pieces, where echo = "[13]" and a = 32 and b = 13 and c = 2 and d = 0 and e = 0
      and f = 0 and tail = "[13, 10]" and rem = "[]"]
    session_reply_received [OF exact_boost_converts concat_pieces, where echo = "[13]" and a = 256 and b = 13 and c = 2 and d = 0
      and e = 0 and f = 0 and tail = "[13, 10]" and rem = "[]"]
  by simp

text \<open>The status of the buffers is received in the same way: three flags and three numbers, of
  which the last has to fit in eight bits.\<close>

theorem status_reply_received:
  assumes "boost_converts B"
    and "concat segs = echo @ [10] @ status_line mo b mt d ra f @ [10] @ tail @ ok_line @ rem"
    and "10 \<notin> set echo" "79 \<notin> set echo"
    and "- 2147483648 \<le> d" "d < 2147483648" "0 \<le> f" "f < 2147483648"
  shows "fst (SbdGetStatus stream_port B status (on_line segs)) =
    (if f < 256
     then Ret (True, \<lparr>mo_flag = mo, status_momsn = b, mt_flag = mt, status_mtmsn = d, ra_flag = ra,
       status_mt_queue = word_of_int f\<rparr>)
     else Exc BadNumericCast)"
  by (rule stream.status_line_received [OF assms(1) _ _ assms(3-)]) (simp_all add: assms(2))

theorem status_reply_received_witness:
  "fst (SbdGetStatus stream_port exact_boost SbdStatus_init (on_line (pieces ([13] @ [10] @
     status_line True 13 False (-1) False 0 @ [10] @ [13, 10] @ ok_line @ [])))) =
   Ret (True, \<lparr>mo_flag = True, status_momsn = 13, mt_flag = False, status_mtmsn = -1, ra_flag = False,
     status_mt_queue = 0\<rparr>)"
  using status_reply_received [OF exact_boost_converts concat_pieces, where echo = "[13]" and mo = True and b = 13
      and mt = False and d = "-1" and ra = False and f = 0 and tail = "[13, 10]" and rem = "[]"] by simp

section \<open>The signal quality\<close>

text \<open>C34 (equivalence). The two queries of the signal quality read the reply in different ways, up to the final
  OK at once or line by line with a look at each; on a line that brings the same reply in any segments
  they give the same result.\<close>

theorem quality_reply_received:
  assumes "boost_converts B"
    and segs: "concat segs = echo @ [13, 10] @ quality_line q @ [13, 10] @ tail @ ok_line @ rem"
    and echo: "10 \<notin> set echo" "69 \<notin> set echo" "79 \<notin> set echo"
    and "0 \<le> q" "q < 2147483648"
  shows "fst (GetSignalQuality stream_port B lastKnown (on_line segs)) =
    (if q < 256 then Ret (True, word_of_int q) else Exc BadNumericCast)"
  by (rule stream.quality_line_received [OF assms(1) _ _ assms(3-)]) (simp_all add: assms(2))

theorem quality_reply_received_witness:
  "\<forall>lastKnown. fst (GetSignalQuality stream_port exact_boost lastKnown (on_line (pieces ([] @ [13, 10] @
     quality_line 4 @ [13, 10] @ [13, 10] @ ok_line @ [])))) = Ret (True, 4)"
  using quality_reply_received [OF exact_boost_converts concat_pieces, where echo = "[]" and q = 4
      and tail = "[13, 10]" and rem = "[]"] by simp

end
