(* ===== verification/ModemProps.thy ===== *)
theory ModemProps
  imports ModemReplies
begin

text \<open>
  The properties of the modem commands: the checksum on machines with and without signed characters,
  independence of the byte order, the parsers of replies against the printed form of the numbers, and
  the transfers over a port that delivers a stream of bytes in segments.
\<close>

section \<open>The checksum\<close>

lemma char_sum_eq: "char_sum h payload = word_of_int (\<Sum>c\<leftarrow>payload. char_int h c)"
proof -
  have "foldl (\<lambda>sum c. sum + word_of_int (char_int h c)) a payload =
    a + (word_of_int (\<Sum>c\<leftarrow>payload. char_int h c) :: u32)" for a
    by (induction payload arbitrary: a) simp_all
  then show ?thesis by (simp add: char_sum_def)
qed

lemma message_crc_eq: "message_crc h payload = word_of_int (\<Sum>c\<leftarrow>payload. char_int h c)"
proof -
  have m: "(0xFFFF :: u32) = mask 16"
    by (simp add: mask_eq_exp_minus_1)
  have "ucast (w AND 0xFFFF) = (ucast w :: u16)" for w :: u32
    unfolding m by (rule bit_word_eqI) (simp add: bit_simps)
  moreover have "ucast (word_of_int i :: u32) = (word_of_int i :: u16)" for i
    by (rule bit_word_eqI) (simp add: bit_simps)
  ultimately show ?thesis
    by (simp add: message_crc_def char_sum_eq)
qed

text \<open>What the modem computes: the sum of the bytes.\<close>

definition byte_sum :: "byte list \<Rightarrow> nat" where
  "byte_sum payload = (\<Sum>c\<leftarrow>payload. unat c)"

definition high_bytes :: "byte list \<Rightarrow> nat" where
  "high_bytes payload = length (filter (\<lambda>b. 128 \<le> uint b) payload)"

lemma sum_char_int:
  "(\<Sum>c\<leftarrow>payload. char_int h c) = int (byte_sum payload) - (if char_signed h then 256 * int (high_bytes payload) else 0)"
proof (induction payload)
  case Nil
  then show ?case by (simp add: byte_sum_def high_bytes_def)
next
  case (Cons c payload)
  have "byte_sum (c # payload) = unat c + byte_sum payload"
    "high_bytes (c # payload) = (if 128 \<le> uint c then 1 else 0) + high_bytes payload"
    by (simp_all add: byte_sum_def high_bytes_def)
  with Cons show ?case
    by (simp add: char_int_def sint_byte)
qed

lemma message_crc_value:
  "message_crc h payload = of_nat (byte_sum payload) -
     (if char_signed h then of_nat (256 * high_bytes payload) else 0)"
  by (simp add: message_crc_eq sum_char_int)

lemma message_crc_correct_iff:
  "message_crc h payload = of_nat (byte_sum payload) \<longleftrightarrow> \<not> char_signed h \<or> 256 dvd high_bytes payload"
proof -
  have "(of_nat (256 * n) :: u16) = 0 \<longleftrightarrow> 256 dvd n" for n
  proof -
    have "(of_nat (256 * n) :: u16) = 0 \<longleftrightarrow> 65536 dvd 256 * n"
      by (simp only: word_of_nat_eq_0_iff) simp
    also have "\<dots> \<longleftrightarrow> 256 dvd n"
      using nat_mult_dvd_cancel_disj [of 256 256 n] by simp
    finally show ?thesis .
  qed
  then show ?thesis by (simp add: message_crc_value)
qed

text \<open>Both unions are in network order on every machine.\<close>

lemma isBigEndian_iff: "isBigEndian h = big_endian h"
  by (simp add: isBigEndian_def store_def bytes_le_def upt_conv_Cons)

lemma union_chars_be16: "union_chars h w = be16 w"
  by (simp add: union_chars_def Let_def isBigEndian_iff store_def bytes_le_2 be16_def)

lemma union_word_be16: "union_word h (be16 w) = w"
proof -
  have "load h (store h 2 w) = w" by (simp add: load_store)
  then show ?thesis
    by (simp add: union_word_def isBigEndian_iff be16_def store_def bytes_le_2 split: if_splits)
qed

text \<open>The transfer of messages does not depend on the byte order of the machine, only on
  the sign of \<open>char\<close>: on any port, two machines that agree on that write the same bytes, read the same
  messages and fail in the same cases.\<close>

theorem transfer_byte_order_independent:
  assumes "char_signed h = char_signed h'" and "\<forall>s c s'. p_read P 2 s = Some (Inr c, s') \<longrightarrow> length c = 2"
  shows "WriteMessage h P B payload m = WriteMessage h' P B payload m \<and> ReadMessage h P m = ReadMessage h' P m"
proof -
  have crc: "message_crc h = message_crc h'"
    using assms(1) by (simp add: fun_eq_iff message_crc_eq char_int_def)
  have word: "union_word h c = union_word h' c" if "length c = 2" for c
  proof -
    let ?h = "\<lparr>big_endian = True, char_signed = False, stale = 0\<rparr>"
    have "store ?h (length c) (load ?h c :: u16) = c"
      by (rule store_load) (simp add: that)
    then have "be16 (load ?h c) = c"
      unfolding that by (simp add: store_def bytes_le_2 be16_def)
    then show ?thesis by (metis union_word_be16)
  qed
  have "WriteMessage h P B payload m = WriteMessage h' P B payload m"
    unfolding WriteMessage_def crc union_chars_be16 ..
  moreover have "ReadMessage h P m = ReadMessage h' P m"
    unfolding ReadMessage_def crc
    by (auto simp: Let_def word assms(2) split: option.splits sum.splits prod.splits)
  ultimately show ?thesis ..
qed

theorem transfer_byte_order_independent_witness:
  "WriteMessage (x86\<lparr>big_endian := True\<rparr>) stream_port exact_boost [1, 0x80] (on_line []) =
     WriteMessage x86 stream_port exact_boost [1, 0x80] (on_line []) \<and>
   ReadMessage (x86\<lparr>big_endian := True\<rparr>) stream_port (on_line []) = ReadMessage x86 stream_port (on_line [])"
  by (rule transfer_byte_order_independent) (auto simp: stream_port_def Let_def x86_def split: if_splits)

section \<open>Transfers over a line\<close>

lemma ReadMessage_crc:
  assumes "1 \<le> length payload" and "length payload < 65536" and m: "m_isOpen m"
    "dev m = \<lparr>segments = [echo @ [13], be16 (of_nat (length payload)) @ payload @ be16 crc @ rest], written = ws\<rparr>"
  shows "map_prod id fst (ReadMessage h stream_port m) =
    (if crc = message_crc h payload then (Ret (), payload) else (Exc (RuntimeError ''CRC check error''), []))"
proof -
  have n: "unat (of_nat (length payload) :: u16) = length payload"
    using assms(2) by (rule unat_of_nat_u16)
  have c: "collect [13] [] ((echo @ [13]) # xs) = (True, echo @ [13], xs)" for xs
    using find_str_infix [of "[13]" echo "[]"] by (intro collect_first) simp_all
  have nz: "payload \<noteq> []" using assms(1) by auto
  note stream_read [where xs = "be16 w" for w, simp] stream_read [where xs = payload, simp]
  show ?thesis
    by (auto simp: ReadMessage_def m c union_word_be16 n nz Let_def
        simp del: collect.simps split: prod.splits)
qed

lemma ReadMessage_line:
  assumes "1 \<le> length payload" and "length payload < 65536" and "m_isOpen m"
    and "dev m = \<lparr>segments = [echo @ [13],
        be16 (of_nat (length payload)) @ payload @ be16 (of_nat (byte_sum payload)) @ rest], written = ws\<rparr>"
  shows "map_prod id fst (ReadMessage h stream_port m) =
    (if \<not> char_signed h \<or> 256 dvd high_bytes payload then (Ret (), payload)
     else (Exc (RuntimeError ''CRC check error''), []))"
  unfolding ReadMessage_crc [OF assms] message_crc_correct_iff [of h payload, symmetric]
  by (simp add: eq_commute)

text \<open>C17 (roundtrip). Reading a message that comes with its length and a checksum, after a segment with the
  echo of the command: the payload arrives exactly if the checksum is the sum of the bytes, less 256 for each byte from 0x80 on where characters
  are signed; it is else rejected as damaged, and what was read is cleared. So a machine reads
  what a machine of the same signedness writes, whatever their byte orders, and reads what a modem
  sends, which adds up bytes, always if its characters are unsigned, and else exactly if the number of bytes
  from 0x80 on is a multiple of 256.\<close>

theorem read_message_checksum:
  assumes "1 \<le> length payload" and "length payload < 65536"
  shows "map_prod id fst (ReadMessage h stream_port (on_line [echo @ [13],
        be16 (of_nat (length payload)) @ payload @ be16 crc @ rest])) =
    (if crc = of_nat (byte_sum payload) - (if char_signed h then of_nat (256 * high_bytes payload) else 0)
     then (Ret (), payload) else (Exc (RuntimeError ''CRC check error''), [])) \<and>
    (of_nat (byte_sum payload) - (if char_signed h then of_nat (256 * high_bytes payload) else 0) =
       (of_nat (byte_sum payload) :: u16) \<longleftrightarrow> \<not> char_signed h \<or> 256 dvd high_bytes payload)"
  unfolding message_crc_value [symmetric] message_crc_correct_iff
  using ReadMessage_crc [OF assms, of "on_line _"] by (simp add: on_line_def)

theorem read_message_checksum_witness:
  "map_prod id fst (ReadMessage x86 stream_port (on_line [[] @ [13],
      be16 (of_nat (length [0x80 :: byte])) @ [0x80] @ be16 (of_nat (byte_sum [0x80])) @ []])) =
   (Exc (RuntimeError ''CRC check error''), [])"
  using read_message_checksum [of "[0x80]" x86 "[]" "of_nat (byte_sum [0x80])" "[]"]
  by (simp add: high_bytes_def byte_sum_def x86_def)

text \<open>When the same reply comes in one segment, the read up to the first carriage return takes all of it
  into a stream buffer that is then discarded, and the read of the length never returns.\<close>

lemma ReadMessage_read_ahead:
  assumes "m_isOpen m" and "dev m = \<lparr>segments = [(echo @ [13]) @ rem], written = ws\<rparr>"
  shows "fst (ReadMessage h stream_port m) = NoReturn"
proof -
  have "collect [13] [] [echo @ 13 # rem] = (True, echo @ 13 # rem, [])"
    using find_str_infix [of "[13]" echo rem] by (intro collect_first) simp_all
  then show ?thesis
    by (simp add: ReadMessage_def assms stream_blocks del: collect.simps)
qed

theorem read_ahead_loses_message:
  "fst (ReadMessage h stream_port (on_line [echo @ [13] @ be16 (of_nat (length payload)) @ payload @
     be16 (of_nat (byte_sum payload)) @ [13, 10] @ ok_line])) = NoReturn"
  by (rule ReadMessage_read_ahead) (simp_all add: on_line_def)

text \<open>C16 (functional). Sending a message on a line where the modem announces that it is ready and then reports a
  code: the code is returned, and the line carries the command with the length, the message and two
  bytes of checksum, the sum of the bytes less 256 for each byte from 0x80 on where characters are signed.
  That is the sum which the modem expects exactly if the characters are unsigned or a multiple of 256 of them
  are from 0x80 on.\<close>

theorem write_message_wire:
  assumes B: "boost_converts B" and len: "1 \<le> length payload" "length payload \<le> 1960"
    and report: "concat segs = echo @ [10] @ decimal (uint code) @ [13, 10] @ tail @ ok_line @ rem"
    and echo: "10 \<notin> set echo" "79 \<notin> set echo"
  shows "\<exists>crc m'. WriteMessage h stream_port B payload (on_line ((noise @ bytes_of ''READY'' @ [13, 10]) # segs)) =
      (Ret code, m') \<and>
    written (dev m') = [cmd_line (''AT+SBDWB='' @ show_nat (length payload)), payload, be16 crc] \<and>
    crc = of_nat (byte_sum payload) - (if char_signed h then of_nat (256 * high_bytes payload) else 0) \<and>
    (crc = of_nat (byte_sum payload) \<longleftrightarrow> \<not> char_signed h \<or> 256 dvd high_bytes payload)"
proof -
  let ?ready = "bytes_of ''READY'' @ [13, 10]"
  have "collect ?ready [] ((noise @ ?ready) # segs) = (True, noise @ ?ready, segs)"
    using find_str_infix [of ?ready noise "[]"] by (intro collect_first) (simp_all add: bytes_of_def)
  then have 1: "p_read_until stream_port ?ready 10 [] \<lparr>segments = (noise @ ?ready) # segs, written = ws\<rparr> =
      (None, noise @ ?ready, \<lparr>segments = segs, written = ws\<rparr>)" for ws
    by (simp del: collect.simps)
  have "\<exists>p s'. p_read_until stream_port ok_line 5 [] \<lparr>segments = segs, written = ws\<rparr> = (None, p, s') \<and>
      second_line p = decimal (uint code) @ [13] \<and> written s' = ws" for ws
    using stream.read_reply [of "\<lparr>segments = segs, written = ws\<rparr>" echo "decimal (uint code) @ [13]" tail rem 5]
      report echo by simp
  then obtain p s' where 2: "p_read_until stream_port ok_line 5 [] \<lparr>segments = segs, written =
      [cmd_line (''AT+SBDWB='' @ show_nat (length payload)), payload, be16 (message_crc h payload)]\<rparr> = (None, p, s')"
    "second_line p = decimal (uint code) @ [13]"
    "written s' = [cmd_line (''AT+SBDWB='' @ show_nat (length payload)), payload, be16 (message_crc h payload)]"
    by blast
  have 3: "number_at (cast_u8 B) (decimal (uint code) @ [13]) 0 13 = Ret (code, length (decimal (uint code)))"
    using number_at_first [of _ "[]" "decimal (uint code)" 13 "[]" 0 "cast_u8 B"] convert(3) [OF B, of "uint code"]
      uint_bounded [of code] uint_nonnegative [of code] order_trans [of "-2147483648" 0 "uint code"] by simp
  from len have "payload \<noteq> []" by auto
  with len show ?thesis
    unfolding message_crc_value [symmetric]
    by (intro exI [of _ "message_crc h payload"])
      (simp add: WriteMessage_def on_line_def 1 2 [unfolded append.simps] 3 attempt_def union_chars_be16 message_crc_correct_iff
        IEMoPayload_MaxPayloadLength_def del: stream_port_simps(4))
qed

theorem write_message_wire_witness:
  "\<exists>crc m'. WriteMessage x86 stream_port exact_boost [0x41, 0x80]
      (on_line (([] @ bytes_of ''READY'' @ [13, 10]) # pieces ([13] @ [10] @ decimal (uint (0 :: u8)) @ [13, 10] @
        [13, 10] @ ok_line @ []))) = (Ret 0, m') \<and>
    written (dev m') = [cmd_line (''AT+SBDWB='' @ show_nat (length [0x41 :: byte, 0x80])), [0x41, 0x80], be16 crc] \<and>
    crc = of_nat (byte_sum [0x41, 0x80]) - (if char_signed x86 then of_nat (256 * high_bytes [0x41, 0x80]) else 0) \<and>
    (crc = of_nat (byte_sum [0x41, 0x80]) \<longleftrightarrow> \<not> char_signed x86 \<or> 256 dvd high_bytes [0x41, 0x80])"
  by (rule write_message_wire [OF exact_boost_converts _ _ concat_pieces]) simp_all

text \<open>When the report of the modem does not come, the code that looks at it takes the empty
  line for one: the range it converts leaves the string.\<close>

theorem write_timeout_undefined:
  assumes "1 \<le> length payload" "length payload \<le> 1960"
  shows "fst (WriteMessage h stream_port B payload (on_line [noise @ bytes_of ''READY'' @ [13, 10]])) = Undef"
proof -
  let ?ready = "bytes_of ''READY'' @ [13, 10]"
  have 1: "collect ?ready [] [noise @ ?ready] = (True, noise @ ?ready, [])"
    using find_str_infix [of ?ready noise "[]"] by (intro collect_first) (simp_all add: bytes_of_def)
  have "number_at conv (second_line []) 0 13 = Undef" for conv :: "byte list \<Rightarrow> u8 result"
    by (simp add: second_line_def getline_def number_at_def find_first_of_def)
  moreover have "collect ok_line [] [] = (False, [], [])" by (simp add: ok_line_def)
  moreover from assms have "payload \<noteq> []" by auto
  ultimately show ?thesis
    using assms
    by (simp add: WriteMessage_def on_line_def 1 attempt_def IEMoPayload_MaxPayloadLength_def del: collect.simps)
qed

theorem write_timeout_undefined_witness:
  "fst (WriteMessage x86 stream_port exact_boost [1] (on_line [[] @ bytes_of ''READY'' @ [13, 10]])) = Undef"
  by (rule write_timeout_undefined) simp_all

section \<open>Opening\<close>

text \<open>When the device is opened but an option cannot be set, the exception leaves the port open:
  the next call of \<open>Open\<close> succeeds without configuring the device and without the sentinel that
  keeps the service running.\<close>

theorem open_after_failed_option:
  assumes "\<not> m_isOpen m" and "p_open P (m_deviceName m) (dev m) = (None, s)"
    and "p_set_option P ''baud_rate 19200'' s = (Some msg, s')"
  shows "\<exists>m'. Open P m = (Exc (SystemError msg), m') \<and> Open P m' = (Ret (), m') \<and>
    m_isOpen m' \<and> m_busy m' = m_busy m"
  using assms by (simp add: Open_def)

theorem open_after_failed_option_witness:
  "\<exists>m'. Open (stream_port\<lparr>p_set_option := \<lambda>_ s. (Some ''Input/output error'', s)\<rparr>)
      ((on_line [])\<lparr>m_isOpen := False, m_busy := False\<rparr>) = (Exc (SystemError ''Input/output error''), m') \<and>
    Open (stream_port\<lparr>p_set_option := \<lambda>_ s. (Some ''Input/output error'', s)\<rparr>) m' = (Ret (), m') \<and>
    m_isOpen m' \<and> m_busy m' = False"
  using open_after_failed_option [of "(on_line [])\<lparr>m_isOpen := False, m_busy := False\<rparr>"
    "stream_port\<lparr>p_set_option := \<lambda>_ s. (Some ''Input/output error'', s)\<rparr>"] by simp

end
