(* ===== verification/LockFile.thy ===== *)
theory LockFile
  imports Prelude Runs
begin

text \<open>
  The lock files of the modem examples: examples/modem/*/LockFile.hpp and LockFile.cpp (three equal
  copies) and the part of the \<open>main\<close> functions that waits for the lock. The file system is a map from
  names to contents; processes that wait for the same device are interleaved.
\<close>

section \<open>The class\<close>

type_synonym files = "string \<rightharpoonup> string"

record LockFile =
  m_created :: bool
  m_name :: string

text \<open>What follows the last slash, or all of it.\<close>

definition base_name :: "string \<Rightarrow> string" where
  "base_name tty = rev (takeWhile (\<lambda>c. c \<noteq> CHR ''/'') (rev tty))"

definition LockFile_new :: "string \<Rightarrow> LockFile" where
  "LockFile_new tty = \<lparr>m_created = False, m_name = ''/var/lock/LCK..'' @ base_name tty\<rparr>"

definition present :: "files \<Rightarrow> LockFile \<Rightarrow> bool" where
  "present fs l \<longleftrightarrow> fs (m_name l) \<noteq> None"

text \<open>\<open>%10d\<close> and a new line.\<close>

definition pid_line :: "nat \<Rightarrow> string" where
  "pid_line pid = replicate (10 - length (show_nat pid)) (CHR '' '') @ show_nat pid @ [CHR 0x0A]"

text \<open>\<open>open\<close> with \<open>O_EXCL\<close> fails if the file exists, or for another reason (\<open>denied\<close>); the caller is not told.\<close>

definition create :: "bool \<Rightarrow> nat \<Rightarrow> files \<Rightarrow> LockFile \<Rightarrow> files \<times> LockFile" where
  "create denied pid fs l =
     (if m_created l then (fs, l)
      else if denied \<or> fs (m_name l) \<noteq> None then (fs, l)
      else (fs(m_name l \<mapsto> pid_line pid), l\<lparr>m_created := True\<rparr>))"

definition destroy_lock :: "files \<Rightarrow> LockFile \<Rightarrow> files \<times> LockFile" where
  "destroy_lock fs l =
     (if m_created l then (fs(m_name l := None), l\<lparr>m_created := False\<rparr>) else (fs, l))"

section \<open>Processes\<close>

text \<open>A process polls until no lock is present, then creates its own, uses the device and returns from
  \<open>main\<close>, which destroys its lock. A signal ends the polling.\<close>

datatype lock_pc = Polling | Creating | Using | Ended

record process =
  pc :: lock_pc
  lock :: LockFile
  pid :: nat

record system =
  files :: files
  procs :: "process list"

inductive lock_step :: "system \<Rightarrow> system \<Rightarrow> bool" where
  poll: "i < length (procs s) \<Longrightarrow> procs s ! i = p \<Longrightarrow> pc p = Polling \<Longrightarrow>
    lock_step s (s\<lparr>procs := (procs s)[i := p\<lparr>pc := if present (files s) (lock p) then Polling else Creating\<rparr>]\<rparr>)"
| acquire: "i < length (procs s) \<Longrightarrow> procs s ! i = p \<Longrightarrow> pc p = Creating \<Longrightarrow>
    create denied (pid p) (files s) (lock p) = (fs, l) \<Longrightarrow>
    lock_step s (s\<lparr>files := fs, procs := (procs s)[i := p\<lparr>pc := Using, lock := l\<rparr>]\<rparr>)"
| release: "i < length (procs s) \<Longrightarrow> procs s ! i = p \<Longrightarrow> pc p = Using \<or> pc p = Polling \<Longrightarrow>
    destroy_lock (files s) (lock p) = (fs, l) \<Longrightarrow>
    lock_step s (s\<lparr>files := fs, procs := (procs s)[i := p\<lparr>pc := Ended, lock := l\<rparr>]\<rparr>)"

inductive lock_reach :: "system \<Rightarrow> system \<Rightarrow> bool" for s :: system where
  here: "lock_reach s s"
| step: "lock_reach s s' \<Longrightarrow> lock_step s' s'' \<Longrightarrow> lock_reach s s''"

interpretation lock_states: reachability lock_step lock_reach
  by (unfold_locales, auto intro: lock_reach.intros) (erule lock_reach.induct; blast)

definition newcomer :: "process \<Rightarrow> bool" where
  "newcomer p \<longleftrightarrow> pc p = Polling \<and> \<not> m_created (lock p)"

section \<open>The invariant\<close>

text \<open>A created lock is a file that no other process has created.\<close>

definition locks_ok :: "system \<Rightarrow> bool" where
  "locks_ok s \<longleftrightarrow>
     (\<forall>i < length (procs s). m_created (lock (procs s ! i)) \<longrightarrow>
        files s (m_name (lock (procs s ! i))) = Some (pid_line (pid (procs s ! i))) \<and>
        (\<forall>j < length (procs s). j \<noteq> i \<longrightarrow> m_created (lock (procs s ! j)) \<longrightarrow>
           m_name (lock (procs s ! j)) \<noteq> m_name (lock (procs s ! i))))"

lemma locks_ok_step: "lock_step s s' \<Longrightarrow> locks_ok s \<Longrightarrow> locks_ok s'"
proof (induction rule: lock_step.induct)
  case (poll i s p)
  then show ?case by (simp add: locks_ok_def nth_list_update) metis
next
  case (acquire i s p denied fs l)
  then show ?case
    by (auto simp: locks_ok_def create_def nth_list_update split: if_splits) (metis option.distinct(1))
next
  case (release i s p fs l)
  then show ?case
    by (auto simp: locks_ok_def destroy_lock_def nth_list_update split: if_splits)
qed

lemma locks_ok_reach: "lock_reach s s' \<Longrightarrow> locks_ok s \<Longrightarrow> locks_ok s'"
  by (erule lock_states.reach_keeps) (simp_all add: locks_ok_step)

lemma locks_ok_newcomers: "\<forall>p \<in> set (procs s). newcomer p \<Longrightarrow> locks_ok s"
  by (simp add: locks_ok_def newcomer_def)

text \<open>Two processes that poll, find nothing, and create, in this order.\<close>

definition two_polling :: "string \<Rightarrow> string \<Rightarrow> nat \<Rightarrow> nat \<Rightarrow> system" where
  "two_polling tty tty' n n' = \<lparr>files = Map.empty, procs = [\<lparr>pc = Polling, lock = LockFile_new tty, pid = n\<rparr>,
     \<lparr>pc = Polling, lock = LockFile_new tty', pid = n'\<rparr>]\<rparr>"

definition both_using :: "files \<Rightarrow> LockFile \<Rightarrow> LockFile \<Rightarrow> nat \<Rightarrow> nat \<Rightarrow> system" where
  "both_using fs l l' n n' = \<lparr>files = fs, procs = [\<lparr>pc = Using, lock = l, pid = n\<rparr>, \<lparr>pc = Using, lock = l', pid = n'\<rparr>]\<rparr>"

lemma two_using:
  assumes "create False n Map.empty (LockFile_new tty) = (fs, l)" and "create False n' fs (LockFile_new tty') = (fs', l')"
  shows "lock_reach (two_polling tty tty' n n') (both_using fs' l l' n n')"
proof -
  let ?p = "\<lambda>c l n. \<lparr>pc = c, lock = l, pid = n\<rparr>" and ?l = "LockFile_new tty" and ?l' = "LockFile_new tty'"
  let ?s1 = "\<lparr>files = Map.empty, procs = [?p Creating ?l n, ?p Polling ?l' n']\<rparr>"
  let ?s2 = "\<lparr>files = Map.empty, procs = [?p Creating ?l n, ?p Creating ?l' n']\<rparr>"
  let ?s3 = "\<lparr>files = fs, procs = [?p Using l n, ?p Creating ?l' n']\<rparr>"
  have 1: "lock_step (two_polling tty tty' n n') ?s1"
    using lock_step.poll [of 0 "two_polling tty tty' n n'"] by (simp add: two_polling_def present_def)
  have 2: "lock_step ?s1 ?s2"
    using lock_step.poll [of 1 ?s1] by (simp add: present_def)
  have 3: "lock_step ?s2 ?s3"
    using lock_step.acquire [of 0 ?s2 _ False fs l] assms(1) by simp
  have 4: "lock_step ?s3 (both_using fs' l l' n n')"
    using lock_step.acquire [of 1 ?s3 _ False fs' l'] assms(2) by (simp add: both_using_def)
  show ?thesis
    by (rule lock_reach.step [OF lock_reach.step [OF lock_reach.step [OF lock_reach.step [OF lock_reach.here 1] 2] 3] 4])
qed

text \<open>C40 (invariant). The lock itself is exclusive: among processes that only meet in the file system, the
  file of a process that has created its lock exists, with the number of that process. No other process
  has created the same one, all others that name it find it present, and one that polls does not stop
  waiting, but for a signal, before the lock is given up.\<close>

theorem created_lock_exclusive:
  assumes "lock_reach s s'" and "\<forall>p \<in> set (procs s). newcomer p"
    and "i < length (procs s')" and "m_created (lock (procs s' ! i))"
  shows "files s' (m_name (lock (procs s' ! i))) = Some (pid_line (pid (procs s' ! i))) \<and>
    (\<forall>j < length (procs s'). j \<noteq> i \<and> m_name (lock (procs s' ! j)) = m_name (lock (procs s' ! i)) \<longrightarrow>
       \<not> m_created (lock (procs s' ! j)) \<and> present (files s') (lock (procs s' ! j)) \<and>
       (\<forall>s''. lock_step s' s'' \<and> pc (procs s' ! j) = Polling \<longrightarrow> pc (procs s'' ! j) \<in> {Polling, Ended}))"
proof -
  note ok = locks_ok_reach [OF assms(1) locks_ok_newcomers [OF assms(2)]]
  have its_file: "files s' (m_name (lock (procs s' ! i))) = Some (pid_line (pid (procs s' ! i)))"
    using ok assms(3,4) by (simp add: locks_ok_def)
  have waits: "pc (procs s'' ! j) \<in> {Polling, Ended}"
    if "lock_step s' s''" "pc (procs s' ! j) = Polling" "present (files s') (lock (procs s' ! j))" "j < length (procs s')" for j s''
    using that by cases (auto simp: nth_list_update)
  show ?thesis
  proof (intro conjI allI impI, rule its_file)
    fix j assume j: "j < length (procs s')" "j \<noteq> i \<and> m_name (lock (procs s' ! j)) = m_name (lock (procs s' ! i))"
    with its_file show "present (files s') (lock (procs s' ! j))" by (simp add: present_def)
    from j ok assms(3,4) show "\<not> m_created (lock (procs s' ! j))" by (auto simp: locks_ok_def)
  qed (use its_file waits in \<open>auto simp: present_def\<close>)
qed

theorem created_lock_exclusive_witness:
  "\<exists>s. lock_reach (two_polling ''/dev/ttyS0'' ''/dev/ttyS0'' 7 8) s \<and> m_created (lock (procs s ! 0)) \<and>
     files s (m_name (lock (procs s ! 0))) = Some (pid_line 7) \<and> pc (procs s ! 1) = Polling \<and>
     present (files s) (lock (procs s ! 1))"
proof -
  let ?l = "LockFile_new ''/dev/ttyS0''"
  let ?p = "\<lambda>c l n. \<lparr>pc = c, lock = l, pid = n\<rparr>"
  let ?fs = "[m_name ?l \<mapsto> pid_line 7]" and ?l' = "?l\<lparr>m_created := True\<rparr>"
  let ?s0 = "two_polling ''/dev/ttyS0'' ''/dev/ttyS0'' 7 8"
  let ?s1 = "\<lparr>files = Map.empty, procs = [?p Creating ?l 7, ?p Polling ?l 8]\<rparr>"
  let ?t = "\<lparr>files = ?fs, procs = [?p Using ?l' 7, ?p Polling ?l 8]\<rparr>"
  have 1: "lock_step ?s0 ?s1"
    using lock_step.poll [of 0 ?s0] by (simp add: two_polling_def present_def)
  have "create False 7 Map.empty ?l = (?fs, ?l')"
    by (simp add: create_def LockFile_new_def)
  then have 2: "lock_step ?s1 ?t"
    using lock_step.acquire [of 0 ?s1 _ False ?fs ?l'] by simp
  note reach = lock_reach.step [OF lock_reach.step [OF lock_reach.here 1] 2]
  from created_lock_exclusive [OF reach, of 0] have
    "files ?t (m_name (lock (procs ?t ! 0))) = Some (pid_line 7)" "present (files ?t) (lock (procs ?t ! 1))"
    by (auto simp: two_polling_def newcomer_def LockFile_new_def)
  with reach show ?thesis by (intro exI [of _ ?t]) simp
qed

text \<open>The device is not exclusive: \<open>main\<close> does not look whether the lock was created, so two
  processes that find no lock before either has created one both go on to use the device.\<close>

theorem device_not_exclusive:
  "\<exists>s. lock_reach (two_polling tty tty n n') s \<and> map pc (procs s) = [Using, Using]"
proof -
  obtain fs l where 1: "create False n Map.empty (LockFile_new tty) = (fs, l)" by fastforce
  obtain fs' l' where 2: "create False n' fs (LockFile_new tty) = (fs', l')" by fastforce
  have "map pc (procs (both_using fs' l l' n n')) = [Using, Using]"
    by (simp add: both_using_def)
  with two_using [OF 1 2] show ?thesis by - (rule exI, rule conjI)
qed

end
