(* ===== verification/ModemClients.thy ===== *)
theory ModemClients
  imports ModemProps LockFile
begin

text \<open>
  The programs of examples/modem: what \<open>main\<close> of the sender does with the modem and its lock once it has
  stopped waiting, one round of the receiver and of the statistics. Standard output is modelled where it
  tells the result.
\<close>

section \<open>Outcomes\<close>

text \<open>An exception that no handler takes ends the program without running destructors.\<close>

datatype outcome = ExitSuccess | ExitFailure string | Terminate mexc | Crash | Hang

text \<open>\<open>catch (std::runtime_error& e)\<close>: the error of the system is one, those of the conversions are not.\<close>

fun what :: "mexc \<Rightarrow> string option" where
  "what (RuntimeError s) = Some s"
| "what (SystemError s) = Some s"
| "what BadLexicalCast = None"
| "what BadNumericCast = None"

definition caught :: "'a result \<times> 's modem \<Rightarrow> (string \<Rightarrow> string) \<Rightarrow> ('a \<Rightarrow> 's modem \<Rightarrow> outcome \<times> 's modem) \<Rightarrow>
    outcome \<times> 's modem" where
  "caught x text k = (case x of (r, m) \<Rightarrow> (case r of
     Ret a \<Rightarrow> k a m
   | Exc e \<Rightarrow> (case what e of Some w \<Rightarrow> (ExitFailure (text w), m) | None \<Rightarrow> (Terminate e, m))
   | Undef \<Rightarrow> (Crash, m)
   | NoReturn \<Rightarrow> (Hang, m)))"

definition uncaught :: "'a result \<times> 's modem \<Rightarrow> ('a \<Rightarrow> 's modem \<Rightarrow> outcome \<times> 's modem) \<Rightarrow> outcome \<times> 's modem" where
  "uncaught x k = (case x of (r, m) \<Rightarrow> (case r of
     Ret a \<Rightarrow> k a m
   | Exc e \<Rightarrow> (Terminate e, m)
   | Undef \<Rightarrow> (Crash, m)
   | NoReturn \<Rightarrow> (Hang, m)))"

section \<open>The sender\<close>

definition store_error :: "u8 \<Rightarrow> string" where
  "store_error res = ''Store message error: '' @
     (if res = 1 then ''write timeout'' else if res = 2 then ''bad CRC''
      else if res = 3 then ''size is not correct'' else show_nat (unat res))"

definition sender_session ::
  "host \<Rightarrow> 's port \<Rightarrow> boost \<Rightarrow> byte list \<Rightarrow> 's modem \<Rightarrow> outcome \<times> 's modem" where
  "sender_session h P B payload m =
     caught (Open P m) (\<lambda>w. ''Can't open modem: '' @ w) (\<lambda>_ m.
     uncaught (NetGetStatus P B m) (\<lambda>(ok, netstatus) m.
       if \<not> ok then (ExitFailure ''Can't get network status.'', m)
       else if netstatus \<noteq> 1 \<and> netstatus \<noteq> 5
       then (ExitFailure (''ISU not ready ('' @ show_nat (unat netstatus) @ '').''), m)
       else
     uncaught (GetSignalQuality P B False m) (\<lambda>(_, quality) m.
       if quality = 0 then (ExitFailure ''Signal quality too low.'', m)
       else
     uncaught (SbdClearBuffers P eClearMObuffer m) (\<lambda>ok m.
       if \<not> ok then (ExitFailure ''Can't clear MO message buffer.'', m)
       else
     caught (WriteMessage h P B payload m) (\<lambda>w. ''Store message error: '' @ w) (\<lambda>res m.
       if res \<noteq> 0 then (ExitFailure (store_error res), m)
       else
     caught (DoSbdSession P B False m) (\<lambda>w. '' error: '' @ w) (\<lambda>st m.
       if mo_status st < 5 then (ExitSuccess, m) else (ExitFailure ''Message transfer FAILURE.'', m)))))))"

fun exits :: "outcome \<Rightarrow> bool" where
  "exits ExitSuccess = True"
| "exits (ExitFailure w) = True"
| "exits _ = False"

definition modemDevice :: string where
  "modemDevice = ''/dev/ttyS0''"

text \<open>\<open>main\<close> from the arguments on, when the lock file is gone and no signal has come; \<open>argv\<close> has the bytes of
  the arguments, which contain no NUL.\<close>

definition sender_main ::
  "host \<Rightarrow> 's port \<Rightarrow> boost \<Rightarrow> byte list list \<Rightarrow> bool \<Rightarrow> nat \<Rightarrow> files \<Rightarrow> 's \<Rightarrow> outcome \<times> files \<times> 's modem" where
  "sender_main h P B argv denied n fs s =
     (let m = Modem_new modemDevice s in
      if length argv \<noteq> 2 then (ExitFailure ''Usage'', fs, m)
      else
        let (fs, l) = create denied n fs (LockFile_new modemDevice);
            (out, m) = sender_session h P B (argv ! 1) m
        in if exits out
           then (let (fs, l) = destroy_lock fs l in (out, fs, Modem_destroy P m))
           else (out, fs, m))"

text \<open>The sender removes its lock file whenever it exits, with success or not; but when an
  exception of another type than \<open>std::runtime_error\<close> ends it, the lock file stays, and every later
  program that wants the device waits for it for ever.\<close>

theorem lock_released_on_exit:
  assumes "sender_main h P B [prog, message] False n fs s = (out, fs', m')"
    and "\<not> present fs (LockFile_new modemDevice)"
  shows "if exits out then fs' = fs else present fs' (LockFile_new modemDevice)"
  using assms
  by (auto simp: sender_main_def Let_def create_def destroy_lock_def present_def LockFile_new_def
      split: prod.splits if_splits)

section \<open>A transfer\<close>

text \<open>A reply that comes at once, to a modem on the line.\<close>

definition reply :: "byte list \<Rightarrow> byte list" where
  "reply b = [13, 10] @ b @ [10, 13, 10] @ ok_line"

definition over :: "'s modem \<Rightarrow> byte list list \<Rightarrow> byte list list \<Rightarrow> line modem" where
  "over m segs ws = \<lparr>m_deviceName = m_deviceName m, m_isOpen = True, m_busy = True,
     dev = \<lparr>segments = segs, written = ws\<rparr>\<rparr>"

lemma over_simps [simp]:
  "m_isOpen (over m segs ws)" "dev (over m segs ws) = \<lparr>segments = segs, written = ws\<rparr>"
  "(over m segs ws)\<lparr>dev := \<lparr>segments = segs', written = ws'\<rparr>\<rparr> = over m segs' ws'"
  by (simp_all add: over_def)

lemma collect_ok: "collect ok_line [] ((front @ ok_line) # segs) = (True, front @ ok_line, segs)"
  using find_str_infix [of ok_line front "[]"] by (intro collect_first) (simp_all add: ok_line_def)

lemma collect_ok_reply: "collect ok_line [] (reply b # segs) = (True, reply b, segs)"
  using collect_ok [of "[13, 10] @ b @ [10, 13, 10]"] by (simp add: reply_def)

lemma second_line_reply: "10 \<notin> set b \<Longrightarrow> second_line (reply b) = b"
  using second_line_split [of "[13]" b] by (simp add: reply_def)

lemma ask_over:
  "10 \<notin> set b \<Longrightarrow> ask stream_port cmd t (over m (reply b # segs) ws) = (Line b, over m segs (ws @ [cmd]))"
  by (simp add: ask_def collect_ok_reply second_line_reply del: collect.simps)

lemma Open_over:
  "\<not> m_isOpen m \<Longrightarrow> dev m = \<lparr>segments = (front @ ok_line) # segs, written = ws\<rparr> \<Longrightarrow>
   Open stream_port m = (Ret (), over m segs (ws @ [cmd_line ''ATQ0V1'' @ [0]]))"
  by (simp add: Open_def collect_ok over_def del: collect.simps)

definition creg_line :: "byte list \<Rightarrow> int \<Rightarrow> byte list" where
  "creg_line x n = bytes_of ''+CREG:'' @ x @ [44] @ decimal n @ [13]"

lemma NetGetStatus_over:
  assumes "boost_converts B" and "0 \<le> n" "n < 256" and "44 \<notin> set x" "10 \<notin> set x"
  shows "NetGetStatus stream_port B (over m (reply (creg_line x n) # segs) ws) =
    (Ret (True, word_of_int n), over m segs (ws @ [cmd_line ''AT+CREG?'']))"
proof -
  let ?p = "bytes_of ''+CREG:''"
  have p: "length ?p = 6" by (simp add: bytes_of_def)
  have start: "find_str ?p (creg_line x n) = Some 0"
    unfolding creg_line_def by (rule find_str_append)
  have comma: "find_first_of 44 (creg_line x n) 6 = Some (6 + length x)"
    using find_first_of_append [OF assms(4) p] by (simp add: creg_line_def)
  have number: "number_at conv (creg_line x n) (7 + length x) 13 =
      bind_r (conv (decimal n)) (\<lambda>v. Ret (v, 7 + length x + length (decimal n)))"
    for conv :: "byte list \<Rightarrow> u8 result"
    by (rule number_at_first [where pre = "?p @ x @ [44]" and rest = "[]"]) (simp_all add: creg_line_def p)
  have "10 \<notin> set (creg_line x n)"
    using assms(5) by (simp add: creg_line_def bytes_of_def)
  with assms show ?thesis
    by (simp add: NetGetStatus_def ask_over parse_NetStatus_def start comma number attempt_def convert)
qed

lemma SbdClearBuffers_over:
  "SbdClearBuffers stream_port clear (over m (reply [48, 13] # segs) ws) =
   (Ret True, over m segs (ws @ [bytes_of ''AT+SBDD'' @ [48 + buffers_number clear, 13]]))"
  by (simp add: SbdClearBuffers_def ask_over parse_zero_def char_at_def)

lemma GetSignalQuality_over:
  assumes "boost_converts B" and "0 \<le> q" "q < 256"
  shows "GetSignalQuality stream_port B False (over m (reply (quality_line q @ [13]) # segs) ws) =
    (Ret (True, word_of_int q), over m segs (ws @ [cmd_line ''AT+CSQ?'']))"
proof -
  let ?l = "quality_line q"
  have line: "10 \<notin> set ?l" "69 \<notin> set (?l @ [13])"
    using decimal_char [of 69 q] by (auto simp: quality_line_def bytes_of_def)
  have E: "69 \<in> set (bytes_of ''ERROR'')" by (simp add: bytes_of_def)
  have r: "reply (?l @ [13]) = [13, 10] @ ?l @ [13, 10] @ [13, 10] @ ok_line"
    by (simp add: reply_def)
  have 1: "collect [13, 10] [] (reply (?l @ [13]) # segs) = (True, [13, 10] @ ?l @ [13, 10] @ [13, 10] @ ok_line, segs)"
    unfolding r using find_str_infix [of "[13, 10]" "[]"] by (intro collect_first) simp_all
  have 2: "collect [13, 10] (?l @ [13, 10] @ [13, 10] @ ok_line) segs = (True, ?l @ [13, 10] @ [13, 10] @ ok_line, segs)"
    using find_str_infix [of "[13, 10]" ?l] by (cases segs) simp_all
  have 3: "collect ok_line ([13, 10] @ ok_line) segs = (True, [13, 10] @ ok_line, segs)"
    using find_str_infix [of ok_line "[13, 10]" "[]"] by (cases segs) simp_all
  have "find_str (bytes_of ''ERROR'') [13] = None" "find_str (bytes_of ''ERROR'') (?l @ [13]) = None"
    by (rule find_str_char [OF E]; use line(2) in simp)+
  with 1 2 3 parse_quality_line [OF assms(1,2)] assms(3) show ?thesis
    using getline_crlf [of "[]"] by (simp add: GetSignalQuality_def getline_crlf line del: collect.simps)
qed

definition ready :: "byte list" where
  "ready = bytes_of ''READY'' @ [13, 10]"

lemma WriteMessage_over:
  assumes "boost_converts B" and "1 \<le> length payload" "length payload \<le> 1960"
  shows "WriteMessage h stream_port B payload (over m ((front @ ready) # reply (decimal (uint code) @ [13]) # segs) ws) =
    (Ret code, over m segs (ws @ [cmd_line (''AT+SBDWB='' @ show_nat (length payload)), payload,
       be16 (message_crc h payload)]))"
proof -
  have 1: "collect (bytes_of ''READY'' @ [13, 10]) [] ((front @ ready) # xs) = (True, front @ ready, xs)" for xs
    using find_str_infix [of ready front "[]"] by (intro collect_first) (simp_all add: ready_def)
  have 2: "number_at (cast_u8 B) (decimal (uint code) @ [13]) 0 13 = Ret (code, length (decimal (uint code)))"
    using number_at_first [of _ "[]" "decimal (uint code)" 13 "[]" 0 "cast_u8 B"] convert(3) [OF assms(1), of "uint code"]
      uint_bounded [of code] uint_nonnegative [of code] order_trans [of "-2147483648" 0 "uint code"] by simp
  from assms(2) have "payload \<noteq> []" by auto
  with assms(3) show ?thesis
    by (simp add: WriteMessage_def 1 2 collect_ok_reply second_line_reply attempt_def union_chars_be16
        IEMoPayload_MaxPayloadLength_def del: collect.simps)
qed

lemma DoSbdSession_over:
  assumes "boost_converts B" and "0 \<le> a" "a < 256" "0 \<le> c" "c < 256" "0 \<le> f" "f < 256"
  shows "DoSbdSession stream_port B False (over m (reply (session_line a b c d e f) # segs) ws) =
    (Ret \<lparr>mo_status = word_of_int a, momsn = b, mt_status = word_of_int c, mtmsn = d, mt_message_len = e,
       mt_queue = word_of_int f\<rparr>, over m segs (ws @ [cmd_line ''AT+SBDIX'']))"
proof -
  have "10 \<notin> set (session_line a b c d e f)"
    by (simp add: session_line_def comma_def bytes_of_def)
  with assms show ?thesis
    by (simp add: DoSbdSession_def ask_over parse_session_line)
qed

text \<open>The replies of a modem that is registered, has signal and accepts the message.\<close>

definition good_replies :: "byte list \<Rightarrow> int \<Rightarrow> int \<Rightarrow> byte list \<Rightarrow> byte list list" where
  "good_replies x n q session =
     [ok_line, reply (creg_line x n), reply (quality_line q @ [13]), reply [48, 13], ready,
      reply (decimal 0 @ [13]), reply session]"

text \<open>C22 (functional). The sender from opening the port to the end of the session, over a modem that is
  registered, has signal and takes the message: it writes the eight commands in order, the message and
  its checksum among them, and exits with success exactly if the status of the session is below 5.\<close>

theorem sender_transfers:
  assumes B: "boost_converts B" and "1 \<le> length payload" "length payload \<le> 1960"
    and "n = 1 \<or> n = 5" and "0 < q" "q < 256" and "44 \<notin> set x" "10 \<notin> set x"
    and "0 \<le> a" "a < 256" "0 \<le> c" "c < 256" "0 \<le> f" "f < 256"
  shows "\<exists>m. sender_session h stream_port B payload
      (Modem_new device \<lparr>segments = good_replies x n q (session_line a b c d e f), written = []\<rparr>) =
    (if a < 5 then ExitSuccess else ExitFailure ''Message transfer FAILURE.'', m) \<and>
    written (dev m) = [cmd_line ''ATQ0V1'' @ [0], cmd_line ''AT+CREG?'', cmd_line ''AT+CSQ?'',
      cmd_line ''AT+SBDD0'', cmd_line (''AT+SBDWB='' @ show_nat (length payload)), payload,
      be16 (message_crc h payload), cmd_line ''AT+SBDIX'']"
proof -
  let ?m = "Modem_new device \<lparr>segments = good_replies x n q (session_line a b c d e f), written = []\<rparr>"
  have m: "\<not> m_isOpen ?m" "dev ?m = \<lparr>segments = ([] @ ok_line) # tl (good_replies x n q (session_line a b c d e f)),
     written = []\<rparr>"
    by (simp_all add: Modem_new_def good_replies_def)
  have n: "0 \<le> n" "n < 256" "(word_of_int n :: u8) = 1 \<or> (word_of_int n :: u8) = 5"
    using assms(4) by auto
  have q: "0 \<le> q" "(word_of_int q :: u8) \<noteq> 0"
    using assms(5,6) by (auto simp: word_of_int_eq_0_iff zdvd_not_zless)
  have a: "(word_of_int a :: u8) < 5 \<longleftrightarrow> a < 5"
    using assms(9,10) by (simp add: word_less_def uint_word_of_int_eq take_bit_int_eq_self)
  have clear: "bytes_of ''AT+SBDD'' @ [48, 13] = cmd_line ''AT+SBDD0''"
    by (simp add: cmd_line_def bytes_of_def)
  have stored: "WriteMessage h stream_port B payload (over m' (ready # reply (decimal 0 @ [13]) # segs) ws) =
      (Ret 0, over m' segs (ws @ [cmd_line (''AT+SBDWB='' @ show_nat (length payload)), payload, be16 (message_crc h payload)]))"
    for m' :: "line modem" and segs ws
    using WriteMessage_over [OF B assms(2,3), of h m' "[]" 0] by simp
  note Open = Open_over [OF m]
  show ?thesis
    using assms n q a Open clear
    by (simp add: sender_session_def caught_def uncaught_def good_replies_def NetGetStatus_over GetSignalQuality_over
        SbdClearBuffers_over stored DoSbdSession_over)
qed

theorem sender_transfers_witness:
  "\<exists>m. sender_session x86 stream_port exact_boost (bytes_of ''hi'')
      (Modem_new modemDevice \<lparr>segments = good_replies (bytes_of ''002'') 1 4 (session_line 0 1 0 0 0 0), written = []\<rparr>) =
    (ExitSuccess, m) \<and> length (written (dev m)) = 8"
  using sender_transfers [OF exact_boost_converts, of "bytes_of ''hi''" 1 4 "bytes_of ''002''" 0 0 0 x86
      modemDevice 1 0 0]
  by (auto simp: bytes_of_def)

section \<open>The receiver and the statistics\<close>

fun show_hex :: "nat \<Rightarrow> string" where
  "show_hex n = (let d = n mod 16; c = (if d < 10 then char_of (48 + d) else char_of (87 + d)) in
     if n < 16 then [c] else show_hex (n div 16) @ [c])"

declare show_hex.simps [simp del]

text \<open>\<open>if (c < ' ')\<close> compares with the sign of the machine, and \<open>int(c)\<close> is printed as an unsigned number.\<close>

definition print_char :: "host \<Rightarrow> byte \<Rightarrow> byte list" where
  "print_char h c =
     (if char_int h c < 32 then bytes_of ('' 0x'' @ show_hex (unat (word_of_int (char_int h c) :: u32)) @ '' '')
      else [c])"

definition print_payload :: "host \<Rightarrow> byte list \<Rightarrow> byte list" where
  "print_payload h payload =
     bytes_of (''Message received ('' @ show_nat (length payload) @ '' bytes): '') @ concat (map (print_char h) payload)"

text \<open>A handler of \<open>std::runtime_error\<close> around the rest of a round, which reports it.\<close>

definition reported :: "'a result \<Rightarrow> ('a \<Rightarrow> byte list list result) \<Rightarrow> byte list list result" where
  "reported r k = (case r of
     Exc e \<Rightarrow> (case what e of Some w \<Rightarrow> Ret [bytes_of (''Can't get SBD status: '' @ w)] | None \<Rightarrow> Exc e)
   | _ \<Rightarrow> bind_r r k)"

text \<open>One call of \<open>loop\<close>: the lines that it prints when it comes to its end, where the timer for the next
  one is started.\<close>

definition receiver_loop :: "host \<Rightarrow> 's port \<Rightarrow> boost \<Rightarrow> bool \<Rightarrow> 's modem \<Rightarrow> byte list list result \<times> 's modem" where
  "receiver_loop h P B aborted m =
     (if aborted then (Ret [], m)
      else case SbdClearBuffers P eClearMObuffer m of (cleared, m) \<Rightarrow>
        if cleared = Ret False then (Ret [bytes_of ''Can't clear MO message buffer.''], m)
        else if cleared \<noteq> Ret True then (bind_r cleared (\<lambda>_. Ret []), m)
        else case DoSbdSession P B False m of (session, m) \<Rightarrow>
          (case session of
             Ret st \<Rightarrow>
               if mt_status st = 1 then (case ReadMessage h P m of (r, payload, m) \<Rightarrow>
                 (reported r (\<lambda>_. Ret [print_payload h payload]), m))
               else if mt_status st = 2 then (Ret [bytes_of
                 ''An error occurred while attempting to perform a mailbox check or receive a message from the GSS.''], m)
               else (Ret [], m)
           | _ \<Rightarrow> (reported session (\<lambda>_. Ret []), m)))"

text \<open>One call of \<open>worker\<close> of the statistics: the two numbers that it prints behind the time, when it comes to
  its end.\<close>

definition stat_worker :: "'s port \<Rightarrow> boost \<Rightarrow> bool \<Rightarrow> 's modem \<Rightarrow> (u8 \<times> u8) option result \<times> 's modem" where
  "stat_worker P B aborted m =
     (if aborted then (Ret None, m)
      else case NetGetStatus P B m of (status, m) \<Rightarrow>
       (case status of
         Ret (ok, netstatus) \<Rightarrow>
           if netstatus = 1 \<or> netstatus = 5
           then (case GetSignalQuality P B False m of (q, m) \<Rightarrow>
             (bind_r q (\<lambda>(ok, signalQty). Ret (Some (netstatus, signalQty))), m))
           else (Ret (Some (netstatus, 0)), m)
       | _ \<Rightarrow> (bind_r status (\<lambda>_. Ret None), m)))"

text \<open>C23 (functional). A round of the receiver over a modem that has received a message. If the echo of the
  command that fetches it comes in a segment of its own, the message is shown on machines with unsigned
  characters; with signed ones it is rejected as damaged unless a multiple of 256 of its bytes are from
  0x80 on. If all of the reply comes in the segment of the echo, the round does not return.\<close>

theorem receiver_shows_message:
  assumes "boost_converts B" and "1 \<le> length payload" "length payload < 65536"
    and "0 \<le> a" "a < 256" "0 \<le> f" "f < 256"
  shows "fst (receiver_loop h stream_port B False (over m [reply [48, 13], reply (session_line a b 1 d e f), echo @ [13],
      be16 (of_nat (length payload)) @ payload @ be16 (of_nat (byte_sum payload)) @ rest] ws)) =
    Ret [if \<not> char_signed h \<or> 256 dvd high_bytes payload then print_payload h payload
         else bytes_of ''Can't get SBD status: CRC check error''] \<and>
    fst (receiver_loop h stream_port B False (over m [reply [48, 13], reply (session_line a b 1 d e f),
      (echo @ [13]) @ be16 (of_nat (length payload)) @ payload @ be16 (of_nat (byte_sum payload)) @ rest] ws)) = NoReturn"
proof -
  let ?m = "\<lambda>segs. over m segs (ws @ [bytes_of ''AT+SBDD'' @ [48, 13]] @ [cmd_line ''AT+SBDIX''])"
  let ?msg = "[echo @ [13], be16 (of_nat (length payload)) @ payload @ be16 (of_nat (byte_sum payload)) @ rest]"
  obtain r p m' where read: "ReadMessage h stream_port (?m ?msg) = (r, p, m')" by (metis prod_cases3)
  have "map_prod id fst (ReadMessage h stream_port (?m ?msg)) =
    (if \<not> char_signed h \<or> 256 dvd high_bytes payload then (Ret (), payload)
     else (Exc (RuntimeError ''CRC check error''), []))"
    by (rule ReadMessage_line [OF assms(2,3)]) simp_all
  then have "(r, p) = (if \<not> char_signed h \<or> 256 dvd high_bytes payload then (Ret (), payload)
     else (Exc (RuntimeError ''CRC check error''), []))"
    unfolding read by simp
  moreover note clear = SbdClearBuffers_over [of eClearMObuffer, simplified]
  moreover note session = DoSbdSession_over [OF assms(1,4,5), of 1 f, simplified]
  ultimately have shown: "fst (receiver_loop h stream_port B False (over m (reply [48, 13] # reply (session_line a b 1 d e f) # ?msg) ws)) =
    Ret [if \<not> char_signed h \<or> 256 dvd high_bytes payload then print_payload h payload
         else bytes_of ''Can't get SBD status: CRC check error'']"
    using assms(6,7) read by (cases "\<not> char_signed h \<or> 256 dvd high_bytes payload")
      (simp_all add: receiver_loop_def reported_def clear session)
  obtain r p m' where blocks: "ReadMessage h stream_port (?m [(echo @ [13]) @ concat (tl ?msg)]) = (r, p, m')" by (metis prod_cases3)
  have "fst (ReadMessage h stream_port (?m [(echo @ [13]) @ concat (tl ?msg)])) = NoReturn"
    by (rule ReadMessage_read_ahead) simp_all
  with blocks have r: "r = NoReturn" by simp
  have "fst (receiver_loop h stream_port B False
      (over m [reply [48, 13], reply (session_line a b 1 d e f), (echo @ [13]) @ concat (tl ?msg)] ws)) = NoReturn"
    using blocks r assms(6,7) by (simp add: receiver_loop_def reported_def clear session)
  with shown show ?thesis by simp
qed

theorem receiver_shows_message_witness:
  "fst (receiver_loop x86 stream_port exact_boost False (over (Modem_new modemDevice ())
      [reply [48, 13], reply (session_line 0 1 1 2 3 0), [] @ [13],
       be16 (of_nat (length [104, 105, 0x80 :: byte])) @ [104, 105, 0x80] @
         be16 (of_nat (byte_sum [104, 105, 0x80])) @ []] [])) =
    Ret [bytes_of ''Can't get SBD status: CRC check error'']"
  using receiver_shows_message [OF exact_boost_converts, of "[104, 105, 0x80]" 0 0 x86 "Modem_new modemDevice ()" 1 2 3 "[]" "[]" "[]"]
  by (simp add: x86_def high_bytes_def)

text \<open>A round of the statistics over a modem that is registered prints the status and the quality.\<close>

lemma stat_worker_over:
  assumes "boost_converts B" and "n = 1 \<or> n = 5" and "0 \<le> q" "q < 256" and "44 \<notin> set x" "10 \<notin> set x"
  shows "fst (stat_worker stream_port B False (over m [reply (creg_line x n), reply (quality_line q @ [13])] ws)) =
    Ret (Some (word_of_int n, word_of_int q))"
  using assms by (auto simp: stat_worker_def NetGetStatus_over GetSignalQuality_over)

end
