(* ===== verification/ModemMains.thy ===== *)
theory ModemMains
  imports ModemClients Runs
begin

text \<open>
  The \<open>main\<close> functions of examples/modem/receiver and examples/modem/stat: waiting for the lock of the
  device, the rounds that a timer starts, and the signal that ends them. One thread runs the io service;
  other programs create and remove their lock files at any time.
\<close>

section \<open>The state\<close>

text \<open>At the test of the outer loop, at the test of the inner one, in \<open>run\<close> of the inner loop, behind it, in \<open>run\<close>
  of the outer loop, or ended.\<close>

datatype main_pc = AtWhile | AtPoll | InPoll | Acquiring | InMainRun | Finished outcome

text \<open>The wait on a timer: none, running, its handler queued because it has expired, or because it was
  cancelled.\<close>

datatype timer_wait = NoWait | Armed | Due | Cut

record 's mmain =
  mpc :: main_pc
  shutdown :: bool
  signal_armed :: bool
  wait :: timer_wait
  lockfile :: LockFile
  fsys :: files
  mdm :: "'s modem"

definition mmain_init :: "files \<Rightarrow> 's \<Rightarrow> 's mmain" where
  "mmain_init fs s = \<lparr>mpc = AtWhile, shutdown = False, signal_armed = True, wait = NoWait,
     lockfile = LockFile_new modemDevice, fsys = fs, mdm = Modem_new modemDevice s\<rparr>"

section \<open>What both programs do\<close>

text \<open>The end of the scope of the lock file.\<close>

definition release_lock :: "'s mmain \<Rightarrow> 's mmain" where
  "release_lock m = (let (fs, l) = destroy_lock (fsys m) (lockfile m) in m\<lparr>fsys := fs, lockfile := l\<rparr>)"

text \<open>What follows a call that may throw where nothing handles the exception.\<close>

definition or_end :: "'a result \<Rightarrow> 's mmain \<Rightarrow> 's mmain \<Rightarrow> 's mmain" where
  "or_end r m k = (case r of Ret _ \<Rightarrow> k | Exc e \<Rightarrow> m\<lparr>mpc := Finished (Terminate e)\<rparr>
     | Undef \<Rightarrow> m\<lparr>mpc := Finished Crash\<rparr> | NoReturn \<Rightarrow> m\<lparr>mpc := Finished Hang\<rparr>)"

definition outer_test :: "'s mmain \<Rightarrow> 's mmain" where
  "outer_test m = (if shutdown m then m\<lparr>mpc := Finished ExitSuccess\<rparr>
     else m\<lparr>mpc := AtPoll, lockfile := LockFile_new modemDevice\<rparr>)"

text \<open>A call of the function of the round, which starts the timer again unless it was aborted.\<close>

definition call_round :: "(bool \<Rightarrow> 's modem \<Rightarrow> unit result \<times> 's modem) \<Rightarrow> bool \<Rightarrow> 's mmain \<Rightarrow> 's mmain" where
  "call_round round aborted m = (case round aborted (mdm m) of (r, md) \<Rightarrow>
     let m = m\<lparr>mdm := md\<rparr> in or_end r m (m\<lparr>wait := (if aborted then NoWait else Armed)\<rparr>))"

definition acquire ::
  "'s port \<Rightarrow> bool \<Rightarrow> nat \<Rightarrow> (bool \<Rightarrow> 's modem \<Rightarrow> unit result \<times> 's modem) \<Rightarrow> 's mmain \<Rightarrow> 's mmain" where
  "acquire P denied n round m =
     (let (fs, l) = create denied n (fsys m) (lockfile m);
          m = m\<lparr>fsys := fs, lockfile := l\<rparr>;
          (r, md) = Open P (mdm m);
          m = m\<lparr>mdm := md\<rparr>
      in case r of
           Ret _ \<Rightarrow> call_round round False (m\<lparr>mpc := InMainRun\<rparr>)
         | Exc e \<Rightarrow> (case what e of
               Some w \<Rightarrow> (release_lock m)\<lparr>mpc := Finished (ExitFailure (''Can't open modem: '' @ w))\<rparr>
             | None \<Rightarrow> m\<lparr>mpc := Finished (Terminate e)\<rparr>)
         | _ \<Rightarrow> or_end r m m)"

definition cancel_wait :: "'s mmain \<Rightarrow> 's mmain" where
  "cancel_wait m = (if wait m = Armed then m\<lparr>wait := Cut\<rparr> else m)"

definition close_modem :: "'s port \<Rightarrow> 's mmain \<Rightarrow> 's mmain" where
  "close_modem P m = (case Close P False (mdm m) of (r, md) \<Rightarrow> let m = m\<lparr>mdm := md\<rparr> in or_end r m m)"

section \<open>The receiver\<close>

definition receiver_round :: "host \<Rightarrow> 's port \<Rightarrow> boost \<Rightarrow> bool \<Rightarrow> 's modem \<Rightarrow> unit result \<times> 's modem" where
  "receiver_round h P B aborted m = (case receiver_loop h P B aborted m of (r, m) \<Rightarrow> (bind_r r (\<lambda>_. Ret ()), m))"

definition receiver_poll :: "'s mmain \<Rightarrow> 's mmain" where
  "receiver_poll m =
     (if present (fsys m) (lockfile m) \<and> \<not> shutdown m then m\<lparr>mpc := InPoll, wait := Armed\<rparr>
      else if shutdown m then (release_lock m)\<lparr>mpc := Finished (ExitFailure '''')\<rparr>
      else m\<lparr>mpc := Acquiring\<rparr>)"

text \<open>The same timer serves the polling and the rounds.\<close>

definition receiver_signal :: "'s port \<Rightarrow> 's mmain \<Rightarrow> 's mmain" where
  "receiver_signal P m = close_modem P (cancel_wait (m\<lparr>signal_armed := False, shutdown := True\<rparr>))"

section \<open>The statistics\<close>

definition stat_round :: "'s port \<Rightarrow> boost \<Rightarrow> bool \<Rightarrow> 's modem \<Rightarrow> unit result \<times> 's modem" where
  "stat_round P B aborted m = (case stat_worker P B aborted m of (r, m) \<Rightarrow> (bind_r r (\<lambda>_. Ret ()), m))"

definition stat_poll :: "'s mmain \<Rightarrow> 's mmain" where
  "stat_poll m =
     (if present (fsys m) (lockfile m) \<and> \<not> shutdown m then m\<lparr>mpc := InPoll, wait := Armed\<rparr>
      else if shutdown m then (release_lock m)\<lparr>mpc := AtWhile\<rparr>
      else m\<lparr>mpc := Acquiring\<rparr>)"

text \<open>The polling has a timer of its own, which the handler does not cancel.\<close>

definition stat_signal :: "'s port \<Rightarrow> 's mmain \<Rightarrow> 's mmain" where
  "stat_signal P m =
     (let m = m\<lparr>signal_armed := False, shutdown := True\<rparr>
      in close_modem P (if mpc m = InPoll then m else cancel_wait m))"

section \<open>The sender\<close>

text \<open>Its polling is that of the receiver, with a timer of its own.\<close>

definition sender_wait_signal :: "'s port \<Rightarrow> 's mmain \<Rightarrow> 's mmain" where
  "sender_wait_signal P m = close_modem P (m\<lparr>signal_armed := False, shutdown := True\<rparr>)"

definition sender_take ::
  "host \<Rightarrow> 's port \<Rightarrow> boost \<Rightarrow> byte list \<Rightarrow> bool \<Rightarrow> nat \<Rightarrow> 's mmain \<Rightarrow> 's mmain" where
  "sender_take h P B payload denied n m =
     (let (fs, l) = create denied n (fsys m) (lockfile m);
          (out, md) = sender_session h P B payload (mdm m);
          m = m\<lparr>fsys := fs, lockfile := l, mdm := md\<rparr>
      in if exits out
         then (release_lock m)\<lparr>mpc := Finished out, mdm := Modem_destroy P md\<rparr>
         else m\<lparr>mpc := Finished out\<rparr>)"

section \<open>Steps\<close>

record 's program =
  poll :: "'s mmain \<Rightarrow> 's mmain"
  on_signal :: "'s mmain \<Rightarrow> 's mmain"
  take_device :: "bool \<Rightarrow> nat \<Rightarrow> 's mmain \<Rightarrow> 's mmain"
  round :: "bool \<Rightarrow> 's modem \<Rightarrow> unit result \<times> 's modem"

definition modem_receiver :: "host \<Rightarrow> 's port \<Rightarrow> boost \<Rightarrow> 's program" where
  "modem_receiver h P B = \<lparr>poll = receiver_poll, on_signal = receiver_signal P,
     take_device = (\<lambda>denied n. acquire P denied n (receiver_round h P B)), round = receiver_round h P B\<rparr>"

definition modem_stat :: "'s port \<Rightarrow> boost \<Rightarrow> 's program" where
  "modem_stat P B = \<lparr>poll = stat_poll, on_signal = stat_signal P,
     take_device = (\<lambda>denied n. acquire P denied n (stat_round P B)), round = stat_round P B\<rparr>"

text \<open>The sender has no rounds and no outer loop: the test of that passes once, as no signal has been seen yet,
  and is not come back to.\<close>

definition modem_sender :: "host \<Rightarrow> 's port \<Rightarrow> boost \<Rightarrow> byte list \<Rightarrow> 's program" where
  "modem_sender h P B payload = \<lparr>poll = receiver_poll, on_signal = sender_wait_signal P,
     take_device = sender_take h P B payload, round = (\<lambda>aborted md. (Ret (), md))\<rparr>"

definition modem_programs :: "host \<Rightarrow> 's port \<Rightarrow> boost \<Rightarrow> byte list \<Rightarrow> 's program set" where
  "modem_programs h P B payload =
     {modem_receiver h P B, modem_stat P B, modem_sender h P B payload}"

text \<open>The handler of the polling timer stops the io service, unless it was cancelled. \<open>run\<close> also returns when
  nothing is outstanding; an open modem announces work.\<close>

inductive mmain_step :: "'s program \<Rightarrow> 's mmain \<Rightarrow> 's mmain \<Rightarrow> bool" for prog :: "'s program" where
  outer: "mpc m = AtWhile \<Longrightarrow> mmain_step prog m (outer_test m)"
| inner: "mpc m = AtPoll \<Longrightarrow> mmain_step prog m (poll prog m)"
| acquire: "mpc m = Acquiring \<Longrightarrow> mmain_step prog m (take_device prog denied n m)"
| expire: "mpc m \<in> {InPoll, InMainRun} \<Longrightarrow> wait m = Armed \<Longrightarrow> mmain_step prog m (m\<lparr>wait := Due\<rparr>)"
| poll_due: "mpc m = InPoll \<Longrightarrow> wait m = Due \<Longrightarrow> mmain_step prog m (m\<lparr>wait := NoWait, mpc := AtPoll\<rparr>)"
| poll_cut: "mpc m = InPoll \<Longrightarrow> wait m = Cut \<Longrightarrow> mmain_step prog m (m\<lparr>wait := NoWait\<rparr>)"
| round_due: "mpc m = InMainRun \<Longrightarrow> wait m = Due \<Longrightarrow> mmain_step prog m (call_round (round prog) False m)"
| round_cut: "mpc m = InMainRun \<Longrightarrow> wait m = Cut \<Longrightarrow> mmain_step prog m (call_round (round prog) True m)"
| signal: "mpc m \<in> {InPoll, InMainRun} \<Longrightarrow> signal_armed m \<Longrightarrow> mmain_step prog m (on_signal prog m)"
| poll_idle: "mpc m = InPoll \<Longrightarrow> wait m = NoWait \<Longrightarrow> \<not> signal_armed m \<Longrightarrow> mmain_step prog m (m\<lparr>mpc := AtPoll\<rparr>)"
| run_idle: "mpc m = InMainRun \<Longrightarrow> wait m = NoWait \<Longrightarrow> \<not> signal_armed m \<Longrightarrow> \<not> m_busy (mdm m) \<Longrightarrow>
    mmain_step prog m ((release_lock m)\<lparr>mpc := AtWhile\<rparr>)"
| others: "\<forall>out. mpc m \<noteq> Finished out \<Longrightarrow> (m_created (lockfile m) \<longrightarrow> fs (m_name (lockfile m)) = fsys m (m_name (lockfile m))) \<Longrightarrow>
    mmain_step prog m (m\<lparr>fsys := fs\<rparr>)"

inductive mmain_reach :: "'s program \<Rightarrow> 's mmain \<Rightarrow> 's mmain \<Rightarrow> bool" for prog :: "'s program" and m :: "'s mmain" where
  here: "mmain_reach prog m m"
| step: "mmain_reach prog m m' \<Longrightarrow> mmain_step prog m' m'' \<Longrightarrow> mmain_reach prog m m''"

interpretation mmain_states: reachability "mmain_step prog" "mmain_reach prog" for prog
  by (unfold_locales, auto intro: mmain_reach.intros) (erule mmain_reach.induct; blast)

lemma mmain_reach_invariant:
  assumes "mmain_reach prog m m'" and "I m" and "\<And>m m'. I m \<Longrightarrow> mmain_step prog m m' \<Longrightarrow> I m'"
  shows "I m'"
  using assms by (rule mmain_states.reach_keeps)

lemmas mmain_defs = release_lock_def or_end_def outer_test_def call_round_def acquire_def cancel_wait_def close_modem_def
  receiver_poll_def receiver_signal_def stat_poll_def stat_signal_def Let_def

section \<open>The lock and the device\<close>

text \<open>The lock that was created belongs to the rounds, and an open device too; a signal is waited for until it
  comes, and until then a round is on its way.\<close>

definition mmain_inv :: "'s mmain \<Rightarrow> bool" where
  "mmain_inv m \<longleftrightarrow> (signal_armed m \<longleftrightarrow> \<not> shutdown m) \<and>
     (m_created (lockfile m) \<longrightarrow> mpc m = InMainRun \<or> (\<exists>out. mpc m = Finished out \<and> \<not> exits out)) \<and>
     (m_isOpen (mdm m) \<longrightarrow> mpc m = InMainRun \<or> (\<exists>out. mpc m = Finished out)) \<and>
     (mpc m = InMainRun \<and> \<not> shutdown m \<longrightarrow> wait m = Armed \<or> wait m = Due) \<and>
     (mpc m = InMainRun \<and> shutdown m \<longrightarrow> \<not> m_isOpen (mdm m)) \<and> (mpc m = Acquiring \<longrightarrow> \<not> shutdown m)"

text \<open>A round on a closed modem reports its failures and ends as any other.\<close>

definition quiet_when_closed :: "(bool \<Rightarrow> 's modem \<Rightarrow> unit result \<times> 's modem) \<Rightarrow> bool" where
  "quiet_when_closed rnd \<longleftrightarrow> (\<forall>aborted md. \<not> m_isOpen md \<longrightarrow> rnd aborted md = (Ret (), md))"

lemma rounds_quiet: "quiet_when_closed (receiver_round h P B)" "quiet_when_closed (stat_round P B)"
  by (auto simp: quiet_when_closed_def receiver_round_def stat_round_def receiver_loop_def stat_worker_def
      SbdClearBuffers_def NetGetStatus_def)

lemma destroyed_lock: "\<not> m_created (lockfile (release_lock m))" "mdm (release_lock m) = mdm m"
  "shutdown (release_lock m) = shutdown m" "signal_armed (release_lock m) = signal_armed m" "wait (release_lock m) = wait m"
  by (simp_all add: release_lock_def destroy_lock_def)

lemma Close_closed: "Close P False md = (Ret u, md') \<Longrightarrow> \<not> m_isOpen md' \<and> \<not> m_busy md'"
  by (auto simp: Close_def close_port_def Let_def split: prod.splits option.splits if_splits)


lemma call_round_inv:
  assumes "mpc m = InMainRun" and "signal_armed m \<longleftrightarrow> \<not> shutdown m" and "aborted \<longrightarrow> shutdown m"
    and "shutdown m \<longrightarrow> \<not> m_isOpen (mdm m) \<and> quiet_when_closed rnd"
  shows "mmain_inv (call_round rnd aborted m)"
proof (cases "shutdown m")
  case True
  with assms(4) have "rnd aborted (mdm m) = (Ret (), mdm m)" by (simp add: quiet_when_closed_def)
  with True assms show ?thesis by (simp add: mmain_inv_def call_round_def or_end_def)
next
  case False
  with assms show ?thesis
    by (auto simp: mmain_inv_def call_round_def or_end_def Let_def split: prod.splits result.splits)
qed

lemma acquire_inv:
  assumes "mmain_inv m" and "mpc m = Acquiring"
  shows "mmain_inv (acquire P denied n rnd m)"
proof -
  obtain fs l where c: "create denied n (fsys m) (lockfile m) = (fs, l)" by fastforce
  obtain r md where o: "Open P (mdm m) = (r, md)" by fastforce
  from assms have sd: "signal_armed m" "\<not> shutdown m" by (simp_all add: mmain_inv_def)
  let ?m = "m\<lparr>fsys := fs, lockfile := l, mdm := md\<rparr>"
  show ?thesis
  proof (cases r)
    case (Ret u)
    have "mmain_inv (call_round rnd False (?m\<lparr>mpc := InMainRun\<rparr>))"
      by (rule call_round_inv) (use sd in simp_all)
    with Ret c o show ?thesis by (simp add: acquire_def)
  next
    case (Exc e)
    with c o sd destroyed_lock [of ?m] show ?thesis
      by (cases "what e") (auto simp: acquire_def mmain_inv_def)
  qed (use c o sd in \<open>simp_all add: acquire_def or_end_def mmain_inv_def\<close>)
qed

lemma close_modem_inv:
  assumes "shutdown m" and "\<not> signal_armed m" and "mpc m = InPoll \<and> \<not> m_created (lockfile m) \<and> \<not> m_isOpen (mdm m) \<or> mpc m = InMainRun"
  shows "mmain_inv (close_modem P m)"
proof -
  obtain r md where c: "Close P False (mdm m) = (r, md)" by fastforce
  show ?thesis
  proof (cases r)
    case (Ret u)
    with Close_closed [of P "mdm m" u md] c assms show ?thesis
      by (auto simp: mmain_inv_def close_modem_def or_end_def)
  qed (use c assms in \<open>simp_all add: mmain_inv_def close_modem_def or_end_def\<close>)
qed

lemma poll_inv:
  assumes "mmain_inv m" and "mpc m = AtPoll"
  shows "mmain_inv (receiver_poll m)" and "mmain_inv (stat_poll m)"
  using assms destroyed_lock [of m]
  by (cases "present (fsys m) (lockfile m)"; cases "shutdown m";
      simp add: mmain_inv_def receiver_poll_def stat_poll_def)+

lemma cancel_wait_simps [simp]:
  "mpc (cancel_wait m) = mpc m" "shutdown (cancel_wait m) = shutdown m" "signal_armed (cancel_wait m) = signal_armed m"
  "lockfile (cancel_wait m) = lockfile m" "fsys (cancel_wait m) = fsys m" "mdm (cancel_wait m) = mdm m"
  by (simp_all add: cancel_wait_def)

lemma signal_inv:
  assumes "mmain_inv m" and "mpc m \<in> {InPoll, InMainRun}"
  shows "mmain_inv (receiver_signal P m)" and "mmain_inv (stat_signal P m)" and "mmain_inv (sender_wait_signal P m)"
proof -
  have p: "mpc m = InPoll \<and> \<not> m_created (lockfile m) \<and> \<not> m_isOpen (mdm m) \<or> mpc m = InMainRun"
    using assms by (auto simp: mmain_inv_def)
  show "mmain_inv (receiver_signal P m)"
    unfolding receiver_signal_def by (rule close_modem_inv) (use p in auto)
  show "mmain_inv (stat_signal P m)"
    unfolding stat_signal_def Let_def by (rule close_modem_inv) (use p in auto)
  show "mmain_inv (sender_wait_signal P m)"
    unfolding sender_wait_signal_def by (rule close_modem_inv) (use p in auto)
qed

lemma sender_take_inv:
  assumes "mmain_inv m" and "mpc m = Acquiring"
  shows "mmain_inv (sender_take h P B payload denied n m)"
proof -
  obtain fs l where c: "create denied n (fsys m) (lockfile m) = (fs, l)" by fastforce
  obtain out md where o: "sender_session h P B payload (mdm m) = (out, md)" by fastforce
  from assms have sd: "signal_armed m" "\<not> shutdown m" by (simp_all add: mmain_inv_def)
  show ?thesis
    using c o sd destroyed_lock [of "m\<lparr>fsys := fs, lockfile := l, mdm := md\<rparr>"]
    by (cases "exits out") (auto simp: sender_take_def mmain_inv_def)
qed

lemma program_cases:
  assumes "prog \<in> modem_programs h P B payload"
  shows "poll prog m = receiver_poll m \<or> poll prog m = stat_poll m"
    and "on_signal prog m \<in> {receiver_signal P m, stat_signal P m, sender_wait_signal P m}"
    and "quiet_when_closed (round prog)"
    and "(\<exists>rnd. take_device prog denied n m = acquire P denied n rnd m) \<or>
      take_device prog denied n m = sender_take h P B payload denied n m"
proof -
  have "quiet_when_closed (\<lambda>aborted md. (Ret (), md))" by (simp add: quiet_when_closed_def)
  with assms rounds_quiet show "quiet_when_closed (round prog)"
    by (auto simp: modem_programs_def modem_receiver_def modem_stat_def modem_sender_def)
qed (use assms in \<open>auto simp: modem_programs_def modem_receiver_def modem_stat_def modem_sender_def\<close>)

lemma mmain_inv_step:
  assumes "prog \<in> modem_programs h P B payload"
    and inv: "mmain_inv m" and st: "mmain_step prog m m'"
  shows "mmain_inv m'"
  using st
proof cases
  case outer
  with inv show ?thesis by (auto simp: mmain_inv_def outer_test_def LockFile_new_def)
next
  case inner
  with poll_inv [OF inv] program_cases(1) [OF assms(1), of m] show ?thesis by auto
next
  case (acquire denied n)
  with acquire_inv [OF inv] sender_take_inv [OF inv] program_cases(4) [OF assms(1), of denied n m] show ?thesis by auto
next
  case round_due
  from inv round_due have "signal_armed m \<longleftrightarrow> \<not> shutdown m" "shutdown m \<longrightarrow> \<not> m_isOpen (mdm m)"
    by (auto simp: mmain_inv_def)
  with round_due program_cases(3) [OF assms(1)] show ?thesis by (simp add: call_round_inv)
next
  case round_cut
  with inv have "signal_armed m \<longleftrightarrow> \<not> shutdown m" "shutdown m" "\<not> m_isOpen (mdm m)"
    by (auto simp: mmain_inv_def)
  with round_cut program_cases(3) [OF assms(1)] show ?thesis by (simp add: call_round_inv)
next
  case signal
  with signal_inv [OF inv] program_cases(2) [OF assms(1), of m] show ?thesis by auto
next
  case run_idle
  with inv destroyed_lock [of m] show ?thesis by (auto simp: mmain_inv_def)
next
  case expire
  with inv show ?thesis by (auto simp: mmain_inv_def)
next
  case poll_due
  with inv show ?thesis by (auto simp: mmain_inv_def)
next
  case poll_cut
  with inv show ?thesis by (auto simp: mmain_inv_def)
next
  case poll_idle
  with inv show ?thesis by (auto simp: mmain_inv_def)
next
  case (others fs)
  have "mmain_inv (m\<lparr>fsys := fs\<rparr>) = mmain_inv m" by (simp add: mmain_inv_def)
  with inv others(1) show ?thesis by simp
qed

lemma mmain_inv_reach:
  assumes "prog \<in> modem_programs h P B payload" and "mmain_reach prog (mmain_init fs s) m"
  shows "mmain_inv m"
proof (rule mmain_reach_invariant [OF assms(2)])
  show "mmain_inv (mmain_init fs s)"
    by (simp add: mmain_inv_def mmain_init_def LockFile_new_def Modem_new_def)
qed (rule mmain_inv_step [OF assms(1)])

















text \<open>The statistics over a modem that answers only when it is opened.\<close>

definition sample_main :: "line mmain" where
  "sample_main = acquire stream_port False 42 (stat_round stream_port exact_boost)
     ((mmain_init Map.empty \<lparr>segments = [ok_line], written = []\<rparr>)\<lparr>mpc := Acquiring\<rparr>)"

lemma sample_main_reach:
  "mmain_reach (modem_stat stream_port exact_boost)
     (mmain_init Map.empty \<lparr>segments = [ok_line], written = []\<rparr>) sample_main"
proof -
  let ?i = "mmain_init Map.empty \<lparr>segments = [ok_line], written = []\<rparr> :: line mmain"
  let ?p = "modem_stat stream_port exact_boost"
  have 1: "mmain_step ?p ?i (?i\<lparr>mpc := AtPoll\<rparr>)"
    using mmain_step.outer [of ?i ?p] by (simp add: outer_test_def mmain_init_def)
  have 2: "mmain_step ?p (?i\<lparr>mpc := AtPoll\<rparr>) (?i\<lparr>mpc := Acquiring\<rparr>)"
    using mmain_step.inner [of "?i\<lparr>mpc := AtPoll\<rparr>" ?p]
    by (simp add: modem_stat_def stat_poll_def mmain_init_def present_def)
  have 3: "mmain_step ?p (?i\<lparr>mpc := Acquiring\<rparr>) sample_main"
    using mmain_step.acquire [of "?i\<lparr>mpc := Acquiring\<rparr>" ?p False 42]
    by (simp add: sample_main_def modem_stat_def)
  from mmain_reach.step [OF mmain_reach.step [OF mmain_reach.step [OF mmain_reach.here 1] 2] 3] show ?thesis .
qed

lemma sample_main_value:
  "mpc sample_main = InMainRun" "\<not> shutdown sample_main" "wait sample_main = Armed" "m_isOpen (mdm sample_main)"
  "m_created (lockfile sample_main)"
proof -
  obtain md :: "line modem" where o: "Open stream_port (Modem_new modemDevice \<lparr>segments = [ok_line], written = []\<rparr>) = (Ret (), md)"
      "m_isOpen md" "segments (dev md) = []"
    using Open_over [of "Modem_new modemDevice \<lparr>segments = [ok_line], written = []\<rparr>" "[]" "[]" "[]"]
    by (simp add: Modem_new_def)
  obtain md' where r: "stat_round stream_port exact_boost False md = (Ret (), md')" "m_isOpen md'"
    using o(2,3) by (simp add: stat_round_def stat_worker_def NetGetStatus_def ask_def stream_port_def ok_line_def)
  have "create False 42 Map.empty (LockFile_new modemDevice) =
      ([m_name (LockFile_new modemDevice) \<mapsto> pid_line 42], (LockFile_new modemDevice)\<lparr>m_created := True\<rparr>)"
    by (simp add: create_def LockFile_new_def)
  with o r have eq: "sample_main = (mmain_init Map.empty \<lparr>segments = [ok_line], written = []\<rparr>)\<lparr>mpc := InMainRun, wait := Armed,
      lockfile := (LockFile_new modemDevice)\<lparr>m_created := True\<rparr>, fsys := [m_name (LockFile_new modemDevice) \<mapsto> pid_line 42], mdm := md'\<rparr>"
    by (simp add: sample_main_def acquire_def mmain_init_def call_round_def or_end_def)
  show "mpc sample_main = InMainRun" "\<not> shutdown sample_main" "wait sample_main = Armed" "m_isOpen (mdm sample_main)"
      "m_created (lockfile sample_main)"
    unfolding eq using r(2) by (simp_all add: mmain_init_def)
qed


section \<open>The signal\<close>

text \<open>What a signal during the rounds makes of the state, when closing the modem does not throw.\<close>

definition signalled :: "'s modem \<Rightarrow> 's mmain \<Rightarrow> 's mmain" where
  "signalled md m = (cancel_wait m)\<lparr>signal_armed := False, shutdown := True, mdm := md\<rparr>"

lemma on_signal_signalled:
  assumes "prog = modem_receiver h P B \<or> prog = modem_stat P B" and "mpc m = InMainRun"
    and "Close P False (mdm m) = (Ret (), md)"
  shows "on_signal prog m = signalled md m"
  using assms
  by (auto simp: modem_receiver_def modem_stat_def receiver_signal_def stat_signal_def close_modem_def or_end_def
      cancel_wait_def signalled_def)

lemma cut_round_ends:
  assumes quiet: "quiet_when_closed (round prog)" and closed: "\<not> m_isOpen md" "\<not> m_busy md"
    and m: "mpc m = InMainRun" "wait m = Armed"
  shows "\<exists>m'. mmain_reach prog (signalled md m) m' \<and> mpc m' = Finished ExitSuccess \<and>
    \<not> m_created (lockfile m') \<and> \<not> m_isOpen (mdm m')"
proof -
  let ?s = "signalled md m"
  let ?t = "?s\<lparr>wait := NoWait\<rparr>"
  let ?u = "(release_lock ?t)\<lparr>mpc := AtWhile\<rparr>"
  have s: "mpc ?s = InMainRun" "wait ?s = Cut" "mdm ?s = md" "shutdown ?s" "\<not> signal_armed ?s"
    using m by (simp_all add: signalled_def) (simp add: cancel_wait_def)
  have "round prog True md = (Ret (), md)" using quiet closed(1) by (simp add: quiet_when_closed_def)
  with s have "call_round (round prog) True ?s = ?t" by (simp add: call_round_def or_end_def)
  with mmain_step.round_cut [of ?s prog] s have 1: "mmain_step prog ?s ?t" by simp
  have 2: "mmain_step prog ?t ?u"
    by (rule mmain_step.run_idle) (use s closed(2) in simp_all)
  have 3: "mmain_step prog ?u (outer_test ?u)" by (rule mmain_step.outer) simp
  have "mmain_reach prog ?s (outer_test ?u)"
    by (rule mmain_reach.step [OF mmain_reach.step [OF mmain_reach.step [OF mmain_reach.here 1] 2] 3])
  moreover have "mpc (outer_test ?u) = Finished ExitSuccess \<and> \<not> m_created (lockfile (outer_test ?u)) \<and> \<not> m_isOpen (mdm (outer_test ?u))"
    using s closed(1) destroyed_lock [of ?t] by (simp add: outer_test_def)
  ultimately show ?thesis by blast
qed

lemma due_round_goes_on:
  assumes quiet: "quiet_when_closed (round prog)" and closed: "\<not> m_isOpen md"
    and m: "mpc m = InMainRun" "wait m = Due" and reach: "mmain_reach prog (signalled md m) m'"
  shows "mpc m' = InMainRun \<and> \<not> signal_armed m'"
proof -
  have "mpc m' = InMainRun \<and> \<not> signal_armed m' \<and> \<not> m_isOpen (mdm m') \<and> (wait m' = Armed \<or> wait m' = Due)"
  proof (rule mmain_reach_invariant [OF reach])
    show "mpc (signalled md m) = InMainRun \<and> \<not> signal_armed (signalled md m) \<and> \<not> m_isOpen (mdm (signalled md m)) \<and>
        (wait (signalled md m) = Armed \<or> wait (signalled md m) = Due)"
      using m closed by (simp add: signalled_def) (simp add: cancel_wait_def)
  next
    fix x y :: "'a mmain"
    assume I: "mpc x = InMainRun \<and> \<not> signal_armed x \<and> \<not> m_isOpen (mdm x) \<and> (wait x = Armed \<or> wait x = Due)"
      and st: "mmain_step prog x y"
    from I have "round prog False (mdm x) = (Ret (), mdm x)" using quiet by (simp add: quiet_when_closed_def)
    with st I show "mpc y = InMainRun \<and> \<not> signal_armed y \<and> \<not> m_isOpen (mdm y) \<and> (wait y = Armed \<or> wait y = Due)"
      by cases (auto simp: call_round_def or_end_def)
  qed
  then show ?thesis by blast
qed

text \<open>C25 (liveness). A signal during the rounds ends the program if the timer is running: it is cancelled, the
  modem is closed, and the program exits with success and without its lock file. But if the timer has just
  expired, so that the handler of the round is queued behind that of the signal, the round fails on the
  closed modem and starts the timer again: the program runs for ever, and no further signal is looked at.\<close>

theorem signal_during_rounds:
  assumes prog: "prog = modem_receiver h P B \<or> prog = modem_stat P B"
    and reach: "mmain_reach prog (mmain_init fs s) m"
    and run: "mpc m = InMainRun" "\<not> shutdown m" and close: "Close P False (mdm m) = (Ret (), md)"
  shows "if wait m = Armed
    then \<exists>m'. mmain_reach prog (on_signal prog m) m' \<and> mpc m' = Finished ExitSuccess \<and>
      \<not> m_created (lockfile m') \<and> \<not> m_isOpen (mdm m')
    else \<forall>m'. mmain_reach prog (on_signal prog m) m' \<longrightarrow> mpc m' = InMainRun \<and> \<not> signal_armed m'"
proof -
  from prog have p: "prog \<in> modem_programs h P B []" by (auto simp: modem_programs_def)
  from mmain_inv_reach [OF p reach] run have w: "wait m = Armed \<or> wait m = Due" by (auto simp: mmain_inv_def)
  have "\<not> m_isOpen md" "\<not> m_busy md" using Close_closed [OF close] by simp_all
  with on_signal_signalled [OF prog run(1) close] cut_round_ends [OF program_cases(3) [OF p] _ _ run(1)]
    due_round_goes_on [OF program_cases(3) [OF p] _ run(1)] w
  show ?thesis by auto
qed

theorem signal_during_rounds_witness:
  "\<exists>m'. mmain_reach (modem_stat stream_port exact_boost)
     (on_signal (modem_stat stream_port exact_boost) sample_main) m' \<and> mpc m' = Finished ExitSuccess \<and> \<not> m_created (lockfile m')"
proof -
  have p: "modem_stat stream_port exact_boost = modem_receiver x86 stream_port exact_boost \<or>
      modem_stat stream_port exact_boost = modem_stat stream_port exact_boost" by simp
  obtain md where "Close stream_port False (mdm sample_main) = (Ret (), md)"
    by (cases "m_isOpen (mdm sample_main)") (simp_all add: Close_def stream_port_def close_port_def Let_def)
  from signal_during_rounds [OF p sample_main_reach sample_main_value(1,2) this] sample_main_value(3) show ?thesis by auto
qed

end
