(* ===== verification/DirectIpClients.thy ===== *)
theory DirectIpClients
  imports TransmitterProps LockFile
begin

text \<open>
  The programs of examples/directip: one round of the sender's loop, which builds a message and posts it,
  and the check of the receiver whether it is running already. Their \<open>main\<close> functions and \<open>daemonize\<close> are in
  DirectIpSender and DirectIpReceiver. The output is not modelled.
\<close>

section \<open>The sender\<close>

definition IMEI :: "byte list" where
  "IMEI = bytes_of ''300125061511830''"

definition round_flags :: MtMessageFlags where
  "round_flags = MtMessageFlags_init\<lparr>assignMtmsh := True\<rparr>"

text \<open>The state is \<open>msgCount\<close> and the transmitter. No handler takes the exceptions of \<open>factory\<close>. What the
  service runs between two rounds is not part of the round.\<close>

definition sender_round :: "host \<Rightarrow> byte list \<Rightarrow> u32 \<times> tx \<Rightarrow> (exc + u32 \<times> tx) option" where
  "sender_round h payload x = (case x of (msgCount, s) \<Rightarrow> do {
     let s = start s;
     (r, message) \<leftarrow> factory h MtMessage_init msgCount IMEI (Some (payload @ [0])) (length payload) round_flags MinPriority;
     (case r of
        Inl e \<Rightarrow> Some (Inl e)
      | Inr _ \<Rightarrow>
          let msgCount = msgCount + 1;
              msgCount = (if msgCount = 65536 then 1 else msgCount)
          in Some (Inr (msgCount, post message s)))
   })"

section \<open>Whether an application is running\<close>

text \<open>A file that cannot be opened for reading is \<^term>\<open>Some None\<close>. \<open>std::istream >> int\<close>: blanks are skipped,
  then digits with an optional sign are read; it fails if there are none or the number is out of range.\<close>

definition read_int :: "string \<Rightarrow> int option" where
  "read_int s =
     (let s = dropWhile (\<lambda>c. c \<in> set [CHR '' '', CHR 0x09, CHR 0x0A, CHR 0x0B, CHR 0x0C, CHR 0x0D]) s;
          neg = (take 1 s = ''-'');
          s = (if take 1 s = ''-'' \<or> take 1 s = ''+'' then tl s else s);
          ds = takeWhile (\<lambda>c. 48 \<le> (of_char c :: nat) \<and> (of_char c :: nat) \<le> 57) s;
          i = (if neg then - int (digits_value ds) else int (digits_value ds))
      in if ds = [] \<or> i < - 2147483648 \<or> 2147483647 < i then None else Some i)"

text \<open>The file has its exceptions enabled, so \<open>getline\<close> throws when there is nothing to read; the result is
  \<^term>\<open>None\<close> then, as no handler takes it.\<close>

definition occurs :: "string \<Rightarrow> string \<Rightarrow> bool" where
  "occurs pat s \<longleftrightarrow> (\<exists>i \<in> set [0..<Suc (length s)]. take (length pat) (drop i s) = pat)"

definition alreadyRunning :: "(string \<Rightarrow> string option option) \<Rightarrow> string \<Rightarrow> string \<Rightarrow> bool option" where
  "alreadyRunning fs pidFilename appName = (case fs pidFilename of
     None \<Rightarrow> Some False
   | Some None \<Rightarrow> Some True
   | Some (Some content) \<Rightarrow> (case read_int content of
       None \<Rightarrow> Some False
     | Some p \<Rightarrow> (case fs (''/proc/'' @ show_int p @ ''/cmdline'') of
         Some (Some cmdline) \<Rightarrow>
           (if cmdline = [] then None
            else Some (occurs appName (takeWhile (\<lambda>c. c \<noteq> CHR 0x0A) cmdline)))
       | _ \<Rightarrow> Some False)))"

text \<open>Every round sends a message with the next identifier: from 1 to 65535, then from 1 again, whatever
  the transmitter does in between.\<close>

lemma IMEI_valid: "length IMEI = 15" "\<forall>c \<in> set IMEI. digit c"
  by (simp_all add: IMEI_def bytes_of_def digit_def)

theorem sender_round_identifiers:
  assumes "1 \<le> length payload" and "length payload \<le> 1890"
  shows "\<exists>m. sender_round h payload (of_nat (n mod 65535 + 1), s) = Some (Inr (of_nat (Suc n mod 65535 + 1), post m (start s))) \<and>
    sendable m \<and> message_wire m = 1 # be16 (of_nat (length payload + 32)) @
      (0x41 # be16 21 @ be32 (of_nat (n mod 65535 + 1)) @ IMEI @ be16 32) @
      (0x42 # be16 (of_nat (length payload)) @ payload) @ (0x46 # be16 2 @ be16 5)"
proof -
  let ?id = "of_nat (n mod 65535 + 1) :: u32"
  let ?es = "factory_elements ?id IMEI payload round_flags MinPriority"
  let ?m = "MtMessage_init\<lparr>m_elements := ?es, mt_header := 0, mt_payload := 1, mt_priority := 2\<rparr>"
  have f: "factory h MtMessage_init ?id IMEI (Some (payload @ [0])) (length payload) round_flags MinPriority = Some (Inr (), ?m)"
    using factory_ok [OF IMEI_valid assms, of "payload @ [0]" h MtMessage_init ?id round_flags MinPriority] by simp
  have "(if ?id + 1 = 65536 then 1 else ?id + 1) = of_nat (Suc n mod 65535 + 1)"
  proof -
    have "n mod 65535 < 65535" by simp
    then have k: "n mod 65535 + 2 < 4294967296" by linarith
    have "?id + 1 = 65536 \<longleftrightarrow> (of_nat (n mod 65535 + 2) :: u32) = of_nat 65536"
      by (simp add: add.commute)
    also have "\<dots> \<longleftrightarrow> n mod 65535 = 65534"
      unfolding word_of_nat_eq_iff using k by (simp add: take_bit_nat_eq_self del: of_nat_numeral)
    finally have "?id + 1 = 65536 \<longleftrightarrow> n mod 65535 = 65534" .
    then show ?thesis by (auto simp: mod_Suc)
  qed
  moreover obtain i where i: "i = ?id" by blast
  ultimately have "sender_round h payload (?id, s) = Some (Inr (of_nat (Suc n mod 65535 + 1), post ?m (start s)))"
    using f unfolding sender_round_def i [symmetric] by (simp del: of_nat_add of_nat_Suc)
  moreover have "sendable ?m"
    using factory_elements_packs [OF IMEI_valid(1) assms] by (simp add: sendable_def)
  moreover have "MtMessageFlags_get round_flags = 32" "clamp_priority MinPriority = 5"
    by (simp_all add: round_flags_def MtMessageFlags_get_def MtMessageFlags_init_def clamp_priority_def MinPriority_def)
  ultimately show ?thesis
    using IMEI_valid(1)
    by (intro exI [of _ ?m]) (simp add: message_wire_def factory_elements_wire framed_def id_defs SbdProtoNumber_def add.commute)
qed

lemma read_int_pid:
  assumes "n < 2147483648"
  shows "read_int (pid_line n @ rest) = Some (int n)"
proof -
  let ?blanks = "[CHR '' '', CHR 0x09, CHR 0x0A, CHR 0x0B, CHR 0x0C, CHR 0x0D]"
  obtain c cs where d: "show_nat n = c # cs"
    by (cases "show_nat n") (auto simp: show_nat.simps [of n] split: if_splits)
  have digit: "48 \<le> (of_char x :: nat) \<and> (of_char x :: nat) \<le> 57" if "x \<in> set (c # cs)" for x
    using show_nat_chars [of x n] that by (simp add: d)
  have "c \<notin> set ?blanks" "c \<noteq> CHR ''-''" "c \<noteq> CHR ''+''"
    using digit [of c] by auto
  then have "dropWhile (\<lambda>c. c \<in> set ?blanks) (pid_line n @ rest) = show_nat n @ CHR 0x0A # rest"
    by (simp add: pid_line_def d dropWhile_append)
  moreover have "takeWhile (\<lambda>c. 48 \<le> (of_char c :: nat) \<and> (of_char c :: nat) \<le> 57) (show_nat n @ CHR 0x0A # rest) = show_nat n"
    using digit by (simp add: takeWhile_append d)
  ultimately show ?thesis
    using \<open>c \<noteq> CHR ''-''\<close> \<open>c \<noteq> CHR ''+''\<close> assms d
    by (simp add: read_int_def Let_def digits_value_show_nat [of n, unfolded d])
qed

text \<open>The check reads the number of the process that the format of the file holds: it tells whether the command
  line of that process contains the name, and fails with an exception if it is empty, as it is for
  processes of the kernel and those that have ended and are still listed.\<close>

theorem already_running_reads_pid:
  assumes "n < 2147483648" and "fs pidFilename = Some (Some (pid_line n @ rest))"
  shows "alreadyRunning fs pidFilename appName = (case fs (''/proc/'' @ show_nat n @ ''/cmdline'') of
      Some (Some cmdline) \<Rightarrow> (if cmdline = [] then None
        else Some (occurs appName (takeWhile (\<lambda>c. c \<noteq> CHR 0x0A) cmdline)))
    | _ \<Rightarrow> Some False)"
  using assms by (simp add: alreadyRunning_def read_int_pid show_int_def)

end
