(* ===== verification/DirectIpReceiver.thy ===== *)
theory DirectIpReceiver
  imports ReceiverCompose DirectIpClients
begin

text \<open>
  examples/directip/receiver/main.cpp: \<open>main\<close>, which runs a receiver until a signal comes, and
  \<open>daemonize\<close>. The io service runs in the only thread; what the receiver emits is printed.
\<close>

section \<open>The main function\<close>

text \<open>Before the test of the loop, inside of \<open>io_service.run\<close>, or back with an exit code. Returning destroys
  the locals, the receiver among them.\<close>

datatype main_phase = AtLoop | InRun | Exited int

definition EXIT_SUCCESS :: int where "EXIT_SUCCESS = 0"
definition EXIT_FAILURE :: int where "EXIT_FAILURE = 1"

record rx_main =
  phase :: main_phase
  m_stopping :: bool
  signal_wait :: bool
  main_rx :: receiver

definition rx_main_init :: rx_main where
  "rx_main_init = \<lparr>phase = AtLoop, m_stopping = False, signal_wait = True, main_rx = SbdReceiver_Factory\<rparr>"

definition main_loop :: "string option \<Rightarrow> string option \<Rightarrow> string option \<Rightarrow> rx_main \<Rightarrow> rx_main" where
  "main_loop open_ec bind_ec listen_ec m =
     (if m_stopping m then m\<lparr>phase := Exited EXIT_SUCCESS, main_rx := rx_destroy (main_rx m)\<rparr>
      else case rx_start open_ec bind_ec listen_ec (main_rx m) of
        (Inl e, r) \<Rightarrow> m\<lparr>phase := Exited EXIT_FAILURE, main_rx := rx_destroy r\<rparr>
      | (Inr _, r) \<Rightarrow> m\<lparr>phase := InRun, main_rx := r\<rparr>)"

text \<open>The handler of the signals; an exception of \<open>stop\<close> is printed.\<close>

definition main_signal :: "string option \<Rightarrow> rx_main \<Rightarrow> rx_main" where
  "main_signal close_ec m =
     m\<lparr>signal_wait := False, m_stopping := True, main_rx := snd (rx_stop False close_ec (main_rx m))\<rparr>"

text \<open>\<open>run\<close> returns when nothing is outstanding and no work is announced.\<close>

definition no_work :: "rx_main \<Rightarrow> bool" where
  "no_work m \<longleftrightarrow> \<not> signal_wait m \<and> \<not> rx_sentinel (main_rx m) \<and> accepts (main_rx m) = 0 \<and>
     cancelled_accepts (main_rx m) = 0 \<and> (\<forall>s \<in> set (sessions (main_rx m)). reading s = None)"

inductive main_step :: "host \<Rightarrow> rx_main \<Rightarrow> rx_main \<Rightarrow> bool" for h :: host where
  loop: "phase m = AtLoop \<Longrightarrow> main_step h m (main_loop a b c m)"
| signal: "phase m = InRun \<Longrightarrow> signal_wait m \<Longrightarrow> main_step h m (main_signal e m)"
| accept: "phase m = InRun \<Longrightarrow> rx_step h (main_rx m) (Accept res) (Some r) \<Longrightarrow> main_step h m (m\<lparr>main_rx := r\<rparr>)"
| read: "phase m = InRun \<Longrightarrow> rx_step h (main_rx m) (SessionRead k res) (Some r) \<Longrightarrow>
    main_step h m (m\<lparr>main_rx := r\<rparr>)"
| run_returns: "phase m = InRun \<Longrightarrow> no_work m \<Longrightarrow> main_step h m (m\<lparr>phase := AtLoop\<rparr>)"

inductive main_reach :: "host \<Rightarrow> rx_main \<Rightarrow> rx_main \<Rightarrow> bool" for h :: host and m :: rx_main where
  here: "main_reach h m m"
| step: "main_reach h m m' \<Longrightarrow> main_step h m' m'' \<Longrightarrow> main_reach h m m''"

inductive_cases main_stepE: "main_step h m m'"

interpretation main_states: reachability "main_step h" "main_reach h" for h
  by (unfold_locales, auto intro: main_reach.intros) (erule main_reach.induct; blast)

lemma main_reach_invariant:
  assumes "main_reach h m m'" and "I m" and "\<And>m m'. I m \<Longrightarrow> main_step h m m' \<Longrightarrow> I m'"
  shows "I m'"
  using assms by (rule main_states.reach_keeps)

section \<open>Until a signal comes\<close>

text \<open>Before the first test of the loop nothing has happened; before a signal the receiver listens with one
  accept outstanding; a receiver is destroyed only on return.\<close>

definition main_inv :: "rx_main \<Rightarrow> bool" where
  "main_inv m \<longleftrightarrow> (signal_wait m \<longleftrightarrow> \<not> m_stopping m) \<and>
     (\<not> m_stopping m \<longrightarrow> (case phase m of
        AtLoop \<Rightarrow> main_rx m = SbdReceiver_Factory
      | InRun \<Rightarrow> exists (main_rx m) \<and> acceptor_open (main_rx m) \<and> rx_sentinel (main_rx m) \<and>
          accepts (main_rx m) = 1 \<and> cancelled_accepts (main_rx m) = 0
      | Exited n \<Rightarrow> n = EXIT_FAILURE \<and> main_rx m = SbdReceiver_Factory\<lparr>exists := False\<rparr>)) \<and>
     (m_stopping m \<longrightarrow> (case phase m of
        Exited n \<Rightarrow> n = EXIT_SUCCESS \<and> \<not> exists (main_rx m)
      | _ \<Rightarrow> exists (main_rx m) \<and> \<not> acceptor_open (main_rx m) \<and> \<not> rx_sentinel (main_rx m) \<and>
          accepts (main_rx m) + cancelled_accepts (main_rx m) \<le> 1))"

lemma on_session_read_frame:
  "on_session_read h k res r = Some r' \<Longrightarrow> exists r' = exists r \<and> acceptor_open r' = acceptor_open r \<and>
     rx_sentinel r' = rx_sentinel r \<and> accepts r' = accepts r \<and> cancelled_accepts r' = cancelled_accepts r"
  by (auto simp: on_session_read_def split: bind_splits)

lemma accept_frame:
  assumes "rx_step h r (Accept res) (Some r')" and "exists r"
    and "accepts r + cancelled_accepts r \<le> 1" and "acceptor_open r \<longrightarrow> cancelled_accepts r = 0"
  shows "exists r' \<and> acceptor_open r' = acceptor_open r \<and> rx_sentinel r' = rx_sentinel r \<and>
    cancelled_accepts r' = 0 \<and> accepts r' = (if accepts r = 0 \<and> res = AcceptAborted then 0 else 1)"
  using assms by (auto elim!: rx_step_AcceptE simp: on_accept_def doAccept_def split: accepted.splits)

lemma main_inv_step:
  assumes "main_inv m" and "main_step h m m'"
  shows "main_inv m'"
  using assms(2)
proof cases
  case (loop a b c)
  have "rx_start a b c SbdReceiver_Factory = (Inl e, r) \<Longrightarrow> r = SbdReceiver_Factory" for e r
    by (auto simp: rx_start_def SbdReceiver_Factory_def Let_def split: option.splits)
  moreover have "rx_start a b c SbdReceiver_Factory = (Inr (), r) \<Longrightarrow>
      r = SbdReceiver_Factory\<lparr>acceptor_open := True, rx_sentinel := True, accepts := 1\<rparr>" for r
    by (auto simp: rx_start_def SbdReceiver_Factory_def doAccept_def Let_def split: option.splits)
  moreover have "rx_destroy SbdReceiver_Factory = SbdReceiver_Factory\<lparr>exists := False\<rparr>"
    by (simp add: rx_destroy_def rx_stop_snd SbdReceiver_Factory_def)
  ultimately show ?thesis
    using assms(1) loop
    by (auto simp: main_inv_def main_loop_def rx_destroy_def SbdReceiver_Factory_def split: prod.splits sum.splits)
next
  case (signal e)
  with assms(1) show ?thesis
    by (auto simp: main_inv_def main_signal_def rx_stop_snd)
next
  case (accept res r)
  with assms(1) have "exists (main_rx m)" "accepts (main_rx m) + cancelled_accepts (main_rx m) \<le> 1"
      "acceptor_open (main_rx m) \<longrightarrow> cancelled_accepts (main_rx m) = 0"
    by (cases "m_stopping m"; simp add: main_inv_def)+
  from accept_frame [OF accept(3) this] assms(1) accept show ?thesis
    by (cases "m_stopping m") (auto simp: main_inv_def)
next
  case (read k res r)
  then have "on_session_read h k res (main_rx m) = Some r" by (auto elim: rx_step_SessionReadE)
  from on_session_read_frame [OF this] assms(1) read show ?thesis by (simp add: main_inv_def)
next
  case run_returns
  with assms(1) show ?thesis by (auto simp: main_inv_def no_work_def)
qed

lemma main_inv_reach: "main_reach h rx_main_init m \<Longrightarrow> main_inv m"
  by (erule main_reach_invariant, simp add: main_inv_def rx_main_init_def) (rule main_inv_step)

lemma rx_start_phase:
  "phase (main_loop a b c rx_main_init) = (if a = None \<and> b = None \<and> c = None then InRun else Exited EXIT_FAILURE)"
  by (auto simp: main_loop_def rx_main_init_def rx_start_def SbdReceiver_Factory_def Let_def split: option.splits)

lemma main_inv_AtLoop: "main_inv m \<Longrightarrow> phase m = AtLoop \<Longrightarrow> \<not> m_stopping m \<Longrightarrow> m = rx_main_init"
  by (cases m) (simp add: main_inv_def rx_main_init_def)

text \<open>How the program can have failed.\<close>

lemma main_failed:
  assumes "main_reach h rx_main_init m" and "phase m = Exited EXIT_FAILURE"
  shows "\<exists>a b c. (a \<noteq> None \<or> b \<noteq> None \<or> c \<noteq> None) \<and> m = main_loop a b c rx_main_init"
  using assms
proof cases
  case (step m0)
  from step(2) show ?thesis
  proof cases
    case (loop a b c)
    have stopping: "\<not> m_stopping m0"
      using loop assms(2) by (auto simp: main_loop_def EXIT_SUCCESS_def EXIT_FAILURE_def)
    have "m0 = rx_main_init" by (rule main_inv_AtLoop [OF main_inv_reach [OF step(1)] loop(2) stopping])
    with loop(1) assms(2) rx_start_phase [of a b c] show ?thesis by (metis main_phase.distinct(5))
  qed (use assms(2) in \<open>auto simp: main_signal_def\<close>)
qed (use assms(2) in \<open>simp add: rx_main_init_def\<close>)

text \<open>C38 (safety). The program receives until it is told to stop. Before a signal \<open>run\<close> does not return, and
  the receiver is open with one accept outstanding; the loop is entered once, from the initial state, where
  \<open>start\<close> is called: if none of its system calls fails the program is in \<open>run\<close>, else it exits with failure.
  An exit with failure comes only from such a failure of a system call of that one \<open>start\<close>, and one
  with success only after a signal; there is no other exit.\<close>

theorem main_receives_until_signal:
  assumes "main_reach h rx_main_init m"
  shows "(phase m = InRun \<and> \<not> m_stopping m \<longrightarrow>
      acceptor_open (main_rx m) \<and> accepts (main_rx m) = 1 \<and> \<not> no_work m) \<and>
    (phase m = AtLoop \<and> \<not> m_stopping m \<longrightarrow> m = rx_main_init \<and>
      (\<forall>a b c. phase (main_loop a b c m) = (if a = None \<and> b = None \<and> c = None then InRun else Exited EXIT_FAILURE))) \<and>
    (phase m = Exited EXIT_SUCCESS \<longrightarrow> m_stopping m) \<and>
    (phase m = Exited EXIT_FAILURE \<longrightarrow> \<not> m_stopping m \<and> emitted (main_rx m) = [] \<and>
      (\<exists>a b c. (a \<noteq> None \<or> b \<noteq> None \<or> c \<noteq> None) \<and> m = main_loop a b c rx_main_init)) \<and>
    (\<forall>n. phase m = Exited n \<longrightarrow> n = EXIT_SUCCESS \<or> n = EXIT_FAILURE)"
  using main_inv_reach [OF assms] main_inv_AtLoop [of m] main_failed [OF assms] rx_start_phase
  by (cases "m_stopping m") (auto simp: main_inv_def no_work_def EXIT_SUCCESS_def EXIT_FAILURE_def SbdReceiver_Factory_def)

lemma main_running:
  "main_reach h rx_main_init (rx_main_init\<lparr>phase := InRun,
     main_rx := SbdReceiver_Factory\<lparr>acceptor_open := True, rx_sentinel := True, accepts := 1\<rparr>\<rparr>)"
proof -
  have "main_step h rx_main_init (main_loop None None None rx_main_init)"
    by (rule main_step.loop) (simp add: rx_main_init_def)
  from main_reach.step [OF main_reach.here this] show ?thesis
    by (simp add: main_loop_def rx_main_init_def rx_start_def doAccept_def SbdReceiver_Factory_def)
qed

theorem main_receives_until_signal_witness:
  "\<exists>m. main_reach sample_host rx_main_init m \<and> phase m = InRun \<and> \<not> m_stopping m \<and>
     accepts (main_rx m) = 1 \<and> \<not> no_work m"
proof -
  let ?m = "rx_main_init\<lparr>phase := InRun,
     main_rx := SbdReceiver_Factory\<lparr>acceptor_open := True, rx_sentinel := True, accepts := 1\<rparr>\<rparr>"
  have "main_reach sample_host rx_main_init ?m" by (rule main_running)
  moreover have "phase ?m = InRun" "\<not> m_stopping ?m" by (simp_all add: rx_main_init_def)
  ultimately show ?thesis using main_receives_until_signal [of sample_host ?m] by blast
qed

section \<open>What the program receives\<close>

text \<open>The receiver of the program makes a run of its own, so that what holds of every run of a receiver
  holds of the program.\<close>

lemma main_reach_run:
  assumes "main_reach h rx_main_init m"
  shows "\<exists>ins. rx_run h SbdReceiver_Factory ins (main_rx m)"
  using assms
proof (induction rule: main_reach.induct)
  case here
  show ?case by (rule exI [of _ "[]"]) (simp add: rx_main_init_def rx_run.nil)
next
  case (step m m')
  from step.IH obtain ins where run: "rx_run h SbdReceiver_Factory ins (main_rx m)" ..
  have inv: "main_inv m" by (rule main_inv_reach [OF step.hyps(1)])
  have destroy: "\<exists>ins. rx_run h SbdReceiver_Factory ins (rx_destroy r)"
    if "rx_run h SbdReceiver_Factory ins' r" "exists r" for r ins'
    using rx_run.snoc [OF that(1) rx_step.destroy [OF that(2)]] by blast
  from step.hyps(2) show ?case
  proof cases
    case (loop a b c)
    with inv have e: "exists (main_rx m)"
      by (cases "m_stopping m") (simp_all add: main_inv_def SbdReceiver_Factory_def)
    have "rx_run h SbdReceiver_Factory (ins @ [RxStart a b c]) (snd (rx_start a b c (main_rx m)))"
      by (rule rx_run.snoc [OF run rx_step.start [OF e]])
    moreover have "exists (snd (rx_start a b c (main_rx m)))"
      using e rx_start_cases [of a b c "main_rx m"] by (auto simp: doAccept_def)
    ultimately show ?thesis
      using loop destroy run e by (auto simp: main_loop_def split: prod.splits sum.splits)
  next
    case (signal e)
    with inv have "exists (main_rx m)" by (simp add: main_inv_def)
    from rx_run.snoc [OF run rx_step.stop [OF this, of h False e]] signal show ?thesis
      by (auto simp: main_signal_def)
  next
    case (accept res r)
    from rx_run.snoc [OF run accept(3)] accept(1) show ?thesis by auto
  next
    case (read k res r)
    from rx_run.snoc [OF run read(3)] read(1) show ?thesis by auto
  next
    case run_returns
    with run show ?thesis by auto
  qed
qed

section \<open>After a signal\<close>

text \<open>The states that the handler of a connection leads to when it runs after the signal; no step leaves
  them.\<close>

definition stuck :: "rx_main \<Rightarrow> bool" where
  "stuck m \<longleftrightarrow> phase m = InRun \<and> m_stopping m \<and> \<not> signal_wait m \<and> exists (main_rx m) \<and> \<not> acceptor_open (main_rx m) \<and>
     accepts (main_rx m) = 1 \<and> cancelled_accepts (main_rx m) = 0"

lemma stuck_step:
  assumes "stuck m" and "main_step h m m'"
  shows "stuck m'"
  using assms(2)
proof cases
  case (accept res r)
  with assms(1) accept_frame [OF accept(3)] show ?thesis by (auto simp: stuck_def elim!: rx_step_AcceptE)
next
  case (read k res r)
  then have "on_session_read h k res (main_rx m) = Some r" by (auto elim: rx_step_SessionReadE)
  from on_session_read_frame [OF this] assms(1) read show ?thesis by (simp add: stuck_def)
qed (use assms(1) in \<open>auto simp: stuck_def no_work_def\<close>)

text \<open>After the signal, with \<open>n\<close> sessions at that time: either a connection has been accepted nevertheless, and
  nothing will end the program, or there are the sessions of that time.\<close>

definition after_signal :: "nat \<Rightarrow> rx_main \<Rightarrow> bool" where
  "after_signal n m \<longleftrightarrow> main_inv m \<and> m_stopping m \<and>
     (stuck m \<or> length (sessions (main_rx m)) = n \<and> (phase m \<in> {InRun, AtLoop} \<longrightarrow> accepts (main_rx m) = 0))"

lemma on_session_read_length:
  "on_session_read h k res r = Some r' \<Longrightarrow> length (sessions r') = length (sessions r)"
  by (auto simp: on_session_read_def split: bind_splits)

lemma after_signal_step:
  assumes "after_signal n m" and st: "main_step h m m'"
  shows "after_signal n m'"
proof -
  from assms(1) have m: "main_inv m" "m_stopping m" by (simp_all add: after_signal_def)
  have inv: "main_inv m'" by (rule main_inv_step [OF m(1) st])
  show ?thesis
  proof (cases "stuck m")
    case True
    have "stuck m'" by (rule stuck_step [OF True st])
    with inv show ?thesis by (simp add: after_signal_def stuck_def)
  next
    case False
    with assms(1) have n: "length (sessions (main_rx m)) = n" "phase m \<in> {InRun, AtLoop} \<longrightarrow> accepts (main_rx m) = 0"
      by (simp_all add: after_signal_def)
    from st show ?thesis
    proof cases
      case (loop a b c)
      with m n inv show ?thesis by (simp add: after_signal_def main_loop_def rx_destroy_def rx_stop_snd)
    next
      case signal
      with m show ?thesis by (simp add: main_inv_def)
    next
      case (accept res r)
      with m n inv show ?thesis
        by (auto elim!: rx_step_AcceptE simp: on_accept_def doAccept_def after_signal_def stuck_def main_inv_def
            split: accepted.splits)
    next
      case (read k res r)
      then have "on_session_read h k res (main_rx m) = Some r" by (auto elim: rx_step_SessionReadE)
      with read m n inv on_session_read_frame [OF this] on_session_read_length [OF this] show ?thesis
        by (simp add: after_signal_def)
    next
      case run_returns
      with m n inv show ?thesis by (simp add: after_signal_def no_work_def)
    qed
  qed
qed

text \<open>A program that only waits for its sessions. The peer of a session can end it.\<close>

definition closing :: "rx_main \<Rightarrow> bool" where
  "closing m \<longleftrightarrow> phase m = InRun \<and> m_stopping m \<and> \<not> signal_wait m \<and> exists (main_rx m) \<and>
     \<not> rx_sentinel (main_rx m) \<and> accepts (main_rx m) = 0 \<and> cancelled_accepts (main_rx m) = 0"

definition open_sessions :: "rx_main \<Rightarrow> nat" where
  "open_sessions m = length (filter (\<lambda>s. reading s \<noteq> None) (sessions (main_rx m)))"

lemma length_filter_update:
  "k < length xs \<Longrightarrow> P (xs ! k) \<Longrightarrow> \<not> P x \<Longrightarrow> length (filter P (xs[k := x])) < length (filter P xs)"
proof (induction xs arbitrary: k)
  case (Cons y ys)
  then show ?case by (cases k) auto
qed simp

lemma after_signal_closing:
  assumes "after_signal n m" and "main_reach h m m'" and "phase m' = InRun"
    and "accepts (main_rx m') = 0" "cancelled_accepts (main_rx m') = 0"
  shows "closing m' \<and> length (sessions (main_rx m')) = n"
proof -
  have "after_signal n m'"
    using main_reach_invariant [where I = "after_signal n", OF assms(2,1) after_signal_step] .
  with assms(3-5) show ?thesis by (auto simp: after_signal_def closing_def stuck_def main_inv_def)
qed

lemma ended_stays:
  assumes "main_step h m m'" and "closing m"
    and "k < length (sessions (main_rx m))" "reading (sessions (main_rx m) ! k) = None"
  shows "reading (sessions (main_rx m') ! k) = None"
  using assms(1)
proof cases
  case (read l res r)
  then have "on_session_read h l res (main_rx m) = Some r" "reading (sessions (main_rx m) ! l) \<noteq> None"
    by (auto elim: rx_step_SessionReadE)
  with read assms(3,4) show ?thesis
    by (cases "l = k") (auto simp: on_session_read_def split: bind_splits)
qed (use assms in \<open>auto simp: closing_def elim!: rx_step_AcceptE\<close>)

lemma session_ends:
  assumes "closing m" and "k < length (sessions (main_rx m))" "reading (sessions (main_rx m) ! k) \<noteq> None"
  shows "\<exists>m'. main_step h m m' \<and> closing m' \<and> open_sessions m' < open_sessions m"
proof -
  let ?s = "(sessions (main_rx m) ! k)\<lparr>reading := None\<rparr>"
  let ?m = "m\<lparr>main_rx := (main_rx m)\<lparr>sessions := (sessions (main_rx m))[k := ?s],
     emitted := emitted (main_rx m) @ report (exists (main_rx m)) [RxError []]\<rparr>\<rparr>"
  from assms(2,3) have "rx_step h (main_rx m) (SessionRead k (Inl [])) (on_session_read h k (Inl []) (main_rx m))"
    by (auto intro: rx_step.read)
  then have "rx_step h (main_rx m) (SessionRead k (Inl [])) (Some (main_rx ?m))"
    by (simp add: on_session_read_def)
  with assms(1) main_step.read [of m h k "Inl []" "main_rx ?m"] have "main_step h m ?m"
    by (simp add: closing_def)
  moreover have "closing ?m" using assms(1) by (simp add: closing_def)
  moreover have "open_sessions ?m < open_sessions m"
    using length_filter_update [OF assms(2), of "\<lambda>s. reading s \<noteq> None" ?s] assms(3) by (simp add: open_sessions_def)
  ultimately show ?thesis by blast
qed

lemma no_open_sessions: "open_sessions m = 0 \<longleftrightarrow> (\<forall>s \<in> set (sessions (main_rx m)). reading s = None)"
  by (auto simp: open_sessions_def filter_empty_conv)

lemma closing_ends:
  assumes "closing m"
  shows "\<exists>m'. main_reach h m m' \<and> closing m' \<and> open_sessions m' = 0"
  using assms
proof (induction "open_sessions m" arbitrary: m rule: less_induct)
  case less
  show ?case
  proof (cases "open_sessions m = 0")
    case True
    with less.prems show ?thesis by (blast intro: main_reach.here)
  next
    case False
    then obtain k where k: "k < length (sessions (main_rx m))" "reading (sessions (main_rx m) ! k) \<noteq> None"
      unfolding no_open_sessions by (metis in_set_conv_nth)
    from session_ends [OF less.prems k] less.hyps show ?thesis
      by (blast intro: main_states.reach_first)
  qed
qed

text \<open>Once they have ended there is just one way to go on.\<close>

lemma closed_only_returns:
  assumes "closing m" and "open_sessions m = 0"
  shows "main_step h m m' \<longleftrightarrow> m' = m\<lparr>phase := AtLoop\<rparr>"
    and "main_step h (m\<lparr>phase := AtLoop\<rparr>) m' \<longleftrightarrow>
      m' = m\<lparr>phase := Exited EXIT_SUCCESS, main_rx := rx_destroy (main_rx m)\<rparr>"
proof -
  from assms have w: "no_work m" unfolding closing_def no_open_sessions no_work_def by blast
  show "main_step h m m' \<longleftrightarrow> m' = m\<lparr>phase := AtLoop\<rparr>"
  proof
    assume "main_step h m m'"
    then show "m' = m\<lparr>phase := AtLoop\<rparr>"
      by cases (use assms w in \<open>auto simp: closing_def no_open_sessions elim!: rx_step_AcceptE rx_step_SessionReadE\<close>)
  next
    assume "m' = m\<lparr>phase := AtLoop\<rparr>"
    with main_step.run_returns [OF _ w] assms(1) show "main_step h m m'" by (simp add: closing_def)
  qed
  have l: "main_loop a b c (m\<lparr>phase := AtLoop\<rparr>) = m\<lparr>phase := Exited EXIT_SUCCESS, main_rx := rx_destroy (main_rx m)\<rparr>" for a b c
    using assms(1) by (simp add: main_loop_def closing_def)
  show "main_step h (m\<lparr>phase := AtLoop\<rparr>) m' \<longleftrightarrow>
      m' = m\<lparr>phase := Exited EXIT_SUCCESS, main_rx := rx_destroy (main_rx m)\<rparr>"
  proof
    assume "main_step h (m\<lparr>phase := AtLoop\<rparr>) m'"
    then show "m' = m\<lparr>phase := Exited EXIT_SUCCESS, main_rx := rx_destroy (main_rx m)\<rparr>"
      by cases (use l in auto)
  next
    assume "m' = m\<lparr>phase := Exited EXIT_SUCCESS, main_rx := rx_destroy (main_rx m)\<rparr>"
    with main_step.loop [of "m\<lparr>phase := AtLoop\<rparr>" h None None None] l show "main_step h (m\<lparr>phase := AtLoop\<rparr>) m'" by simp
  qed
qed

text \<open>The signal itself, and the two ways in which the accept that it cancels can end.\<close>

definition told_to_end :: "rx_main \<Rightarrow> rx_main" where
  "told_to_end m = m\<lparr>signal_wait := False, m_stopping := True, main_rx := (main_rx m)
     \<lparr>rx_sentinel := False, acceptor_open := False, accepts := 0, cancelled_accepts := 1\<rparr>\<rparr>"

lemma signal_comes:
  assumes "main_reach h rx_main_init m" and "phase m = InRun" and "\<not> m_stopping m"
  shows "main_signal e m = told_to_end m" and "main_step h m (main_signal e m)" and "exists (main_rx m)"
proof -
  from main_inv_reach [OF assms(1)] assms(2,3)
  have r: "exists (main_rx m)" "acceptor_open (main_rx m)" "accepts (main_rx m) = 1" "cancelled_accepts (main_rx m) = 0"
      "signal_wait m"
    by (simp_all add: main_inv_def)
  then show "main_signal e m = told_to_end m" by (simp add: main_signal_def rx_stop_snd told_to_end_def)
  show "main_step h m (main_signal e m)" by (rule main_step.signal [OF assms(2) r(5)])
  show "exists (main_rx m)" by (rule r(1))
qed

lemma signal_after:
  assumes "main_reach h rx_main_init m" and "phase m = InRun" and "\<not> m_stopping m"
  shows "after_signal (length (sessions (main_rx m))) (main_signal e m)"
  using main_inv_step [OF main_inv_reach [OF assms(1)] signal_comes(2) [OF assms]] signal_comes(1) [OF assms]
  by (simp add: after_signal_def told_to_end_def)

lemma signal_told:
  assumes "main_reach h rx_main_init m" and "phase m = InRun" and "\<not> m_stopping m"
  shows "\<exists>m'. main_step h (main_signal e m) m' \<and> phase m' = InRun \<and> accepts (main_rx m') = 0 \<and>
    cancelled_accepts (main_rx m') = 0 \<and> sessions (main_rx m') = sessions (main_rx m)"
proof -
  let ?s = "told_to_end m"
  have "main_step h ?s (?s\<lparr>main_rx := (main_rx ?s)\<lparr>cancelled_accepts := 0\<rparr>\<rparr>)"
    using main_step.accept [of ?s h AcceptAborted] rx_step.accept_cancelled [of "main_rx ?s" h AcceptAborted] assms(2)
    by (simp add: on_accept_def told_to_end_def)
  then show ?thesis
    unfolding signal_comes(1) [OF assms] by - (rule exI, rule conjI, assumption, simp add: assms(2) told_to_end_def)
qed

lemma signal_race:
  assumes "main_reach h rx_main_init m" and "phase m = InRun" and "\<not> m_stopping m"
  shows "\<exists>m'. main_step h (main_signal e m) m' \<and>
    length (sessions (main_rx m')) = Suc (length (sessions (main_rx m))) \<and>
    (\<forall>m''. main_reach h m' m'' \<longrightarrow> phase m'' = InRun)"
proof -
  let ?s = "told_to_end m"
  let ?t = "?s\<lparr>main_rx := (main_rx ?s)\<lparr>cancelled_accepts := 0,
    sessions := sessions (main_rx m) @ [session_start session_new], accepts := 1\<rparr>\<rparr>"
  have t: "main_step h ?s ?t"
    using main_step.accept [of ?s h AcceptOk] rx_step.accept_cancelled [of "main_rx ?s" h AcceptOk] assms(2)
      signal_comes(3) [OF assms]
    by (simp add: on_accept_def doAccept_def told_to_end_def)
  have "stuck ?t" using assms(2) signal_comes(3) [OF assms] by (simp add: stuck_def told_to_end_def)
  then have "phase m'' = InRun" if "main_reach h ?t m''" for m''
    using main_reach_invariant [where I = stuck, OF that _ stuck_step] by (simp add: stuck_def)
  with t show ?thesis
    unfolding signal_comes(1) [OF assms] by (intro exI [of _ ?t]) simp
qed

text \<open>C39 (liveness). A signal ends the program if the accept that it cancels is told so. Whatever the sessions of
  that time receive, no further one is there; they end when their peers close them, and one that has ended
  does not read again. When none reads any more, the only way on is that \<open>run\<close> returns, the loop is
  left and the program exits with success, with nothing emitted any more. But if a connection was accepted
  before the signal and its handler is queued, every run from there goes on for ever.\<close>

theorem main_after_signal:
  assumes "main_reach h rx_main_init m" and "phase m = InRun" and "\<not> m_stopping m"
  shows "(\<exists>m'. main_step h (main_signal e m) m' \<and> phase m' = InRun \<and> accepts (main_rx m') = 0 \<and>
      cancelled_accepts (main_rx m') = 0 \<and> sessions (main_rx m') = sessions (main_rx m)) \<and>
    (\<forall>m'. main_reach h (main_signal e m) m' \<and> phase m' = InRun \<and>
        accepts (main_rx m') = 0 \<and> cancelled_accepts (main_rx m') = 0 \<longrightarrow>
      length (sessions (main_rx m')) = length (sessions (main_rx m)) \<and>
      (\<forall>m'' k. main_step h m' m'' \<and> k < length (sessions (main_rx m')) \<and> reading (sessions (main_rx m') ! k) = None \<longrightarrow>
         reading (sessions (main_rx m'') ! k) = None) \<and>
      (\<exists>m''. main_reach h m' m'' \<and> phase m'' = InRun \<and> (\<forall>s \<in> set (sessions (main_rx m'')). reading s = None)) \<and>
      ((\<forall>s \<in> set (sessions (main_rx m')). reading s = None) \<longrightarrow>
         (\<forall>m''. main_step h m' m'' \<longleftrightarrow> m'' = m'\<lparr>phase := AtLoop\<rparr>) \<and>
         (\<forall>m''. main_step h (m'\<lparr>phase := AtLoop\<rparr>) m'' \<longleftrightarrow>
            m'' = m'\<lparr>phase := Exited EXIT_SUCCESS, main_rx := rx_destroy (main_rx m')\<rparr>))) \<and>
    (\<exists>m'. main_step h (main_signal e m) m' \<and>
      length (sessions (main_rx m')) = Suc (length (sessions (main_rx m))) \<and>
      (\<forall>m''. main_reach h m' m'' \<longrightarrow> phase m'' = InRun))"
proof (intro conjI, rule signal_told [OF assms])
  note after = signal_after [OF assms]
  show "\<forall>m'. main_reach h (main_signal e m) m' \<and> phase m' = InRun \<and>
        accepts (main_rx m') = 0 \<and> cancelled_accepts (main_rx m') = 0 \<longrightarrow>
      length (sessions (main_rx m')) = length (sessions (main_rx m)) \<and>
      (\<forall>m'' k. main_step h m' m'' \<and> k < length (sessions (main_rx m')) \<and> reading (sessions (main_rx m') ! k) = None \<longrightarrow>
         reading (sessions (main_rx m'') ! k) = None) \<and>
      (\<exists>m''. main_reach h m' m'' \<and> phase m'' = InRun \<and> (\<forall>s \<in> set (sessions (main_rx m'')). reading s = None)) \<and>
      ((\<forall>s \<in> set (sessions (main_rx m')). reading s = None) \<longrightarrow>
         (\<forall>m''. main_step h m' m'' \<longleftrightarrow> m'' = m'\<lparr>phase := AtLoop\<rparr>) \<and>
         (\<forall>m''. main_step h (m'\<lparr>phase := AtLoop\<rparr>) m'' \<longleftrightarrow>
            m'' = m'\<lparr>phase := Exited EXIT_SUCCESS, main_rx := rx_destroy (main_rx m')\<rparr>))" (is "\<forall>m'. _ \<longrightarrow> ?ends m'")
  proof (intro allI impI)
    fix m'
    assume "main_reach h (main_signal e m) m' \<and> phase m' = InRun \<and>
        accepts (main_rx m') = 0 \<and> cancelled_accepts (main_rx m') = 0"
    then have c: "closing m'" and n: "length (sessions (main_rx m')) = length (sessions (main_rx m))"
      using after_signal_closing [OF after] by blast+
    obtain m'' where "main_reach h m' m''" "phase m'' = InRun" "\<forall>s \<in> set (sessions (main_rx m'')). reading s = None"
      using closing_ends [OF c] unfolding no_open_sessions closing_def by blast
    with n ended_stays [OF _ c] closed_only_returns [OF c, unfolded no_open_sessions] show "?ends m'" by blast
  qed
qed (rule signal_race [OF assms])

theorem main_after_signal_witness:
  "\<exists>m m'. main_reach sample_host rx_main_init m \<and> \<not> m_stopping m \<and>
     main_reach sample_host (main_signal None m) m' \<and> phase m' = InRun \<and>
     (\<forall>m''. main_step sample_host m' m'' \<longleftrightarrow> m'' = m'\<lparr>phase := AtLoop\<rparr>)"
proof -
  let ?m = "rx_main_init\<lparr>phase := InRun,
     main_rx := SbdReceiver_Factory\<lparr>acceptor_open := True, rx_sentinel := True, accepts := 1\<rparr>\<rparr>"
  have m: "sessions (main_rx ?m) = []" "phase ?m = InRun" "\<not> m_stopping ?m"
    by (simp_all add: SbdReceiver_Factory_def rx_main_init_def)
  note ends = main_after_signal [OF main_running m(2,3), of sample_host None]
  from ends obtain m' where m': "main_step sample_host (main_signal None ?m) m'" "phase m' = InRun"
      "accepts (main_rx m') = 0" "cancelled_accepts (main_rx m') = 0" "sessions (main_rx m') = []"
    unfolding m(1) by blast
  then have r: "main_reach sample_host (main_signal None ?m) m'" by (blast intro: main_reach.intros)
  with ends m' have "\<forall>m''. main_step sample_host m' m'' \<longleftrightarrow> m'' = m'\<lparr>phase := AtLoop\<rparr>" by simp
  with r m'(2) m(3) main_running [of sample_host] show ?thesis by blast
qed

section \<open>daemonize\<close>

text \<open>What a process that runs \<open>daemonize\<close> changes. The results of the system calls are arguments: what the
  two \<open>fork\<close> return, whether \<open>chdir\<close> succeeds, and the descriptor of \<open>/dev/null\<close> and of the file, if they
  can be opened.\<close>

record daemon =
  dm_files :: files
  dm_cwd :: string
  session_leader :: bool
  file_mask :: nat
  descriptors :: "nat list"

text \<open>A relative name is looked up in the working directory.\<close>

definition resolve :: "string \<Rightarrow> string \<Rightarrow> string" where
  "resolve cwd name = (if take 1 name = ''/'' then name else cwd @ ''/'' @ name)"

text \<open>\<open>O_CREAT | O_WRONLY\<close>: what is behind the bytes written stays.\<close>

definition overwrite :: "files \<Rightarrow> string \<Rightarrow> string \<Rightarrow> files" where
  "overwrite fs name text = fs(name \<mapsto> text @ drop (length text) (case fs name of None \<Rightarrow> [] | Some old \<Rightarrow> old))"

text \<open>The left side is the code with which the process exits.\<close>

definition daemonize :: "int \<Rightarrow> int \<Rightarrow> bool \<Rightarrow> nat option \<Rightarrow> nat option \<Rightarrow> nat \<Rightarrow> string \<Rightarrow> string \<Rightarrow> daemon \<Rightarrow>
    (int + unit) \<times> daemon" where
  "daemonize fork1 fork2 chdir_ok null_fd pid_fd mypid pidFilename workDir d =
     (if fork1 < 0 then (Inl EXIT_FAILURE, d)
      else if fork1 > 0 then (Inl EXIT_SUCCESS, d)
      else
        let d = d\<lparr>session_leader := True\<rparr> in
        if fork2 < 0 then (Inl EXIT_FAILURE, d)
        else if fork2 > 0 then (Inl EXIT_SUCCESS, d)
        else
          let d = d\<lparr>session_leader := False\<rparr> in
          if workDir \<noteq> [] \<and> \<not> chdir_ok then (Inl EXIT_FAILURE, d)
          else
            let d = (if workDir \<noteq> [] then d\<lparr>dm_cwd := resolve (dm_cwd d) workDir\<rparr> else d);
                d = d\<lparr>file_mask := 0\<rparr>;
                d = (case null_fd of None \<Rightarrow> d
                     | Some fd \<Rightarrow> if fd > 2 then d else d\<lparr>descriptors := fd # descriptors d\<rparr>)
            in case pid_fd of
                 None \<Rightarrow> (Inl EXIT_FAILURE, d)
               | Some fd \<Rightarrow> (Inr (), d\<lparr>dm_files := overwrite (dm_files d) (resolve (dm_cwd d) pidFilename) (pid_line mypid)\<rparr>))"

text \<open>The files as \<open>alreadyRunning\<close> sees them, all of them readable.\<close>

definition readable :: "files \<Rightarrow> string \<Rightarrow> string option option" where
  "readable fs name = map_option Some (fs name)"

text \<open>C30 (roundtrip). The process in which \<open>daemonize\<close> returns is found by \<open>alreadyRunning\<close> afterwards, under
  the name it wrote its number to, as long as its command line contains the name of the program, and
  whatever an older file of that name had held; it leads no session, so that it gets no terminal.\<close>

theorem daemon_found:
  assumes "daemonize fork1 fork2 chdir_ok null_fd pid_fd n pidFilename workDir d = (Inr (), d')"
    and "n < 2147483648"
    and "dm_files d' (''/proc/'' @ show_nat n @ ''/cmdline'') = Some cmdline" and "cmdline \<noteq> []"
    and "occurs appName (takeWhile (\<lambda>c. c \<noteq> CHR 0x0A) cmdline)"
  shows "alreadyRunning (readable (dm_files d')) (resolve (dm_cwd d') pidFilename) appName = Some True \<and>
    \<not> session_leader d' \<and> fork1 = 0 \<and> fork2 = 0 \<and> (workDir \<noteq> [] \<longrightarrow> chdir_ok)"
proof -
  from assms(1) have fork: "fork1 = 0" "fork2 = 0" "workDir \<noteq> [] \<longrightarrow> chdir_ok" "\<not> session_leader d'"
    and "\<exists>fs. dm_files d' = overwrite fs (resolve (dm_cwd d') pidFilename) (pid_line n)"
    by (auto simp: daemonize_def Let_def split: if_splits option.splits)
  then obtain rest where "dm_files d' (resolve (dm_cwd d') pidFilename) = Some (pid_line n @ rest)"
    by (auto simp: overwrite_def)
  then have "readable (dm_files d') (resolve (dm_cwd d') pidFilename) = Some (Some (pid_line n @ rest))"
    by (simp add: readable_def)
  from already_running_reads_pid [OF assms(2), of "readable (dm_files d')", OF this] assms(3-5) fork show ?thesis
    by (simp add: readable_def)
qed

theorem daemon_found_witness:
  "\<exists>d'. daemonize 0 0 True (Some 3) (Some 3) 42 ''/run/r.pid'' ''/''
      \<lparr>dm_files = [''/proc/42/cmdline'' \<mapsto> ''receiver'', ''/run/r.pid'' \<mapsto> ''an older and longer line''],
       dm_cwd = ''/root'', session_leader = False, file_mask = 18, descriptors = []\<rparr> = (Inr (), d') \<and>
    alreadyRunning (readable (dm_files d')) ''/run/r.pid'' ''ceive'' = Some True"
proof -
  let ?d = "\<lparr>dm_files = [''/proc/42/cmdline'' \<mapsto> ''receiver'', ''/run/r.pid'' \<mapsto> ''an older and longer line''],
       dm_cwd = ''/root'', session_leader = False, file_mask = 18, descriptors = []\<rparr>"
  obtain d' where d: "daemonize 0 0 True (Some 3) (Some 3) 42 ''/run/r.pid'' ''/'' ?d = (Inr (), d')"
    by (simp add: daemonize_def Let_def)
  then have "dm_files d' ''/proc/42/cmdline'' = Some ''receiver''"
    by (auto simp: daemonize_def Let_def resolve_def overwrite_def)
  moreover have "show_nat 42 = ''42''" by code_simp
  moreover have "occurs ''ceive'' (takeWhile (\<lambda>c. c \<noteq> CHR 0x0A) ''receiver'')" by code_simp
  ultimately have "alreadyRunning (readable (dm_files d')) (resolve (dm_cwd d') ''/run/r.pid'') ''ceive'' = Some True"
    using daemon_found [OF d, of "''receiver''" "''ceive''"] by simp
  with d show ?thesis by (simp add: resolve_def)
qed

end
