(* ===== verification/TransmitterThread.thy ===== *)
theory TransmitterThread
  imports TransmitterProps
begin

text \<open>
  src/SbdTransmitter.cpp, the life of the worker thread: the \<open>std::thread\<close> that \<open>start\<close> creates, the
  \<open>join\<close> at the end of \<open>stop\<close>, and the destructor. One client owns the transmitter and is blocked while
  it joins; the worker and the completions of the io service go on meanwhile.
\<close>

section \<open>What does not touch the thread\<close>

definition same_thread :: "tx \<Rightarrow> tx \<Rightarrow> bool" where
  "same_thread s s' \<longleftrightarrow> thread s' = thread s \<and> m_running s' = m_running s \<and> m_shutdown s' = m_shutdown s"

lemma StateMachine_same_thread: "StateMachine h s = Some s' \<Longrightarrow> same_thread s s'"
proof (induction h s rule: StateMachine.induct)
  case (1 h s)
  show ?case
  proof (cases "m_state s")
    case eReceivingConfirmation
    then obtain b where "m_buf s = Some b"
      using "1.prems" by (cases "m_buf s") (simp_all add: StateMachine.simps [of h s])
    with 1 eReceivingConfirmation show ?thesis
      by (auto simp: tx_simps launch_def enter_def same_thread_def split: if_splits)
  next
    case eProcessingConfirmation
    with "1.prems" obtain ok t where p: "process_confirmation h s = Some (ok, t)"
      and t: "StateMachine h (enter (if ok then eSuccess else eError) t) = Some s'"
      by (auto simp: tx_simps split: bind_splits prod.splits)
    from process_confirmation_processed [OF p]
    have "same_thread s (enter (if ok then eSuccess else eError) t)"
      by cases (auto simp: same_thread_def emit_def enter_def)
    with "1.IH"(2) [OF eProcessingConfirmation p refl] t show ?thesis
      by (auto simp: same_thread_def)
  qed (use 1 in \<open>auto simp: tx_simps launch_def emit_def enter_def same_thread_def Let_def split: prod.splits\<close>)
qed

fun from_io :: "tx_input \<Rightarrow> bool" where
  "from_io (Resolved r) = True"
| "from_io (Connected r) = True"
| "from_io (WriteDone r) = True"
| "from_io (HeaderRead r) = True"
| "from_io (ConfirmationRead r) = True"
| "from_io (TimerFired r) = True"
| "from_io PeerGone = True"
| "from_io _ = False"

fun from_worker :: "tx_input \<Rightarrow> bool" where
  "from_worker WorkerBegin = True"
| "from_worker WorkerCheck = True"
| "from_worker (WorkerWait t) = True"
| "from_worker WorkerEnter = True"
| "from_worker _ = False"

lemma answers_from_io: "answers op i \<Longrightarrow> from_io i"
  by (cases op; cases i) simp_all

lemma react_io_same_thread:
  assumes "react h i s = Some s'" and "from_io i"
  shows "same_thread s s'"
proof -
  have sm: "StateMachine h t = Some s' \<Longrightarrow> same_thread s t \<Longrightarrow> same_thread s s'" for t
    using StateMachine_same_thread [of h t s'] by (simp add: same_thread_def)
  have upd: "same_thread s (enter st s)" "same_thread s (fail err s)" "same_thread s (enter st (s\<lparr>m_rIterator := x\<rparr>))"
    "same_thread s (enter st (s\<lparr>m_buf := b\<rparr>))" "same_thread s (enter st (s\<lparr>m_buf := b, m_confirmationLength := l\<rparr>))"
    "same_thread s (fail err (s\<lparr>m_buf := b\<rparr>))" "same_thread s (fail err (s\<lparr>sock_peer := p\<rparr>))"
    "same_thread s (enter st (s\<lparr>sock_peer := p\<rparr>))" "same_thread s (s\<lparr>sock_peer := p\<rparr>)" "same_thread s s"
    "same_thread s (s\<lparr>m_buf := b\<rparr>)" "same_thread s (enter st (s\<lparr>m_errDelay := d\<rparr>))"
    for st err x b l p d
    by (simp_all add: same_thread_def enter_def fail_def emit_def)
  show ?thesis
  proof (cases i)
    case (Resolved x)
    with assms upd show ?thesis by (cases x) (auto split: if_splits dest!: sm)
  next
    case (Connected x)
    with assms upd show ?thesis by (cases x) (auto split: if_splits dest!: sm)
  next
    case (WriteDone x)
    with assms upd show ?thesis by (cases x) (auto simp: Let_def split: if_splits dest!: sm)
  next
    case (HeaderRead x)
    with assms upd show ?thesis
      by (cases x) (auto simp: Let_def split: if_splits bind_splits prod.splits dest!: sm)
  next
    case (ConfirmationRead x)
    with assms upd show ?thesis
      by (cases x) (auto simp: Let_def split: if_splits bind_splits prod.splits dest!: sm)
  next
    case (TimerFired x)
    with assms upd show ?thesis by (cases x) (auto split: if_splits dest!: sm)
  qed (use assms upd in auto)
qed

lemma tx_step_io_same_thread:
  assumes "tx_step h s i (Some s')" and "from_io i"
  shows "same_thread s s'"
  using assms(1)
proof cases
  case client
  with react_io_same_thread [of h i s s'] assms(2) show ?thesis by simp
next
  case (completed op)
  with react_io_same_thread [OF completed(1) [symmetric] assms(2)] show ?thesis by (simp add: same_thread_def)
next
  case (complete_cancelled op)
  with react_io_same_thread [OF complete_cancelled(1) [symmetric] assms(2)] show ?thesis by (simp add: same_thread_def)
qed (use assms(2) in auto)

section \<open>The owner\<close>

text \<open>What the client is doing: nothing, waiting in the \<open>join\<close> of \<open>stop\<close> or of the destructor, done with
  the transmitter, or ended by \<open>std::terminate\<close>, which destroying a joinable thread calls.\<close>

datatype client_pc = Free | Joining | DestructorJoining | Destroyed | Terminated

record owner =
  machine :: tx
  joinable :: bool
  client :: client_pc

definition owner_new :: "string \<Rightarrow> string \<Rightarrow> owner" where
  "owner_new host port = \<lparr>machine = SbdTransmitter_new host port, joinable = False, client = Free\<rparr>"

text \<open>\<open>swap\<close> leaves the old thread in the local pointer, which destroys it at the end of \<open>start\<close>.\<close>

definition own_start :: "owner \<Rightarrow> owner" where
  "own_start w =
     (if m_running (machine w) then w
      else w\<lparr>machine := start (machine w), joinable := True,
             client := (if joinable w then Terminated else client w)\<rparr>)"

definition own_stop :: "bool \<Rightarrow> exc option \<Rightarrow> exc option \<Rightarrow> owner \<Rightarrow> owner" where
  "own_stop woexcept timer_exc socket_exc w =
     (if \<not> m_running (machine w) then w
      else case stop woexcept timer_exc socket_exc (machine w) of
        (Inl e, s) \<Rightarrow> w\<lparr>machine := s\<rparr>
      | (Inr _, s) \<Rightarrow> w\<lparr>machine := s, client := Joining\<rparr>)"

text \<open>Destroying the members cancels what the timer, the socket and the resolver have outstanding.\<close>

definition destroy_members :: "owner \<Rightarrow> owner" where
  "destroy_members w =
     w\<lparr>machine := cancel (\<lambda>op. True) (machine w), client := (if joinable w then Terminated else Destroyed)\<rparr>"

definition own_destroy :: "exc option \<Rightarrow> exc option \<Rightarrow> owner \<Rightarrow> owner" where
  "own_destroy timer_exc socket_exc w =
     (if \<not> m_running (machine w) then destroy_members w
      else w\<lparr>machine := snd (stop True timer_exc socket_exc (machine w)), client := DestructorJoining\<rparr>)"

definition own_joined :: "owner \<Rightarrow> owner" where
  "own_joined w =
     (if client w = Joining then w\<lparr>joinable := False, client := Free\<rparr>
      else destroy_members (w\<lparr>joinable := False\<rparr>))"

datatype own_input = In tx_input | Joined | Destroy "exc option" "exc option"

text \<open>Handlers of a destroyed transmitter still run; they look at their error code first and touch the
  transmitter unless it says that they were cancelled.\<close>

inductive own_step :: "host \<Rightarrow> owner \<Rightarrow> own_input \<Rightarrow> owner option \<Rightarrow> bool" for h :: host where
  own_start: "client w = Free \<Longrightarrow> own_step h w (In Start) (Some (own_start w))"
| own_stop: "client w = Free \<Longrightarrow> own_step h w (In (Stop a b c)) (Some (own_stop a b c w))"
| own_post: "client w \<in> {Free, Joining} \<Longrightarrow> own_step h w (In (Post m)) (Some (w\<lparr>machine := post m (machine w)\<rparr>))"
| own_drop: "client w \<in> {Free, Joining} \<Longrightarrow>
    own_step h w (In DropMessages) (Some (w\<lparr>machine := dropMessages (machine w)\<rparr>))"
| own_destroy: "client w = Free \<Longrightarrow> own_step h w (Destroy b c) (Some (own_destroy b c w))"
| own_joined: "client w \<in> {Joining, DestructorJoining} \<Longrightarrow> thread (machine w) = NoThread \<Longrightarrow>
    own_step h w Joined (Some (own_joined w))"
| own_other: "client w \<in> {Free, Joining, DestructorJoining} \<Longrightarrow> from_worker i \<or> from_io i \<Longrightarrow>
    tx_step h (machine w) i r \<Longrightarrow> own_step h w (In i) (map_option (\<lambda>s. w\<lparr>machine := s\<rparr>) r)"
| own_late: "client w = Destroyed \<Longrightarrow> op \<in> set (cancelled (machine w)) \<Longrightarrow> answers op i \<Longrightarrow>
    own_step h w (In i) (if aborted i then Some (w\<lparr>machine := (machine w)\<lparr>cancelled := remove1 op (cancelled (machine w))\<rparr>\<rparr>)
      else None)"

inductive own_run :: "host \<Rightarrow> owner \<Rightarrow> own_input list \<Rightarrow> owner \<Rightarrow> bool" for h :: host and w :: owner where
  nil: "own_run h w [] w"
| snoc: "own_run h w ins w' \<Longrightarrow> own_step h w' i (Some w'') \<Longrightarrow> own_run h w (ins @ [i]) w''"

fun own_throws :: "own_input \<Rightarrow> bool" where
  "own_throws (In (Stop woexcept timer_exc socket_exc)) \<longleftrightarrow> \<not> woexcept \<and> (timer_exc \<noteq> None \<or> socket_exc \<noteq> None)"
| "own_throws _ = False"

interpretation own_runs: labelled_runs "\<lambda>w i w'. own_step h w i (Some w')" "own_run h" for h
  by (unfold_locales, auto intro: own_run.intros) (erule own_run.induct; blast)

lemma own_run_invariant:
  assumes "own_run h w ins w'" and "I w" and "\<forall>i \<in> set ins. ok i"
    and "\<And>w i w'. I w \<Longrightarrow> ok i \<Longrightarrow> own_step h w i (Some w') \<Longrightarrow> I w'"
  shows "I w'"
  using assms by (rule own_runs.runs_keep_ok)

section \<open>The thread that is joined\<close>

lemma stop_thread:
  "thread (snd (stop a b c s)) = thread s" "m_running (snd (stop a b c s)) = m_running s"
  "m_shutdown (snd (stop a b c s)) = (m_running s \<or> m_shutdown s)"
  by (simp_all add: stop_def stop_socket_def cancel_def Let_def split: option.splits)

lemma stop_throws: "stop a b c s = (Inl e, s') \<Longrightarrow> \<not> a \<and> (b \<noteq> None \<or> c \<noteq> None)"
  by (auto simp: stop_def stop_socket_def Let_def split: if_splits option.splits)

lemma worker_step_thread:
  assumes "tx_step h s i (Some s')" and "from_worker i"
  shows "m_shutdown s' = m_shutdown s \<and> thread s \<noteq> NoThread \<and>
    (m_running s \<longrightarrow> (m_running s' \<longleftrightarrow> thread s' \<noteq> NoThread)) \<and> (m_running s' \<longrightarrow> m_running s) \<and>
    (\<not> m_shutdown s \<longrightarrow> m_running s' = m_running s)"
  using assms(1)
proof cases
  case started
  then show ?thesis by (simp add: worker_begin_def)
next
  case checked
  then show ?thesis by (auto simp: worker_check_def)
next
  case (waited t)
  then show ?thesis by (auto simp: worker_wait_def)
next
  case entered
  then have "same_thread (enter eResolving (s\<lparr>thread := Looping\<rparr>)) s'"
    by (intro StateMachine_same_thread) (auto simp: worker_enter_def)
  with entered show ?thesis by (simp add: same_thread_def enter_def)
next
  case client
  with assms(2) show ?thesis by (cases i) auto
next
  case (completed op)
  with assms(2) show ?thesis by (cases i; cases op) auto
next
  case (complete_cancelled op)
  with assms(2) show ?thesis by (cases i; cases op) auto
qed

definition thread_ok :: "owner \<Rightarrow> bool" where
  "thread_ok w \<longleftrightarrow> (m_running (machine w) \<longleftrightarrow> thread (machine w) \<noteq> NoThread) \<and>
     (m_running (machine w) \<longrightarrow> joinable w) \<and>
     (client w \<in> {Joining, DestructorJoining} \<longrightarrow> joinable w \<and> m_shutdown (machine w)) \<and>
     (client w = Destroyed \<longrightarrow> \<not> joinable w)"

text \<open>Moreover, as long as no \<open>stop\<close> has thrown: a client that is free has a thread to join only while it runs
  on.\<close>

definition tidy :: "owner \<Rightarrow> bool" where
  "tidy w \<longleftrightarrow> client w \<noteq> Terminated \<and>
     (client w = Free \<longrightarrow> joinable w \<longrightarrow> m_running (machine w) \<and> \<not> m_shutdown (machine w))"

lemma own_step_thread_ok:
  assumes "own_step h w i (Some w')" and "thread_ok w"
  shows "thread_ok w' \<and> (\<not> own_throws i \<longrightarrow> tidy w \<longrightarrow> tidy w')"
  using assms(1)
proof cases
  case own_start
  with assms(2) show ?thesis
    by (auto simp: own_start_def start_def thread_ok_def tidy_def)
next
  case (own_stop a b c)
  with assms(2) stop_thread [where a = a and b = b and c = c and s = "machine w"] stop_throws [of a b c "machine w"] show ?thesis
    by (auto simp: own_stop_def thread_ok_def tidy_def split: prod.splits sum.splits)
next
  case (own_destroy b c)
  with assms(2) stop_thread [where a = True and b = b and c = c and s = "machine w"] show ?thesis
    by (auto simp: own_destroy_def destroy_members_def cancel_def thread_ok_def tidy_def)
next
  case own_joined
  with assms(2) show ?thesis
    by (auto simp: own_joined_def destroy_members_def cancel_def thread_ok_def tidy_def)
next
  case (own_other i' r)
  then obtain s' where s: "tx_step h (machine w) i' (Some s')" "w' = w\<lparr>machine := s'\<rparr>"
    by (cases r) auto
  from own_other(4) show ?thesis
  proof
    assume "from_worker i'"
    from worker_step_thread [OF s(1) this] s(2) assms(2) own_other show ?thesis
      by (auto simp: thread_ok_def tidy_def)
  next
    assume "from_io i'"
    from tx_step_io_same_thread [OF s(1) this] s(2) assms(2) own_other show ?thesis
      by (auto simp: thread_ok_def tidy_def same_thread_def)
  qed
next
  case (own_late op i')
  from own_late(2) have "w' = w\<lparr>machine := (machine w)\<lparr>cancelled := remove1 op (cancelled (machine w))\<rparr>\<rparr>"
    by (cases "aborted i'") auto
  with assms(2) show ?thesis by (simp add: thread_ok_def tidy_def)
next
  case (own_post m)
  then have "thread_ok w' = thread_ok w" "tidy w' = tidy w"
    by (simp_all add: thread_ok_def tidy_def post_def)
  with assms(2) show ?thesis by blast
next
  case own_drop
  then have "thread_ok w' = thread_ok w" "tidy w' = tidy w"
    by (simp_all add: thread_ok_def tidy_def dropMessages_def)
  with assms(2) show ?thesis by blast
qed

lemma new_thread_ok: "thread_ok (owner_new host port)"
  by (simp add: thread_ok_def owner_new_def SbdTransmitter_new_def)

lemma own_run_thread_ok: "own_run h (owner_new host port) ins w \<Longrightarrow> thread_ok w"
  by (rule own_run_invariant [where I = thread_ok and ok = "\<lambda>i. True"])
    (use own_step_thread_ok new_thread_ok in blast)+

lemma own_run_tidy:
  assumes "own_run h (owner_new host port) ins w" and "\<forall>i \<in> set ins. \<not> own_throws i"
  shows "tidy w"
proof -
  have "thread_ok w \<and> tidy w"
    by (rule own_run_invariant [where I = "\<lambda>w. thread_ok w \<and> tidy w" and ok = "\<lambda>i. \<not> own_throws i", OF assms(1) _ assms(2)])
      (use own_step_thread_ok new_thread_ok in \<open>auto simp: tidy_def owner_new_def\<close>)
  then show ?thesis ..
qed

section \<open>Properties\<close>

text \<open>C9 (safety). As long as the cancellations of \<open>stop\<close> do not throw (or \<open>stop\<close> is told not to), the worker
  thread is always joined before its object is destroyed: the program is not ended by
  \<open>std::terminate\<close>, whenever \<open>start\<close>, \<open>stop\<close> and the destructor are called; when none of them is under
  way there is a thread to join just while it runs and has not been told to leave.\<close>

theorem thread_always_joined:
  assumes "own_run h (owner_new host port) ins w" and "\<forall>i \<in> set ins. \<not> own_throws i"
  shows "client w \<noteq> Terminated \<and>
    (client w = Free \<longrightarrow> (joinable w \<longleftrightarrow> m_running (machine w)) \<and>
       (m_running (machine w) \<longleftrightarrow> thread (machine w) \<noteq> NoThread \<and> \<not> m_shutdown (machine w))) \<and>
    (client w = Destroyed \<longrightarrow> \<not> joinable w \<and> thread (machine w) = NoThread)"
proof -
  from own_run_thread_ok [OF assms(1)] own_run_tidy [OF assms]
  show ?thesis by (auto simp: thread_ok_def tidy_def)
qed

fun worker_rank :: "worker_pc \<Rightarrow> nat" where
  "worker_rank NoThread = 0"
| "worker_rank Looping = 1"
| "worker_rank Starting = 2"
| "worker_rank Entering = 2"
| "worker_rank Waiting = 3"

fun is_worker_input :: "own_input \<Rightarrow> bool" where
  "is_worker_input (In i) = from_worker i"
| "is_worker_input _ = False"

lemma worker_step_rank:
  assumes "tx_step h s i (Some s')" and "from_worker i" and "m_shutdown s"
  shows "worker_rank (thread s') < worker_rank (thread s)"
  using assms(1)
proof cases
  case entered
  then have "same_thread (enter eResolving (s\<lparr>thread := Looping\<rparr>)) s'"
    by (intro StateMachine_same_thread) (auto simp: worker_enter_def)
  with entered show ?thesis by (simp add: same_thread_def enter_def)
next
  case client
  with assms(2) show ?thesis by (cases i) auto
next
  case (completed op)
  with assms(2) show ?thesis by (cases i; cases op) auto
next
  case (complete_cancelled op)
  with assms(2) show ?thesis by (cases i; cases op) auto
qed (use assms(3) in \<open>auto simp: worker_begin_def worker_check_def worker_wait_def\<close>)

lemma worker_can_step:
  assumes "thread s \<noteq> NoThread"
  shows "\<exists>i s'. from_worker i \<and> tx_step h s i (Some s')"
proof (cases "thread s")
  case Starting
  then show ?thesis using tx_step.started [of s h] by (intro exI [of _ WorkerBegin]) auto
next
  case Looping
  then show ?thesis using tx_step.checked [of s h] by (intro exI [of _ WorkerCheck]) auto
next
  case Waiting
  then show ?thesis using tx_step.waited [of s h True] by (intro exI [of _ "WorkerWait True"]) auto
next
  case Entering
  obtain s' where "worker_enter h s = Some s'"
    by (simp add: worker_enter_def tx_simps enter_def)
  with Entering tx_step.entered [of s h] show ?thesis by (intro exI [of _ WorkerEnter]) auto
qed (use assms in simp)

text \<open>C8 (termination). \<open>stop\<close> returns: from the moment it waits for the worker, whatever the io service, the
  peer and other threads that post do, the worker takes at most three more steps and can always take
  the next one, and when it has left the \<open>join\<close> returns.\<close>

theorem join_returns:
  assumes "own_run h (owner_new host port) ins w" and "client w \<in> {Joining, DestructorJoining}"
    and "own_run h w ins' w'" and "Joined \<notin> set ins'"
  shows "length (filter is_worker_input ins') \<le> 3 \<and>
    (if thread (machine w') = NoThread then own_step h w' Joined (Some (own_joined w'))
     else \<exists>i w''. from_worker i \<and> own_step h w' (In i) (Some w''))"
proof -
  have "thread_ok w" by (rule own_run_thread_ok [OF assms(1)])
  have "thread_ok w' \<and> client w' = client w \<and>
      length (filter is_worker_input ins') + worker_rank (thread (machine w')) \<le> worker_rank (thread (machine w))"
    using assms(3,4)
  proof (induction rule: own_run.induct)
    case nil
    with \<open>thread_ok w\<close> show ?case by simp
  next
    case (snoc ins' w' i w'')
    then have I: "thread_ok w'" "client w' = client w" and i: "i \<noteq> Joined"
      and le: "length (filter is_worker_input ins') + worker_rank (thread (machine w')) \<le> worker_rank (thread (machine w))"
      by auto
    from I assms(2) have sd: "m_shutdown (machine w')" by (auto simp: thread_ok_def)
    have ok: "thread_ok w''" using own_step_thread_ok [OF snoc.hyps(2) I(1)] by blast
    from snoc.hyps(2) show ?case
    proof cases
      case (own_other j r)
      then obtain s' where s: "tx_step h (machine w') j (Some s')" "w'' = w'\<lparr>machine := s'\<rparr>"
        by (cases r) auto
      from own_other(4) show ?thesis
      proof
        assume j: "from_worker j"
        from worker_step_rank [OF s(1) j sd] s(2) j own_other(1) I(2) ok le show ?thesis by simp
      next
        assume j: "from_io j"
        then have "\<not> from_worker j" by (cases j) auto
        with tx_step_io_same_thread [OF s(1) j] s(2) own_other(1) I(2) ok le show ?thesis
          by (simp add: same_thread_def)
      qed
    qed (use I assms(2) i ok le in \<open>auto simp: post_def dropMessages_def\<close>)
  qed
  then have w': "client w' = client w" "length (filter is_worker_input ins') \<le> worker_rank (thread (machine w))"
    by auto
  have "worker_rank p \<le> 3" for p by (cases p) simp_all
  with w'(2) have "length (filter is_worker_input ins') \<le> 3" using order_trans by blast
  moreover have "\<exists>i w''. from_worker i \<and> own_step h w' (In i) (Some w'')" if "thread (machine w') \<noteq> NoThread"
  proof -
    from worker_can_step [OF that, of h] obtain i s' where "from_worker i" "tx_step h (machine w') i (Some s')"
      by blast
    with own_step.own_other [of w' i h "Some s'"] w'(1) assms(2) show ?thesis by auto
  qed
  moreover have "own_step h w' Joined (Some (own_joined w'))" if "thread (machine w') = NoThread"
    by (rule own_step.own_joined) (use that w'(1) assms(2) in auto)
  ultimately show ?thesis by simp
qed

section \<open>Runs written out\<close>

lemma own_run_Cons: "own_run h w' ins w'' \<Longrightarrow> own_step h w i (Some w') \<Longrightarrow> own_run h w (i # ins) w''"
  by (rule own_runs.runs_Cons)

lemma own_worker_steps:
  assumes "client w \<in> {Free, Joining, DestructorJoining}"
  shows "thread (machine w) = Starting \<Longrightarrow> own_step h w (In WorkerBegin) (Some (w\<lparr>machine := worker_begin (machine w)\<rparr>))"
    and "thread (machine w) = Looping \<Longrightarrow> own_step h w (In WorkerCheck) (Some (w\<lparr>machine := worker_check (machine w)\<rparr>))"
    and "thread (machine w) = Waiting \<Longrightarrow> own_step h w (In (WorkerWait t)) (Some (w\<lparr>machine := worker_wait t (machine w)\<rparr>))"
  using own_step.own_other [OF assms, of WorkerBegin h] tx_step.started [of "machine w" h]
    own_step.own_other [OF assms, of WorkerCheck h] tx_step.checked [of "machine w" h]
    own_step.own_other [OF assms, of "WorkerWait t" h] tx_step.waited [of "machine w" h t]
  by fastforce+

lemmas own_defs = owner_new_def SbdTransmitter_new_def own_start_def own_stop_def own_destroy_def own_joined_def
  destroy_members_def start_def stop_def stop_socket_def cancel_def worker_begin_def worker_check_def

text \<open>When a cancellation throws out of \<open>stop\<close>, the thread is not joined: the worker leaves all the
  same, and from then on \<open>stop\<close> returns at once without joining, and both \<open>start\<close> and the destructor end
  the program.\<close>

theorem throwing_stop_ends_program:
  "\<exists>w. own_run h (owner_new host port) [In Start, In WorkerBegin, In (Stop False (Some e) socket_exc), In WorkerCheck] w \<and>
    client w = Free \<and> own_stop a b c w = w \<and>
    client (own_start w) = Terminated \<and> client (own_destroy b c w) = Terminated"
proof -
  let ?w0 = "owner_new host port"
  let ?w1 = "own_start ?w0"
  let ?w2 = "?w1\<lparr>machine := worker_begin (machine ?w1)\<rparr>"
  let ?w3 = "own_stop False (Some e) socket_exc ?w2"
  let ?w4 = "?w3\<lparr>machine := worker_check (machine ?w3)\<rparr>"
  have "own_step h ?w0 (In Start) (Some ?w1)"
    by (rule own_step.own_start) (simp add: own_defs)
  moreover have "own_step h ?w1 (In WorkerBegin) (Some ?w2)"
    by (rule own_worker_steps) (simp_all add: own_defs)
  moreover have "own_step h ?w2 (In (Stop False (Some e) socket_exc)) (Some ?w3)"
    by (rule own_step.own_stop) (simp add: own_defs)
  moreover have "own_step h ?w3 (In WorkerCheck) (Some ?w4)"
    by (rule own_worker_steps) (simp_all add: own_defs)
  ultimately have "own_run h ?w0 [In Start, In WorkerBegin, In (Stop False (Some e) socket_exc), In WorkerCheck] ?w4"
    by (blast intro: own_run_Cons own_run.nil)
  then show ?thesis
    by (intro exI [of _ ?w4]) (simp add: own_defs)
qed

text \<open>A transmitter that is started and stopped, up to where \<open>stop\<close> waits.\<close>

definition stopping :: owner where
  "stopping = own_stop True None None (own_start (owner_new ''gw'' ''10800''))"

lemma stopping_simps:
  "client stopping = Joining" "thread (machine stopping) = Starting" "m_shutdown (machine stopping)"
  by (simp_all add: stopping_def own_defs)

lemma run_stopping: "own_run h (owner_new ''gw'' ''10800'') [In Start, In (Stop True None None)] stopping"
proof -
  let ?w0 = "owner_new ''gw'' ''10800''"
  have "own_step h ?w0 (In Start) (Some (own_start ?w0))"
    by (rule own_step.own_start) (simp add: own_defs)
  moreover have "own_step h (own_start ?w0) (In (Stop True None None)) (Some stopping)"
    unfolding stopping_def by (rule own_step.own_stop) (simp add: own_defs)
  ultimately show ?thesis by (blast intro: own_run_Cons own_run.nil)
qed

theorem join_returns_witness:
  "client stopping = Joining \<and>
   (\<exists>i w''. from_worker i \<and> own_step sample_host (stopping\<lparr>machine := worker_begin (machine stopping)\<rparr>) (In i) (Some w''))"
proof -
  let ?w = "stopping\<lparr>machine := worker_begin (machine stopping)\<rparr>"
  have "own_step sample_host stopping (In WorkerBegin) (Some ?w)"
    by (rule own_worker_steps) (simp_all add: stopping_simps)
  then have r: "own_run sample_host stopping [In WorkerBegin] ?w"
    by (blast intro: own_run_Cons own_run.nil)
  have "thread (machine ?w) \<noteq> NoThread" by (simp add: worker_begin_def)
  with join_returns [OF run_stopping _ r] show ?thesis by (simp add: stopping_simps)
qed

text \<open>The worker leaves, \<open>stop\<close> returns, and the transmitter is destroyed.\<close>

definition stopped :: owner where
  "stopped = own_joined (stopping\<lparr>machine := worker_check (worker_begin (machine stopping))\<rparr>)"

lemma run_stopped:
  "own_run h (owner_new ''gw'' ''10800'') ([In Start, In (Stop True None None)] @ [In WorkerBegin] @ [In WorkerCheck] @ [Joined]) stopped"
proof -
  let ?w = "stopping\<lparr>machine := worker_begin (machine stopping)\<rparr>"
  let ?v = "?w\<lparr>machine := worker_check (machine ?w)\<rparr>"
  have "own_step h stopping (In WorkerBegin) (Some ?w)"
    by (rule own_worker_steps) (simp_all add: stopping_simps)
  moreover have "own_step h ?w (In WorkerCheck) (Some ?v)"
    by (rule own_worker_steps) (simp_all add: stopping_simps worker_begin_def)
  moreover have "own_step h ?v Joined (Some (own_joined ?v))"
    by (rule own_step.own_joined) (simp_all add: stopping_simps worker_begin_def worker_check_def)
  ultimately show ?thesis
    using own_run.snoc [OF own_run.snoc [OF own_run.snoc [OF run_stopping]]] by (auto simp: stopped_def)
qed

theorem thread_always_joined_witness:
  "client stopped = Free \<and> \<not> joinable stopped \<and> thread (machine stopped) = NoThread"
proof -
  have "client stopped = Free" "\<not> m_running (machine stopped)" "thread (machine stopped) = NoThread"
    by (simp_all add: stopped_def stopping_def own_defs)
  with thread_always_joined [OF run_stopped [of sample_host]] show ?thesis by simp
qed

section \<open>The transmitter of an owner\<close>

text \<open>What the owner's transmitter does is a run of the transmitter, in which \<open>join\<close> is no step: the theorems
  about such runs hold for it.\<close>

fun tx_inputs :: "own_input list \<Rightarrow> tx_input list" where
  "tx_inputs [] = []"
| "tx_inputs (In i # ins) = i # tx_inputs ins"
| "tx_inputs (Joined # ins) = tx_inputs ins"
| "tx_inputs (Destroy b c # ins) = Stop True b c # tx_inputs ins"

lemma tx_inputs_append [simp]: "tx_inputs (ins @ ins') = tx_inputs ins @ tx_inputs ins'"
  by (induction ins rule: tx_inputs.induct) simp_all

lemma own_step_tx:
  assumes "own_step h w i (Some w')" and "client w' \<noteq> Destroyed" and "\<not> own_throws i" and "tidy w'"
  shows "tx_run h (machine w) (tx_inputs [i]) (machine w')"
  using assms(1)
proof cases
  case own_start
  have "machine w' = start (machine w)" using own_start by (simp add: own_start_def start_def)
  with own_start tx_step.client [of Start h "machine w"] show ?thesis by (auto intro: tx_run_single)
next
  case (own_stop a b c)
  have "machine w' = snd (stop a b c (machine w))"
    using own_stop by (auto simp: own_stop_def stop_def split: prod.splits sum.splits)
  with own_stop tx_step.client [of "Stop a b c" h "machine w"] show ?thesis by (auto intro: tx_run_single)
next
  case (own_post m)
  with tx_step.client [of "Post m" h "machine w"] show ?thesis by (auto intro: tx_run_single)
next
  case own_drop
  with tx_step.client [of DropMessages h "machine w"] show ?thesis by (auto intro: tx_run_single)
next
  case (own_destroy b c)
  with assms(2,4) have "machine w' = snd (stop True b c (machine w))"
    by (auto simp: own_destroy_def destroy_members_def tidy_def split: if_splits)
  with own_destroy tx_step.client [of "Stop True b c" h "machine w"] show ?thesis by (auto intro: tx_run_single)
next
  case own_joined
  with assms(2) show ?thesis by (auto simp: own_joined_def destroy_members_def intro: tx_run.nil split: if_splits)
next
  case (own_other j r)
  then show ?thesis by (cases r) (auto intro: tx_run_single)
next
  case (own_late op j)
  then have "client w' = Destroyed" by (cases "aborted j") auto
  with assms(2) show ?thesis by simp
qed

lemma destroyed_stays: "own_step h w i (Some w') \<Longrightarrow> client w = Destroyed \<Longrightarrow> client w' = Destroyed"
  by (cases h w i "Some w'" rule: own_step.cases) (auto split: if_splits)

interpretation owned: simulation "\<lambda>w i w'. own_step h w i (Some w')" "own_run h"
  "\<lambda>s i s'. tx_step h s i (Some s')" "tx_run h" "owner_new host port"
  "\<lambda>ins w. (\<forall>i \<in> set ins. \<not> own_throws i) \<and> client w \<noteq> Destroyed" tx_inputs machine
  for h host port
proof unfold_locales
  fix ins w i w'
  assume run: "own_run h (owner_new host port) ins w" and st: "own_step h w i (Some w')"
    and ok: "(\<forall>i \<in> set (ins @ [i]). \<not> own_throws i) \<and> client w' \<noteq> Destroyed"
  then show "(\<forall>i \<in> set ins. \<not> own_throws i) \<and> client w \<noteq> Destroyed"
    using destroyed_stays [OF st] by auto
  have "tidy w'" using own_run_tidy [OF own_run.snoc [OF run st]] ok by simp
  with ok show "tx_run h (machine w) (tx_inputs [i]) (machine w')"
    by (intro own_step_tx [OF st]) simp_all
qed simp_all

lemma own_run_tx:
  assumes "own_run h (owner_new host port) ins w" and "\<forall>i \<in> set ins. \<not> own_throws i" and "client w \<noteq> Destroyed"
  shows "tx_run h (SbdTransmitter_new host port) (tx_inputs ins) (machine w)"
  using owned.refines [OF assms(1)] assms(2,3) by (simp add: owner_new_def)

end
