(* ===== verification/DirectIpSender.thy ===== *)
theory DirectIpSender
  imports DirectIpReceiver TransmitterThread
begin

text \<open>
  examples/directip/sender/main.cpp: \<open>main\<close> with its transmitter. The io service runs in the thread of
  \<open>main\<close>, so that while the handler of the signal waits in \<open>stop\<close> no completion is delivered; the worker
  of the transmitter goes on. \<open>OnError\<close> and \<open>OnResult\<close> print what the transmitter emits.
\<close>

section \<open>The main function\<close>

definition iridiumHost :: string where "iridiumHost = ''12.47.179.12''"
definition iridiumPort :: string where "iridiumPort = ''10800''"

text \<open>\<open>Uncaught\<close>: an exception left \<open>main\<close> or a handler that \<open>run\<close> called.\<close>

datatype sender_phase = BeforeRound | Running | Returned int | Uncaught exc

record sender =
  at :: sender_phase
  told_to_stop :: bool
  awaits_signal :: bool
  msgCount :: u32
  transmitter :: owner

definition sender_init :: sender where
  "sender_init = \<lparr>at = BeforeRound, told_to_stop = False, awaits_signal = True, msgCount = 1,
     transmitter = owner_new iridiumHost iridiumPort\<rparr>"

text \<open>The test of the loop and a round; returning destroys the transmitter.\<close>

definition sender_loop :: "host \<Rightarrow> byte list \<Rightarrow> sender \<Rightarrow> sender option" where
  "sender_loop h payload m =
     (if told_to_stop m
      then Some (m\<lparr>at := Returned EXIT_SUCCESS, transmitter := own_destroy None None (transmitter m)\<rparr>)
      else do {
        r \<leftarrow> sender_round h payload (msgCount m, machine (transmitter m));
        (case r of
           Inl e \<Rightarrow> Some (m\<lparr>at := Uncaught e\<rparr>)
         | Inr (n, s) \<Rightarrow> Some (m\<lparr>at := Running, msgCount := n, transmitter := (own_start (transmitter m))\<lparr>machine := s\<rparr>\<rparr>))
      })"

definition sender_signal :: "exc option \<Rightarrow> exc option \<Rightarrow> sender \<Rightarrow> sender" where
  "sender_signal timer_exc socket_exc m =
     (let m' = m\<lparr>awaits_signal := False, told_to_stop := True,
                 transmitter := own_stop False timer_exc socket_exc (transmitter m)\<rparr>
      in case fst (stop False timer_exc socket_exc (machine (transmitter m))) of
           Inl e \<Rightarrow> m'\<lparr>at := Uncaught e\<rparr>
         | Inr _ \<Rightarrow> m')"

definition sender_no_work :: "sender \<Rightarrow> bool" where
  "sender_no_work m \<longleftrightarrow> \<not> awaits_signal m \<and> \<not> m_sentinel (machine (transmitter m)) \<and>
     pending (machine (transmitter m)) = [] \<and> cancelled (machine (transmitter m)) = []"

inductive sender_step :: "host \<Rightarrow> byte list \<Rightarrow> sender \<Rightarrow> sender \<Rightarrow> bool" for h :: host and payload :: "byte list" where
  loop: "at m = BeforeRound \<Longrightarrow> sender_loop h payload m = Some m' \<Longrightarrow> sender_step h payload m m'"
| handler: "at m = Running \<Longrightarrow> client (transmitter m) = Free \<Longrightarrow> from_io i \<Longrightarrow>
    own_step h (transmitter m) (In i) (Some w) \<Longrightarrow> sender_step h payload m (m\<lparr>transmitter := w\<rparr>)"
| worker: "at m = Running \<Longrightarrow> from_worker i \<Longrightarrow> own_step h (transmitter m) (In i) (Some w) \<Longrightarrow>
    sender_step h payload m (m\<lparr>transmitter := w\<rparr>)"
| signal: "at m = Running \<Longrightarrow> awaits_signal m \<Longrightarrow> client (transmitter m) = Free \<Longrightarrow>
    sender_step h payload m (sender_signal b c m)"
| joined: "at m = Running \<Longrightarrow> own_step h (transmitter m) Joined (Some w) \<Longrightarrow>
    sender_step h payload m (m\<lparr>transmitter := w\<rparr>)"
| returns: "at m = Running \<Longrightarrow> client (transmitter m) = Free \<Longrightarrow> sender_no_work m \<Longrightarrow>
    sender_step h payload m (m\<lparr>at := BeforeRound\<rparr>)"

inductive sender_reach :: "host \<Rightarrow> byte list \<Rightarrow> sender \<Rightarrow> sender \<Rightarrow> bool"
  for h :: host and payload :: "byte list" and m :: sender where
  here: "sender_reach h payload m m"
| step: "sender_reach h payload m m' \<Longrightarrow> sender_step h payload m' m'' \<Longrightarrow> sender_reach h payload m m''"

interpretation sender_states: reachability "sender_step h payload" "sender_reach h payload" for h payload
  by (unfold_locales, auto intro: sender_reach.intros) (erule sender_reach.induct; blast)

section \<open>The invariant\<close>

definition first_frame :: "byte list \<Rightarrow> byte list" where
  "first_frame payload = 1 # be16 (of_nat (length payload + 32)) @
     (0x41 # be16 21 @ be32 1 @ IMEI @ be16 32) @ (0x42 # be16 (of_nat (length payload)) @ payload) @
     (0x46 # be16 2 @ be16 5)"

text \<open>The transmitter is in a run of its own in which no \<open>stop\<close> has thrown. Before a signal only the first
  message has been posted, and nothing stops the transmitter.\<close>

definition sender_inv :: "host \<Rightarrow> byte list \<Rightarrow> sender \<Rightarrow> bool" where
  "sender_inv h payload m \<longleftrightarrow> (awaits_signal m \<longleftrightarrow> \<not> told_to_stop m) \<and>
     (\<forall>e. at m = Uncaught e \<longrightarrow> told_to_stop m) \<and>
     (\<forall>n. at m = Returned n \<longrightarrow> told_to_stop m \<and> n = EXIT_SUCCESS \<and> client (transmitter m) = Destroyed) \<and>
     (at m = BeforeRound \<or> at m = Running \<longrightarrow>
       (\<exists>ins. own_run h (owner_new iridiumHost iridiumPort) ins (transmitter m) \<and> (\<forall>i \<in> set ins. \<not> own_throws i) \<and>
         client (transmitter m) \<noteq> Destroyed \<and>
         (told_to_stop m \<longrightarrow> (client (transmitter m) = Free \<longrightarrow> \<not> joinable (transmitter m)) \<and>
            client (transmitter m) \<noteq> DestructorJoining \<and> (at m = BeforeRound \<longrightarrow> client (transmitter m) = Free)) \<and>
         (\<not> told_to_stop m \<longrightarrow> client (transmitter m) = Free \<and>
            (\<forall>i \<in> set (tx_inputs ins). orderly i) \<and>
            (if at m = BeforeRound then msgCount m = 1 \<and> ins = [] \<and> transmitter m = owner_new iridiumHost iridiumPort
             else msgCount m = 2 \<and> concat (map posts (tx_inputs ins)) = [first_frame payload]))))"

lemma first_round:
  assumes "1 \<le> length payload" and "length payload \<le> 1890"
  shows "\<exists>m. sender_round h payload (1, s) = Some (Inr (2, post m (start s))) \<and> sendable m \<and>
    message_wire m = first_frame payload"
  using sender_round_identifiers [OF assms, of h 0 s] by (simp add: first_frame_def)

lemma sender_inv_init: "sender_inv h payload sender_init"
  by (auto simp: sender_inv_def sender_init_def owner_new_def intro!: exI [of _ "[]"] own_run.nil)

lemma own_step_client:
  assumes "own_step h w (In i) (Some w')" and "from_worker i \<or> from_io i" and "client w \<noteq> Destroyed"
  shows "client w' = client w \<and> joinable w' = joinable w \<and> orderly i \<and> posts i = []"
  using assms(1)
proof cases
  case (own_other r)
  from assms(2) have "orderly i \<and> posts i = []" by (cases i) auto
  with own_other show ?thesis by (cases r) auto
qed (use assms(2,3) in auto)

lemma sender_inv_own:
  assumes inv: "sender_inv h payload m" and at: "at m = Running"
    and st: "own_step h (transmitter m) (In i) (Some w)" and i: "from_worker i \<or> from_io i"
  shows "sender_inv h payload (m\<lparr>transmitter := w\<rparr>)"
proof -
  from inv at obtain ins where run: "own_run h (owner_new iridiumHost iridiumPort) ins (transmitter m)"
      "\<forall>i \<in> set ins. \<not> own_throws i" "client (transmitter m) \<noteq> Destroyed"
      "told_to_stop m \<Longrightarrow> (client (transmitter m) = Free \<longrightarrow> \<not> joinable (transmitter m)) \<and> client (transmitter m) \<noteq> DestructorJoining"
      "\<not> told_to_stop m \<Longrightarrow> client (transmitter m) = Free \<and> (\<forall>i \<in> set (tx_inputs ins). orderly i) \<and> msgCount m = 2 \<and>
         concat (map posts (tx_inputs ins)) = [first_frame payload]"
    unfolding sender_inv_def by auto
  note c = own_step_client [OF st i run(3)]
  have "\<not> own_throws (In i)" using i by (cases i) auto
  with c run own_run.snoc [OF run(1) st] inv at show ?thesis
    unfolding sender_inv_def by (auto intro!: exI [of _ "ins @ [In i]"])
qed

lemma own_stop_returns:
  "fst (stop False b c (machine w)) = Inr u \<Longrightarrow> own_stop False b c w = own_stop False None None w"
  by (cases b; cases c) (auto simp: own_stop_def stop_def stop_socket_def Let_def split: if_splits)

lemma sender_inv_step:
  assumes inv: "sender_inv h payload m" and st: "sender_step h payload m m'"
    and len: "1 \<le> length payload" "length payload \<le> 1890"
  shows "sender_inv h payload m'"
  using st
proof cases
  case loop
  show ?thesis
  proof (cases "told_to_stop m")
    case True
    with inv loop obtain ins where run: "own_run h (owner_new iridiumHost iridiumPort) ins (transmitter m)"
        "client (transmitter m) = Free" "\<not> joinable (transmitter m)"
      unfolding sender_inv_def by auto
    from own_run_thread_ok [OF run(1)] run(3) have "\<not> m_running (machine (transmitter m))"
      by (auto simp: thread_ok_def)
    with True loop inv run(3) show ?thesis
      by (auto simp: sender_loop_def sender_inv_def own_destroy_def destroy_members_def)
  next
    case False
    with inv loop have t: "transmitter m = owner_new iridiumHost iridiumPort" "msgCount m = 1" "awaits_signal m"
      unfolding sender_inv_def by auto
    let ?w = "own_start (owner_new iridiumHost iridiumPort)"
    obtain x where x: "sender_round h payload (1, machine (transmitter m)) = Some (Inr (2, post x (start (machine (transmitter m)))))"
        "sendable x" "message_wire x = first_frame payload"
      using first_round [OF len] by blast
    let ?v = "?w\<lparr>machine := post x (machine ?w)\<rparr>"
    have m': "m' = m\<lparr>at := Running, msgCount := 2, transmitter := ?v\<rparr>"
      using loop(2) False t x(1) by (simp add: sender_loop_def own_start_def start_def owner_new_def SbdTransmitter_new_def)
    have c: "client ?w = Free" by (simp add: own_start_def owner_new_def)
    have "own_run h (owner_new iridiumHost iridiumPort) [In Start, In (Post x)] ?v"
      by (rule own_run_Cons [OF own_run_Cons [OF own_run.nil own_step.own_post] own_step.own_start])
        (use c in \<open>simp_all add: owner_new_def\<close>)
    with c m' False t(3) x show ?thesis
      unfolding sender_inv_def by (auto intro!: exI [of _ "[In Start, In (Post x)]"])
  qed
next
  case (handler i w)
  with sender_inv_own [OF inv] show ?thesis by blast
next
  case (worker i w)
  with sender_inv_own [OF inv] show ?thesis by blast
next
  case (signal b c)
  with inv obtain ins where run: "own_run h (owner_new iridiumHost iridiumPort) ins (transmitter m)"
      "\<forall>i \<in> set ins. \<not> own_throws i"
    unfolding sender_inv_def by auto
  note ok = own_run_thread_ok [OF run(1)] own_run_tidy [OF run]
  show ?thesis
  proof (cases "fst (stop False b c (machine (transmitter m)))")
    case (Inl e)
    with signal show ?thesis by (auto simp: sender_inv_def sender_signal_def Let_def)
  next
    case (Inr u)
    let ?w = "own_stop False None None (transmitter m)"
    have m': "m' = m\<lparr>awaits_signal := False, told_to_stop := True, transmitter := ?w\<rparr>"
      using signal(1) Inr own_stop_returns [OF Inr] by (simp add: sender_signal_def)
    have "own_step h (transmitter m) (In (Stop False None None)) (Some ?w)"
      by (rule own_step.own_stop [OF signal(4)])
    with run(1) have "own_run h (owner_new iridiumHost iridiumPort) (ins @ [In (Stop False None None)]) ?w"
      by (rule own_run.snoc)
    moreover have "client ?w = Free \<and> \<not> joinable ?w \<or> client ?w = Joining"
      using ok signal(4) by (auto simp: own_stop_def tidy_def split: prod.splits sum.splits dest: stop_throws)
    ultimately show ?thesis
      using run(2) signal(2) m' unfolding sender_inv_def
      by (auto intro!: exI [of _ "ins @ [In (Stop False None None)]"])
  qed
next
  case (joined w)
  with inv obtain ins where run: "own_run h (owner_new iridiumHost iridiumPort) ins (transmitter m)"
      "\<forall>i \<in> set ins. \<not> own_throws i" "client (transmitter m) \<noteq> DestructorJoining"
      "\<not> told_to_stop m \<Longrightarrow> client (transmitter m) = Free" "awaits_signal m \<longleftrightarrow> \<not> told_to_stop m"
    unfolding sender_inv_def by (cases "told_to_stop m") auto
  from joined(3) run(3) have "client (transmitter m) = Joining" "w = own_joined (transmitter m)"
    by (auto elim: own_step.cases)
  moreover from this run(4) have "told_to_stop m" by auto
  ultimately show ?thesis
    using own_run.snoc [OF run(1) joined(3)] run(2,5) joined(1,2) unfolding sender_inv_def
    by (auto simp: own_joined_def intro!: exI [of _ "ins @ [Joined]"])
next
  case returns
  from returns(4) inv have "told_to_stop m" by (auto simp: sender_no_work_def sender_inv_def)
  with inv returns show ?thesis unfolding sender_inv_def by auto
qed

lemma sender_inv_reach:
  assumes "sender_reach h payload sender_init m" and "1 \<le> length payload" "length payload \<le> 1890"
  shows "sender_inv h payload m"
  using assms(1) sender_inv_init
  by (rule sender_states.reach_keeps) (rule sender_inv_step [OF _ _ assms(2,3)])

section \<open>Output\<close>

text \<open>The subscribers of the transmitter and the test of the arguments, all of which print to the same
  stream; without arguments there is no \<open>argv[0]\<close> to print.\<close>

definition tx_OnError :: "string \<Rightarrow> byte list" where
  "tx_OnError err = bytes_of ''Transmit error: '' @ bytes_of err @ endl"

definition tx_OnResult :: "int \<Rightarrow> byte list" where
  "tx_OnResult res = bytes_of ''Transmit status: '' @ bytes_of (show_int res) @ endl"

fun tx_shown :: "tx_event \<Rightarrow> byte list list" where
  "tx_shown (OnError err) = [tx_OnError err]"
| "tx_shown (OnTransmitResult res) = [tx_OnResult res]"
| "tx_shown _ = []"

definition sender_output :: "sender \<Rightarrow> byte list list" where
  "sender_output m = concat (map tx_shown (log (machine (transmitter m))))"

definition sender_main_args :: "byte list list \<Rightarrow> ((int \<times> byte list) + (byte list \<times> sender)) option" where
  "sender_main_args argv =
     (if argv = [] then None
      else if length argv \<noteq> 2
      then Some (Inl (EXIT_FAILURE, bytes_of ''Usage: '' @ argv ! 0 @ bytes_of '' <message>'' @ endl))
      else Some (Inr (argv ! 1, sender_init)))"

text \<open>A frame is acknowledged only by a status that is shown.\<close>

lemma deliver_acknowledges:
  "fst (foldl deliver a evs) \<noteq> fst a \<Longrightarrow> \<exists>st \<ge> 0. OnTransmitResult st \<in> set evs"
proof (induction evs arbitrary: a)
  case (Cons ev evs)
  show ?case
  proof (cases "fst (deliver a ev) = fst a")
    case True
    with Cons.IH [of "deliver a ev"] Cons.prems show ?thesis by auto
  next
    case False
    then have "\<exists>st \<ge> 0. ev = OnTransmitResult st"
      by (cases ev) (auto simp: deliver_eqs split: if_splits)
    then show ?thesis by auto
  qed
qed simp

lemma acknowledged_shown:
  assumes "acknowledged (machine (transmitter m)) \<noteq> []"
  shows "\<exists>st \<ge> 0. tx_OnResult st \<in> set (sender_output m)"
proof -
  from assms have "fst (foldl deliver ([], None) (log (machine (transmitter m)))) \<noteq> fst ([], None)"
    by (simp add: acknowledged_def book_def)
  from deliver_acknowledges [OF this] obtain st where "0 \<le> st" "OnTransmitResult st \<in> set (log (machine (transmitter m)))"
    by blast
  then show ?thesis by (force simp: sender_output_def)
qed

section \<open>Properties\<close>

text \<open>C10 (invariant). The loop of the sender goes round once: the io service still has the wait for a signal to
  serve, so that \<open>run\<close> does not return before one comes, and the program leaves the loop then. Until
  the signal exactly one message, with the identifier 1, is acknowledged, under way or queued, and as long as
  the program has not printed a status that is no error it is under way or queued: it is never lost
  unnoticed.\<close>

theorem sender_sends_once:
  assumes "sender_reach h payload sender_init m" and "1 \<le> length payload" "length payload \<le> 1890"
  shows "(at m = BeforeRound \<longrightarrow> told_to_stop m \<or> m = sender_init) \<and>
    (at m = Running \<and> \<not> told_to_stop m \<longrightarrow> \<not> sender_no_work m \<and>
       real_frames (acknowledged (machine (transmitter m)) @ under_way (machine (transmitter m)) @
         queued (machine (transmitter m))) = [first_frame payload] \<and>
       ((\<forall>st \<ge> 0. tx_OnResult st \<notin> set (sender_output m)) \<longrightarrow>
          real_frames (under_way (machine (transmitter m)) @ queued (machine (transmitter m))) = [first_frame payload]))"
proof -
  have inv: "sender_inv h payload m" by (rule sender_inv_reach [OF assms])
  have "real_frames (acknowledged (machine (transmitter m)) @ under_way (machine (transmitter m)) @
      queued (machine (transmitter m))) = [first_frame payload]"
    if r: "at m = Running" "\<not> told_to_stop m"
  proof -
    from inv r obtain ins where run: "own_run h (owner_new iridiumHost iridiumPort) ins (transmitter m)"
        "\<forall>i \<in> set ins. \<not> own_throws i" "client (transmitter m) \<noteq> Destroyed" "\<forall>i \<in> set (tx_inputs ins). orderly i"
        and posted: "concat (map posts (tx_inputs ins)) = [first_frame payload]"
      unfolding sender_inv_def by auto
    have "real_frames (acknowledged (machine (transmitter m)) @ under_way (machine (transmitter m)) @
        queued (machine (transmitter m))) = concat (map posts (tx_inputs ins))"
      by (rule tx_run_real_frames [OF own_run_tx [OF run(1-3)] run(4)])
        (simp add: posted first_frame_def empty_frame_def be16_def)
    with posted show ?thesis by simp
  qed
  moreover have "acknowledged (machine (transmitter m)) = []" if "\<forall>st \<ge> 0. tx_OnResult st \<notin> set (sender_output m)"
    using acknowledged_shown [of m] that by blast
  moreover have "m = sender_init" if "at m = BeforeRound" "\<not> told_to_stop m"
    using inv that unfolding sender_inv_def sender_init_def by (cases m) auto
  ultimately show ?thesis
    using inv by (auto simp: sender_no_work_def sender_inv_def)
qed

lemma sender_running:
  assumes "1 \<le> length payload" "length payload \<le> 1890"
  shows "\<exists>m. sender_reach h payload sender_init m \<and> at m = Running \<and> \<not> told_to_stop m \<and> msgCount m = 2"
proof -
  obtain x where x: "sender_round h payload (1, machine (transmitter sender_init)) =
      Some (Inr (2, post x (start (machine (transmitter sender_init)))))"
    using first_round [OF assms] by blast
  have "sender_loop h payload sender_init = Some (sender_init\<lparr>at := Running, msgCount := 2, transmitter :=
      (own_start (transmitter sender_init))\<lparr>machine := post x (start (machine (transmitter sender_init)))\<rparr>\<rparr>)"
    using x by (simp add: sender_loop_def sender_init_def)
  from sender_step.loop [OF _ this] sender_reach.step [OF sender_reach.here] show ?thesis
    by (intro exI conjI) (auto simp: sender_init_def)
qed

theorem sender_sends_once_witness:
  "\<exists>m. sender_reach sample_host (bytes_of ''hi'') sender_init m \<and> \<not> sender_no_work m \<and>
     real_frames (acknowledged (machine (transmitter m)) @ under_way (machine (transmitter m)) @
       queued (machine (transmitter m))) = [first_frame (bytes_of ''hi'')]"
proof -
  obtain m where m: "sender_reach sample_host (bytes_of ''hi'') sender_init m" "at m = Running" "\<not> told_to_stop m"
    using sender_running [of "bytes_of ''hi''"] by (auto simp: bytes_of_def)
  from sender_sends_once [OF m(1)] m(2,3) have "\<not> sender_no_work m \<and>
     real_frames (acknowledged (machine (transmitter m)) @ under_way (machine (transmitter m)) @
       queued (machine (transmitter m))) = [first_frame (bytes_of ''hi'')]" by (simp add: bytes_of_def)
  with m(1) show ?thesis by blast
qed

text \<open>The sender returns only after a signal, with success, and joins the worker first; nothing
  but an exception of \<open>stop\<close> in the handler of the signal ends it otherwise.\<close>

theorem sender_ends:
  assumes "sender_reach h payload sender_init m" and "1 \<le> length payload" "length payload \<le> 1890"
  shows "case at m of
      Returned n \<Rightarrow> n = EXIT_SUCCESS \<and> told_to_stop m \<and> client (transmitter m) = Destroyed
    | Uncaught e \<Rightarrow> told_to_stop m
    | _ \<Rightarrow> client (transmitter m) \<notin> {Terminated, Destroyed}"
proof -
  have inv: "sender_inv h payload m" by (rule sender_inv_reach [OF assms])
  have "client (transmitter m) \<noteq> Terminated \<and> client (transmitter m) \<noteq> Destroyed" if "at m = BeforeRound \<or> at m = Running"
  proof -
    from inv that obtain ins where "own_run h (owner_new iridiumHost iridiumPort) ins (transmitter m)"
        "\<forall>i \<in> set ins. \<not> own_throws i" "client (transmitter m) \<noteq> Destroyed"
      unfolding sender_inv_def by auto
    with own_run_tidy show ?thesis by (auto simp: tidy_def)
  qed
  with inv show ?thesis
    by (auto simp: sender_inv_def split: sender_phase.splits)
qed

theorem sender_ends_witness:
  "\<exists>m. sender_reach sample_host (bytes_of ''hi'') sender_init m \<and> at m = Running \<and>
     client (transmitter m) \<notin> {Terminated, Destroyed}"
proof -
  obtain m where m: "sender_reach sample_host (bytes_of ''hi'') sender_init m" "at m = Running"
    using sender_running [of "bytes_of ''hi''"] by (auto simp: bytes_of_def)
  with sender_ends [OF m(1)] show ?thesis by (auto simp: bytes_of_def)
qed

end
