(* ===== verification/DirectIpOutput.thy ===== *)
theory DirectIpOutput
  imports DirectIpReceiver
begin

text \<open>
  examples/directip/receiver/main.cpp: \<open>OnError\<close> and \<open>OnMessage\<close>, which print what the receiver emits.
  Whatever comes over the network, a message that reaches \<open>OnMessage\<close> can be printed, although its
  accessors dereference iterators and cast elements without a test; and a mobile originated message that
  came over a connection is printed once.
\<close>

section \<open>The subscribers\<close>

datatype out_stream = Cerr | Clog

definition rx_OnError :: "string \<Rightarrow> out_stream \<times> byte list" where
  "rx_OnError msg = (Cerr, bytes_of ''Receive error: '' @ bytes_of msg @ endl)"

definition rx_OnMessage :: "MoMessage \<Rightarrow> (out_stream \<times> byte list) option" where
  "rx_OnMessage m = do { text \<leftarrow> MoMessage_print m; Some (Clog, text @ endl) }"

text \<open>Both are connected while \<open>run\<close> is called, so that every event is printed, in the order of emission.\<close>

fun shown_event :: "rx_event \<Rightarrow> (out_stream \<times> byte list) option" where
  "shown_event (RxError msg) = Some (rx_OnError msg)"
| "shown_event (RxMessage m) = rx_OnMessage m"

definition main_output :: "rx_main \<Rightarrow> (out_stream \<times> byte list) list option" where
  "main_output m = those (map shown_event (emitted (main_rx m)))"

section \<open>Messages that can be printed\<close>

definition printable :: "MoMessage \<Rightarrow> bool" where
  "printable m \<longleftrightarrow> (\<exists>im pl. MoMessage_imei m = Some im \<and> length im \<le> 15 \<and>
     MoMessage_payload m = Some pl \<and> 1 \<le> length pl \<and> length pl \<le> 1960)"

text \<open>What a line of the log holds.\<close>

definition message_line :: "byte list \<Rightarrow> byte list \<Rightarrow> byte list" where
  "message_line im pl = bytes_of ''Mobile originated message: '' @ endl @ bytes_of ''  IMEI = '' @ im @ endl @
     bytes_of ''  payload = '' @ pl @ endl"

lemma length_message_line: "length (message_line im pl) = 51 + length im + length pl"
  by (simp add: message_line_def bytes_of_def endl_def)

lemma shown_message:
  "printable m \<Longrightarrow> \<exists>im pl. MoMessage_imei m = Some im \<and> MoMessage_payload m = Some pl \<and>
     length im \<le> 15 \<and> 1 \<le> length pl \<and> length pl \<le> 1960 \<and> rx_OnMessage m = Some (Clog, message_line im pl)"
  by (auto simp: printable_def rx_OnMessage_def MoMessage_print_def message_line_def)

definition all_printable :: "rx_event list \<Rightarrow> bool" where
  "all_printable evs \<longleftrightarrow> (\<forall>m. RxMessage m \<in> set evs \<longrightarrow> printable m)"

lemma all_printable_append [simp]: "all_printable (xs @ ys) \<longleftrightarrow> all_printable xs \<and> all_printable ys"
  by (auto simp: all_printable_def)

lemma all_printable_Nil [simp]: "all_printable []"
  by (simp add: all_printable_def)

lemma all_printable_Cons [simp]:
  "all_printable (e # evs) \<longleftrightarrow> (case e of RxError _ \<Rightarrow> True | RxMessage m \<Rightarrow> printable m) \<and> all_printable evs"
  by (cases e) (auto simp: all_printable_def)

lemma all_printable_report: "all_printable evs \<Longrightarrow> all_printable (report alive evs)"
  by (simp add: report_def)

lemma parsed_printable: "parse_Mo h mem sz out = Some (Inr (), m) \<Longrightarrow> printable m"
  using parsed_Mo_accessors [of h mem sz out m] unfolding printable_def by blast

lemma process_message_printable:
  assumes "process_message h alive s = Some (s', evs)"
  shows "all_printable evs"
proof -
  have "printable m" if "parse_Mo h (buf @ [0]) n MoMessage_init = Some (Inr u, m)" for buf n u m
    using parsed_printable that by simp
  with assms show ?thesis
    by (auto simp: process_message_def Let_def split: bind_splits sum.splits if_splits
        intro!: all_printable_report)
qed

lemma onRead_printable: "onRead h alive res s = Some (s', evs) \<Longrightarrow> all_printable evs"
  by (cases res) (auto simp: after_header_def Let_def split: bind_splits if_splits
      intro!: all_printable_report dest: process_message_printable)

lemma rx_step_printable:
  assumes "rx_step h r i (Some r')" and "all_printable (emitted r)"
  shows "all_printable (emitted r')"
  using assms(1)
proof cases
  case (start a b c)
  with assms(2) rx_start_cases [of a b c r] show ?thesis by (auto simp: doAccept_def)
next
  case (stop w e)
  with assms(2) show ?thesis by (simp add: rx_stop_snd)
next
  case destroy
  with assms(2) show ?thesis by (simp add: rx_stop_snd rx_destroy_def)
next
  case (accept res)
  with assms(2) on_accept_sessions [of res "r\<lparr>accepts := accepts r - 1\<rparr>" r'] show ?thesis by auto
next
  case (accept_cancelled res)
  with assms(2) on_accept_sessions [of res "r\<lparr>cancelled_accepts := cancelled_accepts r - 1\<rparr>" r'] show ?thesis by auto
next
  case (read k n res)
  with assms(2) show ?thesis
    by (auto simp: on_session_read_def split: bind_splits dest: onRead_printable)
qed

lemma main_printable:
  assumes "main_reach h rx_main_init m"
  shows "all_printable (emitted (main_rx m))"
proof -
  from main_reach_run [OF assms] obtain ins where "rx_run h SbdReceiver_Factory ins (main_rx m)" ..
  from rx_run_invariant [where I = "\<lambda>r. all_printable (emitted r)" and ok = "\<lambda>_. True", OF this _ _ rx_step_printable]
  show ?thesis by (auto simp: SbdReceiver_Factory_def)
qed

section \<open>Properties\<close>

lemma those_Some: "(\<forall>x \<in> set xs. f x \<noteq> None) \<Longrightarrow> those (map f xs) = Some (map (the \<circ> f) xs)"
  by (induction xs) auto

text \<open>C36 (type). Whatever comes over the network and however the connections interleave, the program can
  print all that its receiver emits: it writes one text for each event, in their order; a message is
  printed with an IMEI of at most 15 characters and a payload between 1 and 1960 bytes, for which no
  iterator is invalid and no cast meets an element of another class.\<close>

theorem main_prints_every_event:
  assumes "main_reach h rx_main_init m"
  shows "\<exists>out. main_output m = Some out \<and> length out = length (emitted (main_rx m)) \<and>
    (\<forall>i < length out. case emitted (main_rx m) ! i of
       RxError msg \<Rightarrow> out ! i = (Cerr, bytes_of ''Receive error: '' @ bytes_of msg @ endl)
     | RxMessage mo \<Rightarrow> \<exists>im pl. MoMessage_imei mo = Some im \<and> MoMessage_payload mo = Some pl \<and>
         length im \<le> 15 \<and> 1 \<le> length pl \<and> length pl \<le> 1960 \<and> out ! i = (Clog, message_line im pl))"
proof -
  let ?evs = "emitted (main_rx m)"
  have ev: "case e of
       RxError msg \<Rightarrow> shown_event e = Some (Cerr, bytes_of ''Receive error: '' @ bytes_of msg @ endl)
     | RxMessage mo \<Rightarrow> \<exists>im pl. MoMessage_imei mo = Some im \<and> MoMessage_payload mo = Some pl \<and>
         length im \<le> 15 \<and> 1 \<le> length pl \<and> length pl \<le> 1960 \<and> shown_event e = Some (Clog, message_line im pl)"
    if "e \<in> set ?evs" for e
    using main_printable [OF assms] that
    by (cases e) (use shown_message in \<open>auto simp: rx_OnError_def all_printable_def\<close>)
  have "those (map shown_event ?evs) = Some (map (the \<circ> shown_event) ?evs)"
    by (rule those_Some) (use ev in \<open>fastforce split: rx_event.splits\<close>)
  moreover have "case ?evs ! i of
       RxError msg \<Rightarrow> map (the \<circ> shown_event) ?evs ! i = (Cerr, bytes_of ''Receive error: '' @ bytes_of msg @ endl)
     | RxMessage mo \<Rightarrow> \<exists>im pl. MoMessage_imei mo = Some im \<and> MoMessage_payload mo = Some pl \<and>
         length im \<le> 15 \<and> 1 \<le> length pl \<and> length pl \<le> 1960 \<and>
         map (the \<circ> shown_event) ?evs ! i = (Clog, message_line im pl)" if "i < length ?evs" for i
    using ev [OF nth_mem [OF that]] that by (auto split: rx_event.splits)
  ultimately show ?thesis by (simp add: main_output_def)
qed

lemma main_reads:
  assumes "onRead h True res (session_start session_new) = Some (s, evs)"
    and "case res of Inl msg \<Rightarrow> True | Inr bs \<Rightarrow> bs \<noteq> [] \<and> length bs \<le> unat MoMessage_MaxMessageSize + 3"
  shows "\<exists>m. main_reach h rx_main_init m \<and> emitted (main_rx m) = evs \<and> length (sessions (main_rx m)) = 1 \<and>
    rx_run h SbdReceiver_Factory [RxStart None None None, Accept AcceptOk, SessionRead 0 res] (main_rx m)"
proof -
  let ?r = "SbdReceiver_Factory\<lparr>acceptor_open := True, rx_sentinel := True, accepts := 1\<rparr>"
  let ?s = "?r\<lparr>sessions := [session_start session_new]\<rparr>"
  let ?t = "?r\<lparr>sessions := [s], emitted := evs\<rparr>"
  let ?m = "rx_main_init\<lparr>phase := InRun, main_rx := ?r\<rparr>"
  have accepted: "rx_step h ?r (Accept AcceptOk) (Some ?s)"
    using rx_step.accept [of ?r AcceptOk h] by (simp add: on_accept_def doAccept_def SbdReceiver_Factory_def)
  then have "main_step h ?m (?m\<lparr>main_rx := ?s\<rparr>)"
    using main_step.accept [of ?m h AcceptOk ?s] by simp
  moreover have read: "rx_step h ?s (SessionRead 0 res) (Some ?t)"
    using rx_step.read [of 0 ?s "unat MoMessage_MaxMessageSize + 3" res h] assms
    by (simp add: on_session_read_def session_start_def MessageHeader_size_def SbdReceiver_Factory_def)
  then have "main_step h (?m\<lparr>main_rx := ?s\<rparr>) (?m\<lparr>main_rx := ?t\<rparr>)"
    using main_step.read [of "?m\<lparr>main_rx := ?s\<rparr>" h 0 res ?t] by simp
  ultimately have "main_reach h rx_main_init (?m\<lparr>main_rx := ?t\<rparr>)"
    using main_running main_reach.step by blast
  moreover have "rx_run h SbdReceiver_Factory [RxStart None None None, Accept AcceptOk, SessionRead 0 res] ?t"
    using rx_run.snoc [OF rx_run.snoc [OF listening_run accepted] read] by simp
  ultimately show ?thesis by (intro exI [of _ "?m\<lparr>main_rx := ?t\<rparr>"]) simp
qed

theorem main_prints_every_event_witness:
  "\<exists>m mo. main_reach sample_host rx_main_init m \<and> emitted (main_rx m) = [RxMessage mo] \<and>
     main_output m = Some [(Clog, message_line sample_imei [104, 105])]"
proof -
  obtain s mo where read: "onRead sample_host True (Inr (1 # be16 36 @ sample_Mo_wire)) (session_start session_new) =
      Some (s, [RxMessage mo])"
    and mo: "MoMessage_imei mo = Some sample_imei" "MoMessage_payload mo = Some [104, 105]"
    using sample_message_read by blast
  obtain m where m: "main_reach sample_host rx_main_init m" "emitted (main_rx m) = [RxMessage mo]"
    using main_reads [OF read] by (auto simp: be16_def sample_Mo_elements(5) MoMessage_MaxMessageSize_value)
  with main_prints_every_event [OF m(1)] mo obtain out
    where "main_output m = Some out" "length out = 1" "out ! 0 = (Clog, message_line sample_imei [104, 105])"
    by auto
  then have "main_output m = Some [(Clog, message_line sample_imei [104, 105])]"
    by (cases out) auto
  with m show ?thesis by blast
qed

section \<open>From the connection to the log\<close>

text \<open>The printed texts with the connections they belong to.\<close>

lemma main_shown:
  assumes "main_reach h rx_main_init m" and "e \<in> set (emitted (main_rx m))"
  shows "\<exists>out. shown_event e = Some out"
proof (cases e)
  case (RxMessage mo)
  with main_printable [OF assms(1)] assms(2) have "printable mo" by (auto simp: all_printable_def)
  from shown_message [OF this] RxMessage show ?thesis by auto
qed simp

lemma main_output_tagged:
  assumes "main_reach h rx_main_init m" and "map snd evs = emitted (main_rx m)"
  shows "main_output m = Some (map snd (map (map_prod id (the \<circ> shown_event)) evs))"
proof -
  have "main_output m = Some (map (the \<circ> shown_event) (emitted (main_rx m)))"
    unfolding main_output_def by (intro those_Some) (use main_shown [OF assms(1)] in fastforce)
  then show ?thesis
    unfolding assms(2) [symmetric] by (simp add: comp_def)
qed

text \<open>C4 (functional). From the gateway to the log of the program: when over one of its connections the
  elements of a mobile originated message came, framed and in any segments, the program has printed
  exactly one text for that connection, and it holds the IMEI and the payload that were packed, whatever
  came over other connections before, meanwhile and afterwards. The texts of a connection are those for
  what its session makes of the reads of that connection alone. (\<open>ins\<close> is what has happened to the
  receiver of the program.)\<close>

theorem message_printed_once:
  assumes "main_reach h rx_main_init m" and "rx_run h SbdReceiver_Factory ins (main_rx m)"
    and "k < length (sessions (main_rx m))"
    and "\<forall>e \<in> set es. el_good e \<and> typed e" and "list_all IsMoElem (map getId es)"
    and "find (\<lambda>e. getId e = eMoHeader) es = Some (IEMoHeader x)"
    and "find (\<lambda>e. getId e = eMoPayload) es = Some (IEMoPayload y)"
    and "w = wire_elements es" and "length w < 65536"
    and "reads_of k True ins = map (\<lambda>c. (True, Inr c)) (cs @ [c])"
    and "concat cs @ c = 1 # be16 (of_nat (length w)) @ w" and "length (concat cs) < 3 + length w"
  shows "\<exists>outs im. c_str (m_imei_mo (m_content x)) = Some im \<and> main_output m = Some (map snd outs) \<and>
    map snd (filter (\<lambda>out. fst out = k) outs) = [(Clog, message_line im (m_payload_mo (m_content y)))] \<and>
    (\<forall>j < length (sessions (main_rx m)). \<exists>s evs.
       receive h (reads_of j True ins) (session_start session_new) = Some (s, evs) \<and>
       map (Some \<circ> snd) (filter (\<lambda>out. fst out = j) outs) = map shown_event evs)"
proof -
  from apart_run [OF assms(2)] obtain evs where I: "apart h ins (main_rx m) evs" by blast
  then have evs: "map snd evs = emitted (main_rx m)" by (simp add: apart_def)
  from apart_message [OF I assms(3-)] obtain mo where k: "events_of k evs = [RxMessage mo]"
    and mo: "MoMessage_imei mo = c_str (m_imei_mo (m_content x))"
      "MoMessage_payload mo = Some (m_payload_mo (m_content y))" by blast
  let ?outs = "map (map_prod id (the \<circ> shown_event)) evs"
  have tagged: "map snd (filter (\<lambda>out. fst out = j) ?outs) = map (the \<circ> shown_event) (events_of j evs)" for j
    by (simp add: events_of_def filter_map comp_def)
  have sub: "set (events_of j evs) \<subseteq> set (emitted (main_rx m))" for j
    unfolding evs [symmetric] events_of_def by auto
  from sub [of k] main_printable [OF assms(1)] have "printable mo"
    unfolding k by (simp add: all_printable_def)
  from shown_message [OF this] mo obtain im where im: "c_str (m_imei_mo (m_content x)) = Some im"
      "shown_event (RxMessage mo) = Some (Clog, message_line im (m_payload_mo (m_content y)))" by auto
  have "map (Some \<circ> snd) (filter (\<lambda>out. fst out = j) ?outs) = map shown_event (events_of j evs)" for j
  proof -
    have "map (Some \<circ> snd) (filter (\<lambda>out. fst out = j) ?outs) = map Some (map (the \<circ> shown_event) (events_of j evs))"
      unfolding tagged [symmetric] by simp
    also have "\<dots> = map shown_event (events_of j evs)"
      using sub [of j] main_shown [OF assms(1)] by (auto simp: subset_iff)
    finally show ?thesis .
  qed
  moreover have "receive h (reads_of j True ins) (session_start session_new) =
      Some (sessions (main_rx m) ! j, events_of j evs)" if "j < length (sessions (main_rx m))" for j
    using I that by (simp add: apart_def)
  ultimately show ?thesis
    using tagged [of k] k im main_output_tagged [OF assms(1) evs]
    by (intro exI [of _ ?outs] exI [of _ im]) simp
qed

theorem message_printed_once_witness:
  "\<exists>m outs. main_reach sample_host rx_main_init m \<and> main_output m = Some (map snd outs) \<and>
     map snd (filter (\<lambda>out. fst out = (0 :: nat)) outs) = [(Clog, message_line sample_imei [104, 105])]"
proof -
  let ?c = "1 # be16 36 @ sample_Mo_wire"
  obtain s mo where "onRead sample_host True (Inr ?c) (session_start session_new) = Some (s, [RxMessage mo])"
    using sample_message_read by blast
  from main_reads [OF this] obtain m where m: "main_reach sample_host rx_main_init m" "length (sessions (main_rx m)) = 1"
      "rx_run sample_host SbdReceiver_Factory [RxStart None None None, Accept AcceptOk, SessionRead 0 (Inr ?c)] (main_rx m)"
    by (auto simp: be16_def sample_Mo_elements(5) MoMessage_MaxMessageSize_value)
  have "\<exists>outs im. c_str (m_imei_mo (m_content sample_MoHeader)) = Some im \<and> main_output m = Some (map snd outs) \<and>
    map snd (filter (\<lambda>out. fst out = (0 :: nat)) outs) = [(Clog, message_line im (m_payload_mo (m_content sample_MoPayload)))] \<and>
    (\<forall>j < length (sessions (main_rx m)). \<exists>s evs.
       receive sample_host (reads_of j True [RxStart None None None, Accept AcceptOk, SessionRead 0 (Inr ?c)])
         (session_start session_new) = Some (s, evs) \<and>
       map (Some \<circ> snd) (filter (\<lambda>out. fst out = j) outs) = map shown_event evs)"
    by (rule message_printed_once [OF m(1,3) _ sample_Mo_elements(1-4) sample_Mo_wire_def, of _ "[]" ?c])
      (simp_all add: m(2) sample_Mo_elements(5) be16_def)
  then obtain outs where "main_output m = Some (map snd outs)"
      "map snd (filter (\<lambda>out. fst out = (0 :: nat)) outs) = [(Clog, message_line sample_imei [104, 105])]"
    by (auto simp: sample_imei_c_str sample_MoHeader_def sample_MoPayload_def new_ie_def)
  with m(1) show ?thesis by (intro exI [of _ m] exI [of _ outs]) simp
qed

end
