(* ===== verification/Spec2Isabelle.thy ===== *)
theory Spec2Isabelle
  imports CodecProps CodecErrors MessageStore TransmitterChannel TransmitterDrain ReceiverCompose ModemRead ModemMains DirectIpSender DirectIpOutput
begin

text \<open>
  A model of libiridium, a C++ library for the Short Burst Data service of Iridium, and its properties.

  The library has two ways to the satellite network. Over TCP (DirectIP) a server sends mobile terminated
  messages to the gateway with \<open>SbdTransmitter\<close> and receives mobile originated ones with \<open>SbdReceiver\<close>, which
  has an \<open>IncomingSbdSession\<close> for each connection; both use \<open>Codec\<close> for messages that are sequences of
  information elements. On a device, \<open>Modem\<close> drives a satellite modem with AT commands over a serial port.

  \<^bold>\<open>Conventions.\<close> A theory names the files that it models, under include/iridium and src. Records and
  datatypes have the members and constructors of the source, functions its names. A result of type
  \<^typ>\<open>'a option\<close> is \<^term>\<open>None\<close> where the code has undefined behaviour (a read outside a buffer, a stale
  iterator, an empty \<open>shared_ptr\<close>); an exception is the left side of a sum, for the modem a constructor of
  \<^typ>\<open>'a result\<close>. Integers have the width of the source. Everything that depends on the machine takes a
  \<^typ>\<open>host\<close>: its byte order, whether \<open>char\<close> is signed, and what uninitialised storage holds. Theorems
  quantify over it, so they hold on x86 and on the ARM target of the build files.

  \<^bold>\<open>Parts.\<close>

  \<^item> Prelude, Host: memory as a list of bytes that may be read in part, decimal output, byte order. Runs: the
    locales \<open>reachability\<close> and \<open>labelled_runs\<close>, which every step relation below interprets, and \<open>simulation\<close>,
    by which runs of one part are runs of another.

  \<^item> InformationElement, IEMoHeader, IEMo, IEMt, Element: the eight kinds of elements with \<open>unpack\<close> and
    \<open>packInto\<close>, virtual dispatch as a datatype of the classes. The locales \<open>ie_reader\<close>, \<open>ie_writer\<close> and
    \<open>ie_codec\<close> state what the codec relies on (what is written is read back, nothing but the element is
    touched); every class interprets them, and so does the dispatching type.

  \<^item> Message, Codec (Message.cpp, Codec.cpp): messages with iterators as positions, serialization,
    \<open>factory\<close>, \<open>messageCategory\<close>, both \<open>parse\<close> functions. CodecLemmas, CodecProps, CodecErrors and
    FactoryProps show the round trips, the bytes on the wire, the category of framed elements, the outcome
    of \<open>factory\<close> on every argument, and the bounds of the reads: never more than three bytes past the
    announced size, and where that happens. MessageStore has messages as objects in memory, with the implicit
    copies: it shows that no accessor of a copy may be called, and that the transmitter, which works on
    copies, is not harmed by that.

  \<^item> JobUnitQueue: the queue between the threads, every method an atomic step, with the contract
    \<open>fifo_queue\<close> of the transmitter.

  \<^item> Transmitter (SbdTransmitter.cpp): \<open>StateMachine\<close>, which calls itself for the transient states and ends
    because their rank falls, every completion handler, the worker thread in four steps, \<open>post\<close>, \<open>start\<close>,
    \<open>stop\<close> and \<open>dropMessages\<close>. Boost.Asio is present as the operations that are outstanding or cancelled.
    TransmitterSteps has the step relation: client calls, the worker and completions interleave in any
    way, a cancelled operation may still complete as if it had not been. TransmitterInv has the invariants
    (without \<open>stop\<close> one operation is outstanding, that of the state; the back-off is a power of two up to
    64), TransmitterFifo the equation between what was posted, confirmed, under way and queued,
    TransmitterExec the step relation as a function for runs that are written out, TransmitterProps the
    properties of sessions, failures and the back-off. TransmitterChannel shows that the transmitter
    refines a channel that takes, delivers and puts back whole frames, and that each session ends after at
    most 65540 completions: the length of a reply has 16 bits, and every read brings a byte.
    TransmitterThread adds the \<open>std::thread\<close>: the client that is blocked in \<open>join\<close>, the destructor, and
    \<open>std::terminate\<close>; \<open>stop\<close> returns after at most three steps of the worker. What such an owner does to the
    transmitter is one of the runs above. TransmitterDrain shows that no state is a dead end: at most seven
    steps for each queued message and nine more, none of them of the client, can deliver everything.

  \<^item> IncomingSbdSession, SbdReceiver: the read handler of a session, listening, accepting and stopping.
    ReceiverProps shows that a message arrives once in any segments, that a session ends with its first
    event, and that exactly one accept is outstanding while the receiver is open. ReceiverCompose projects
    the runs of the receiver to its sessions, which do not interfere, so that all this holds of every
    connection of a running receiver.

  \<^item> ModemPort, Modem, ModemSession (Modem.cpp): every command as a function of a serial port and of Boost's
    conversions. In ModemLine the locale \<open>byte_line\<close> states what the commands rely on, a port that delivers a
    stream of bytes in any pieces, and is interpreted by a line that delivers given segments. ModemReplies
    shows in it that the parsers read back the numbers of a reply; ModemProps has the transfers of
    messages and their checksum. ModemRead is \<open>read_until_timeout\<close> as it is written, two asynchronous
    operations, the thread of the io service, the polling caller and a \<open>Close\<close> in another thread: it
    computes what the line of ModemLine gives, in at most nine steps and one for each piece that
    comes, and can return without the device at any time, unless its timeout was lost in a race or the
    port is closed under it.

  \<^item> LockFile, ModemClients, DirectIpClients: the rounds of the programs under examples, which use the
    library. ModemMains, DirectIpReceiver and DirectIpSender have their \<open>main\<close> functions as step relations:
    the loops, the io service in the thread of \<open>main\<close>, its timers, and the handler of the signals. Each
    shows when the program ends, and that the runs of the library in it are runs of the parts above; the modem
    programs wait for the lock file and leave none behind when they exit, and \<open>daemonize\<close> and
    \<open>alreadyRunning\<close> of the receiver agree on the file with the number of the process.
    DirectIpOutput prints what the receiver emits, which never fails, whatever came over the network, and
    shows that a message sent over a connection is printed once with its IMEI and payload.

  \<^bold>\<open>Parameters.\<close> The outcome of every system call and asynchronous operation is an argument or an input of a
  step. The serial port is the record \<open>port\<close>, with the private \<open>read_until_timeout\<close> as one of its
  operations, which ModemRead models. Boost's conversions are the record \<open>boost\<close>; theorems that need the documented
  behaviour of \<open>lexical_cast\<close> and \<open>numeric_cast\<close> assume \<open>boost_converts\<close>, which \<open>exact_boost\<close> satisfies.

  \<^bold>\<open>Where the code does not do what it means to.\<close> The theorems state the behaviour of the code as it is. Among
  them: the location element is read and written with a wrong length, the disposition flags lose their byte
  order, a short first read of a reply is undefined behaviour, \<open>stop\<close> loses the message under way, and the
  thread if it throws, the accept loop spins after \<open>stop\<close>, the checksum of the modem uses signed
  characters on x86, \<open>ReadMessage\<close> drops what it has read ahead, a timeout of the modem can be lost, and
  the example programs can miss their signal.

  \<^bold>\<open>Not modelled.\<close> Subscribers of the signals other than those of the DirectIP examples; what the programs print
  besides events and results; races on plain variables that two threads use without a mutex (\<open>m_running\<close>,
  \<open>m_shutdown\<close>, \<open>m_state\<close>, and the elements that the copies of a message share): every step is atomic; the
  code under \<open>#if 0\<close>; the build files.
\<close>

end
